(* ===== verification/Prelude.thy ===== *)
theory Prelude
  imports Main "HOL-Library.Word"
begin

text \<open>
  Shared vocabulary of the development: the machine integers of the Rust sources as fixed-width
  words, the arithmetic of Rust's integer methods (\<open>wrapping_*\<close>, \<open>saturating_*\<close>,
  \<open>checked_*\<close>), little-endian byte encodings, the outcome of kernel code that may halt the
  machine, and generic lemmas on lists and words that the component theories share.
\<close>

unbundle bit_operations_syntax

section \<open>Machine integers\<close>

type_synonym u8 = "8 word"
type_synonym u16 = "16 word"
type_synonym u32 = "32 word"
type_synonym u64 = "64 word"

text \<open>On RV64 a Rust \<open>usize\<close> is 64 bits wide.\<close>

type_synonym usize = "64 word"

text \<open>Facts that unfold the integer methods, and invariants the components keep.\<close>

named_theorems int_ops
named_theorems inv_intros

definition saturating_add :: "'a::len word \<Rightarrow> 'a word \<Rightarrow> 'a word" where
  "saturating_add a b = (if unat a + unat b < 2 ^ LENGTH('a) then a + b else - 1)"

definition saturating_sub :: "'a::len word \<Rightarrow> 'a word \<Rightarrow> 'a word" where
  "saturating_sub a b = (if a < b then 0 else a - b)"

definition checked_add :: "'a::len word \<Rightarrow> 'a word \<Rightarrow> 'a word option" where
  "checked_add a b = (if unat a + unat b < 2 ^ LENGTH('a) then Some (a + b) else None)"

declare saturating_add_def [int_ops] saturating_sub_def [int_ops] checked_add_def [int_ops]

lemma unat_saturating_add:
  "unat (saturating_add a b) = min (unat a + unat b) (2 ^ LENGTH('a) - 1)"
  for a b :: "'a::len word"
proof -
  have "unat (a + b) = unat a + unat b" if "unat a + unat b < 2 ^ LENGTH('a)"
    using that by (simp add: unat_word_ariths)
  then show ?thesis
    by (auto simp: saturating_add_def unsigned_minus_1_eq_mask mask_eq_exp_minus_1 min_def)
qed

lemma unat_saturating_sub: "unat (saturating_sub a b) = unat a - unat b"
  by (auto simp: saturating_sub_def unat_sub word_le_nat_alt word_less_nat_alt not_less)

lemma saturating_sub_le: "saturating_sub a b \<le> a"
  by (simp add: word_le_nat_alt unat_saturating_sub)

lemma checked_add_Some_iff:
  "checked_add a b = Some c \<longleftrightarrow> unat c = unat a + unat b"
  for a b c :: "'a::len word"
proof
  assume "checked_add a b = Some c"
  then show "unat c = unat a + unat b"
    by (auto simp: checked_add_def unat_word_ariths split: if_splits)
next
  assume c: "unat c = unat a + unat b"
  have "unat c < 2 ^ LENGTH('a)" by (rule unsigned_less)
  with c have lt: "unat a + unat b < 2 ^ LENGTH('a)" by simp
  then have "unat (a + b) = unat c" using c by (simp add: unat_word_ariths)
  then have "a + b = c" by (rule unsigned_word_eqI)
  with lt show "checked_add a b = Some c" by (simp add: checked_add_def)
qed

lemma checked_add_None_iff:
  "checked_add a b = None \<longleftrightarrow> 2 ^ LENGTH('a) \<le> unat a + unat b"
  for a b :: "'a::len word"
  by (auto simp: checked_add_def)

lemma unat_less: "unat w < 2 ^ LENGTH('a)" for w :: "'a::len word"
  by (rule unsigned_less)

lemma unat_Suc_mod: "unat (w + 1) = Suc (unat w) mod 2 ^ LENGTH('a)" for w :: "'a::len word"
  by (simp add: unat_word_ariths)

section \<open>Little-endian bytes\<close>

text \<open>Rust's \<open>to_le_bytes\<close> and \<open>from_le_bytes\<close> for the widths the sources use.\<close>

definition le_bytes16 :: "u16 \<Rightarrow> u8 list" where
  "le_bytes16 w = [ucast w, ucast (drop_bit 8 w)]"

definition le_bytes32 :: "u32 \<Rightarrow> u8 list" where
  "le_bytes32 w = [ucast w, ucast (drop_bit 8 w), ucast (drop_bit 16 w), ucast (drop_bit 24 w)]"

definition from_le_bytes32 :: "u8 \<Rightarrow> u8 \<Rightarrow> u8 \<Rightarrow> u8 \<Rightarrow> u32" where
  "from_le_bytes32 a b c d =
     ucast a OR push_bit 8 (ucast b) OR push_bit 16 (ucast c) OR push_bit 24 (ucast d)"

lemma length_le_bytes [simp]: "length (le_bytes16 v) = 2" "length (le_bytes32 w) = 4"
  by (simp_all add: le_bytes16_def le_bytes32_def)

lemma from_le_bytes32_split:
  "from_le_bytes32 (ucast w) (ucast (drop_bit 8 w)) (ucast (drop_bit 16 w)) (ucast (drop_bit 24 w)) = w"
  unfolding from_le_bytes32_def
proof (rule bit_word_eqI, goal_cases)
  case (1 n)
  then consider "n < 8" | "8 \<le> n" "n < 16" | "16 \<le> n" "n < 24" | "24 \<le> n" "n < 32"
    by fastforce
  then show ?case by cases (auto simp: bit_simps)
qed

lemma le_bytes32_inj: "le_bytes32 v = le_bytes32 w \<longleftrightarrow> v = w"
proof
  assume eq: "le_bytes32 v = le_bytes32 w"
  have "from_le_bytes32 (le_bytes32 v ! 0) (le_bytes32 v ! 1) (le_bytes32 v ! 2) (le_bytes32 v ! 3) = v"
    for v
    unfolding le_bytes32_def nth_Cons_0 nth_Cons_numeral One_nat_def nth_Cons_Suc
    by (simp add: from_le_bytes32_split numeral_2_eq_2 numeral_3_eq_3)
  from this [of v] this [of w] show "v = w" unfolding eq by simp
qed simp

lemma le_bytes16_inj: "le_bytes16 v = le_bytes16 w \<longleftrightarrow> v = w"
proof
  assume eq: "le_bytes16 v = le_bytes16 w"
  show "v = w"
  proof (rule bit_word_eqI, goal_cases)
    case (1 n)
    from eq have "bit (ucast v :: u8) n = bit (ucast w :: u8) n"
      and "bit (ucast (drop_bit 8 v) :: u8) (n - 8) = bit (ucast (drop_bit 8 w) :: u8) (n - 8)"
      by (simp_all add: le_bytes16_def)
    then show ?case using 1 by (cases "n < 8") (auto simp: bit_simps)
  qed
qed simp

section \<open>Code that may halt the machine\<close>

text \<open>
  \<open>halt_system\<close> (\<open>common/mod.rs\<close>), \<open>shutdown_system\<close> (\<open>scheduler\<close>) and a
  Rust panic (\<open>main.rs\<close>, \<open>panic = "abort"\<close>) never return: the hart sits in a \<open>wfi\<close>
  loop. A switch to a task that has not run yet does not return either: it enters user mode through
  \<open>task_trampoline\<close>. A kernel operation therefore returns a value and the next state, or it has
  entered user mode in a state, or it has halted in a state.
\<close>

datatype halt_reason = Policy_Shutdown | Fatal string | Panic

datatype ('s, 'a) outcome = Halted halt_reason 's | Entered 's | Returned 'a 's

fun obind :: "('s, 'a) outcome \<Rightarrow> ('a \<Rightarrow> 's \<Rightarrow> ('s, 'b) outcome) \<Rightarrow> ('s, 'b) outcome" where
  "obind (Halted r s) f = Halted r s"
| "obind (Entered s) f = Entered s"
| "obind (Returned x s) f = f x s"

fun final_state :: "('s, 'a) outcome \<Rightarrow> 's" where
  "final_state (Halted r s) = s"
| "final_state (Entered s) = s"
| "final_state (Returned x s) = s"

fun panics :: "('s, 'a) outcome \<Rightarrow> bool" where
  "panics (Halted r s) = (r = Panic)"
| "panics (Entered s) = False"
| "panics (Returned x s) = False"

fun halts :: "('s, 'a) outcome \<Rightarrow> bool" where
  "halts (Halted r s) = True"
| "halts (Entered s) = False"
| "halts (Returned x s) = False"

text \<open>A loop over indices: each round may halt.\<close>

fun for_each :: "'i list \<Rightarrow> ('i \<Rightarrow> 's \<Rightarrow> ('s, unit) outcome) \<Rightarrow> 's \<Rightarrow> ('s, unit) outcome" where
  "for_each [] body s = Returned () s"
| "for_each (i # is) body s = obind (body i s) (\<lambda>_. for_each is body)"

text \<open>\<open>safely P m\<close>: the run does not panic, and wherever it stops, \<open>P\<close> holds.\<close>

definition safely :: "('s \<Rightarrow> bool) \<Rightarrow> ('s, 'a) outcome \<Rightarrow> bool" where
  "safely P m \<longleftrightarrow> \<not> panics m \<and> P (final_state m)"

lemma safely_simps [simp]:
  "safely P (Returned x s) = P s"
  "safely P (Entered s) = P s"
  "safely P (Halted r s) = (r \<noteq> Panic \<and> P s)"
  by (auto simp: safely_def)

lemma safely_obind [inv_intros]:
  assumes "safely P m" and "\<And>x s. m = Returned x s \<Longrightarrow> P s \<Longrightarrow> safely P (f x s)"
  shows "safely P (obind m f)"
  using assms by (cases m) auto

lemma safely_for_each [inv_intros]:
  assumes "P s" and "\<And>i s. i \<in> set is \<Longrightarrow> P s \<Longrightarrow> safely P (body i s)"
  shows "safely P (for_each is body s)"
  using assms by (induction "is" arbitrary: s) (auto intro!: safely_obind)

lemma safely_if [inv_intros]:
  "(b \<Longrightarrow> safely P x) \<Longrightarrow> (\<not> b \<Longrightarrow> safely P y) \<Longrightarrow> safely P (if b then x else y)"
  by simp

lemma safely_let [inv_intros]: "safely P (f x) \<Longrightarrow> safely P (let y = x in f y)"
  by (simp add: Let_def)

lemma obind_assoc: "obind (obind m f) g = obind m (\<lambda>x s. obind (f x s) g)"
  by (cases m) auto

lemma obind_eq_Returned_iff:
  "obind m f = Returned y t \<longleftrightarrow> (\<exists>x s. m = Returned x s \<and> f x s = Returned y t)"
  by (cases m) auto

section \<open>Loops over the first elements of an array\<close>

text \<open>
  \<open>while i < n { xs[i] = f(xs[i]); i += 1 }\<close> over an array \<open>xs\<close>: the elements below
  \<open>n\<close> are rewritten, the others stay.
\<close>

definition update_first :: "nat \<Rightarrow> ('a \<Rightarrow> 'a) \<Rightarrow> 'a list \<Rightarrow> 'a list" where
  "update_first n f xs = map f (take n xs) @ drop n xs"

lemma length_update_first [simp]: "length (update_first n f xs) = length xs"
  by (simp add: update_first_def)

lemma nth_update_first:
  "i < length xs \<Longrightarrow> update_first n f xs ! i = (if i < n then f (xs ! i) else xs ! i)"
  by (auto simp: update_first_def nth_append)

text \<open>The definition is the index loop.\<close>

lemma update_first_loop:
  "n \<le> length xs \<Longrightarrow> fold (\<lambda>i ys. ys[i := f (ys ! i)]) [0..<n] xs = update_first n f xs"
proof (induction n)
  case 0
  then show ?case by (simp add: update_first_def)
next
  case (Suc n)
  then have "fold (\<lambda>i ys. ys[i := f (ys ! i)]) [0..<Suc n] xs
      = (update_first n f xs)[n := f (update_first n f xs ! n)]"
    by simp
  also have "\<dots> = update_first (Suc n) f xs"
    using Suc.prems by (auto intro!: nth_equalityI simp: nth_update_first nth_list_update less_Suc_eq)
  finally show ?case .
qed

lemma list4_conv: "length xs = 4 \<Longrightarrow> xs = [xs ! 0, xs ! 1, xs ! 2, xs ! 3]"
  by (auto simp: numeral_eq_Suc length_Suc_conv)

lemma nth_update_any: "xs[i := x] ! j = (if j = i \<and> i < length xs then x else xs ! j)"
  by (cases "i < length xs"; cases "j = i") (auto simp: list_update_beyond)

lemma list_all_nth_iff: "list_all P xs \<longleftrightarrow> (\<forall>i<length xs. P (xs ! i))"
  by (simp add: list_all_length)

lemma list_all_update: "list_all P xs \<Longrightarrow> P x \<Longrightarrow> list_all P (xs[i := x])"
  by (cases "i < length xs") (auto simp: list_all_length nth_list_update list_update_beyond)

lemma list_all_update_first:
  "list_all P xs \<Longrightarrow> (\<And>x. P x \<Longrightarrow> P (f x)) \<Longrightarrow> list_all P (update_first n f xs)"
  by (auto simp: list_all_length nth_update_first)

end
