(* ===== verification/Config.thy ===== *)
theory Config
  imports Prelude
begin

text \<open>
  Compile-time constants and shared types: \<open>src/common/config.rs\<close>, \<open>src/common/types.rs\<close> and
  \<open>src/common/error.rs\<close>. Array sizes and indices are natural numbers; values that are stored at a
  machine width keep that width.
\<close>

section \<open>Constants (common/config.rs)\<close>

abbreviation (input) MAX_TASKS :: nat where "MAX_TASKS \<equiv> 8"
abbreviation (input) PMP_DYNAMIC_START_ENTRY :: nat where "PMP_DYNAMIC_START_ENTRY \<equiv> 8"
abbreviation (input) MAX_PMP_ENTRIES :: nat where "MAX_PMP_ENTRIES \<equiv> 16"
abbreviation (input) MAX_DYNAMIC_PMP_ENTRIES :: nat where
  "MAX_DYNAMIC_PMP_ENTRIES \<equiv> MAX_PMP_ENTRIES - PMP_DYNAMIC_START_ENTRY"

abbreviation (input) KERNEL_BASE :: usize where "KERNEL_BASE \<equiv> 0x80000000"
abbreviation (input) KERNEL_SIZE :: usize where "KERNEL_SIZE \<equiv> 0x600000"
abbreviation (input) NATIVE_TASK_BASE :: usize where "NATIVE_TASK_BASE \<equiv> 0x80600000"

abbreviation (input) SYSTEM_TASK_ID :: u8 where "SYSTEM_TASK_ID \<equiv> 0xFF"
abbreviation (input) SYSTEM_TASK_INDEX :: nat where "SYSTEM_TASK_INDEX \<equiv> 255"
abbreviation (input) KERNEL_BOOT_ID :: u8 where "KERNEL_BOOT_ID \<equiv> 0xFE"
abbreviation (input) CHANNEL_UNASSIGNED :: u8 where "CHANNEL_UNASSIGNED \<equiv> 0xFF"

abbreviation (input) TASK_STACK_SIZE :: usize where "TASK_STACK_SIZE \<equiv> 8192"
abbreviation (input) IPC_MSG_SIZE :: nat where "IPC_MSG_SIZE \<equiv> 64"
abbreviation (input) IPC_CHANNEL_SLOTS :: nat where "IPC_CHANNEL_SLOTS \<equiv> 16"
abbreviation (input) MAX_IPC_CHANNELS :: nat where "MAX_IPC_CHANNELS \<equiv> 8"
abbreviation (input) MAX_RESOURCES :: nat where "MAX_RESOURCES \<equiv> 4"

abbreviation (input) UART_BASE :: usize where "UART_BASE \<equiv> 0x10000000"
abbreviation (input) UART_END :: usize where "UART_END \<equiv> 0x10000100"

abbreviation (input) CYCLES_PER_TICK :: u32 where "CYCLES_PER_TICK \<equiv> 100000"
abbreviation (input) MAX_SENDS_PER_TICK :: u32 where "MAX_SENDS_PER_TICK \<equiv> 16"
abbreviation (input) WATCHDOG_WINDOW_MIN :: u32 where "WATCHDOG_WINDOW_MIN \<equiv> 3"
abbreviation (input) WATCHDOG_LIMIT :: u32 where "WATCHDOG_LIMIT \<equiv> 100"

abbreviation (input) BLACKBOX_MAX_RECORDS :: nat where "BLACKBOX_MAX_RECORDS \<equiv> 128"
abbreviation (input) BLACKBOX_DATA_SIZE :: nat where "BLACKBOX_DATA_SIZE \<equiv> 42"
abbreviation (input) SYSCALL_COUNT :: nat where "SYSCALL_COUNT \<equiv> 6"

section \<open>Shared types (common/types.rs, common/error.rs)\<close>

datatype TaskState = Ready | Running | Suspended | Dead | Isolated

text \<open>Rust's \<open>as usize\<close> on the enum: the declaration index.\<close>

fun state_code :: "TaskState \<Rightarrow> usize" where
  "state_code Ready = 0"
| "state_code Running = 1"
| "state_code Suspended = 2"
| "state_code Dead = 3"
| "state_code Isolated = 4"

datatype SipahiError =
    CapabilityDenied | BufferFull | InvalidSyscall | BudgetExhaustedE | IntegrityError
  | FuelExhausted | ModuleRejected | PmpViolation | DeadlineMissE | WatchdogTimeoutE
  | DeviceNotReady | InvalidParameter | ReplayDetected | InvalidPointer

datatype DalLevel = DAL_A | DAL_B | DAL_C | DAL_D

fun safety_factor :: "DalLevel \<Rightarrow> u32" where
  "safety_factor DAL_A = 150"
| "safety_factor DAL_B = 130"
| "safety_factor DAL_C = 120"
| "safety_factor DAL_D = 100"

text \<open>Both task configurations. The entry of a legacy task is the address of its function.\<close>

record TaskConfig =
  cfg_entry :: usize
  cfg_priority :: u8
  cfg_dal :: u8
  cfg_budget_cycles :: u32
  cfg_period_ticks :: u32
  cfg_is_sntm_native :: bool

record NativeTaskConfig =
  ncfg_task_id :: u8
  ncfg_priority :: u8
  ncfg_dal :: u8
  ncfg_budget_cycles :: u32
  ncfg_period_ticks :: u32

end
