(* ===== verification/Pmp.thy ===== *)
theory Pmp
  imports Config
begin

text \<open>
  Physical memory protection: the CSR layer \<open>src/arch/pmp.rs\<close>, the manifest-generated profiles
  \<open>src/kernel/pmp/{profile,overlap,generated}.rs\<close>, and the boot configuration and shadow registers
  of \<open>src/kernel/memory/mod.rs\<close>. The last part states what the hardware does with the registers
  (the matching rule of the privileged specification) and shows which accesses the kernel's settings
  allow.
\<close>

section \<open>Configuration bits and encodings (arch/pmp.rs)\<close>

abbreviation (input) PMP_R :: u8 where "PMP_R \<equiv> 0x01"
abbreviation (input) PMP_W :: u8 where "PMP_W \<equiv> 0x02"
abbreviation (input) PMP_X :: u8 where "PMP_X \<equiv> 0x04"
abbreviation (input) PMP_TOR :: u8 where "PMP_TOR \<equiv> 0x08"
abbreviation (input) PMP_L :: u8 where "PMP_L \<equiv> 0x80"
abbreviation (input) PMP_NAPOT :: u8 where "PMP_NAPOT \<equiv> 0x18"
abbreviation (input) PMP_NAPOT_RW :: usize where "PMP_NAPOT_RW \<equiv> 0x1B"
abbreviation (input) PMP_NAPOT_MASK_8KB :: usize where "PMP_NAPOT_MASK_8KB \<equiv> 0x3FF"

datatype PmpEncoding = Napot usize u8 | Tor usize usize

section \<open>Profiles (kernel/pmp/profile.rs)\<close>

record Permission =
  perm_r :: bool
  perm_w :: bool
  perm_x :: bool

definition PERM_RX :: Permission where "PERM_RX = \<lparr>perm_r = True, perm_w = False, perm_x = True\<rparr>"
definition PERM_R :: Permission where "PERM_R = \<lparr>perm_r = True, perm_w = False, perm_x = False\<rparr>"
definition PERM_RW :: Permission where "PERM_RW = \<lparr>perm_r = True, perm_w = True, perm_x = False\<rparr>"
definition PERM_NONE :: Permission where "PERM_NONE = \<lparr>perm_r = False, perm_w = False, perm_x = False\<rparr>"

datatype Access = Read | Write | Execute

fun access_matches :: "Access \<Rightarrow> Permission \<Rightarrow> bool" where
  "access_matches Read p = perm_r p"
| "access_matches Write p = perm_w p"
| "access_matches Execute p = perm_x p"

record Region =
  reg_base :: usize
  reg_size :: usize
  reg_encoding :: PmpEncoding
  reg_perm :: Permission

record PmpProfile =
  region_count :: u8
  regions :: "Region list"

definition region_none :: Region where
  "region_none = \<lparr>reg_base = 0, reg_size = 0, reg_encoding = Napot 0 0, reg_perm = PERM_NONE\<rparr>"

definition PROFILE_EMPTY :: PmpProfile where
  "PROFILE_EMPTY = \<lparr>region_count = 0, regions = replicate 6 region_none\<rparr>"

definition active_regions :: "PmpProfile \<Rightarrow> Region list" where
  "active_regions p = take (min (unat (region_count p)) 6) (regions p)"

section \<open>Generated profiles (kernel/pmp/generated.rs)\<close>

definition TASK_HELLO_PROFILE :: PmpProfile where
  "TASK_HELLO_PROFILE = \<lparr>region_count = 4, regions =
     [\<lparr>reg_base = 0x80600000, reg_size = 0x4000, reg_encoding = Napot 0x201807ff 14, reg_perm = PERM_RX\<rparr>,
      \<lparr>reg_base = 0x80604000, reg_size = 0x1000, reg_encoding = Napot 0x201811ff 12, reg_perm = PERM_R\<rparr>,
      \<lparr>reg_base = 0x80605000, reg_size = 0x1000, reg_encoding = Napot 0x201815ff 12, reg_perm = PERM_RW\<rparr>,
      \<lparr>reg_base = 0x80610000, reg_size = 0x2000, reg_encoding = Napot 0x201843ff 13, reg_perm = PERM_RW\<rparr>,
      region_none, region_none]\<rparr>"

definition TASK_WORLD_PROFILE :: PmpProfile where
  "TASK_WORLD_PROFILE = \<lparr>region_count = 4, regions =
     [\<lparr>reg_base = 0x80700000, reg_size = 0x4000, reg_encoding = Napot 0x201c07ff 14, reg_perm = PERM_RX\<rparr>,
      \<lparr>reg_base = 0x80704000, reg_size = 0x1000, reg_encoding = Napot 0x201c11ff 12, reg_perm = PERM_R\<rparr>,
      \<lparr>reg_base = 0x80705000, reg_size = 0x1000, reg_encoding = Napot 0x201c15ff 12, reg_perm = PERM_RW\<rparr>,
      \<lparr>reg_base = 0x80710000, reg_size = 0x2000, reg_encoding = Napot 0x201c43ff 13, reg_perm = PERM_RW\<rparr>,
      region_none, region_none]\<rparr>"

definition PMP_PROFILES :: "PmpProfile list" where
  "PMP_PROFILES = [PROFILE_EMPTY, PROFILE_EMPTY, TASK_HELLO_PROFILE, TASK_WORLD_PROFILE,
     PROFILE_EMPTY, PROFILE_EMPTY, PROFILE_EMPTY, PROFILE_EMPTY]"

definition get_pmp_profile :: "u8 \<Rightarrow> PmpProfile option" where
  "get_pmp_profile task_id =
     (let idx = unat task_id in if MAX_TASKS \<le> idx then None else Some (PMP_PROFILES ! idx))"

section \<open>Overlap and alignment (kernel/pmp/overlap.rs)\<close>

definition regions_overlap :: "usize \<Rightarrow> usize \<Rightarrow> usize \<Rightarrow> usize \<Rightarrow> bool" where
  "regions_overlap a_base a_size b_base b_size =
     (if a_size = 0 \<or> b_size = 0 then False
      else let a_end = saturating_add a_base a_size; b_end = saturating_add b_base b_size
      in \<not> (a_end \<le> b_base \<or> b_end \<le> a_base))"

definition valid_napot_alignment :: "usize \<Rightarrow> usize \<Rightarrow> bool" where
  "valid_napot_alignment base sz =
     (if sz < 8 then False
      else if sz AND (sz - 1) \<noteq> 0 then False
      else base AND (sz - 1) = 0)"

section \<open>The registers and their shadows\<close>

text \<open>
  The PMP registers of the hart, with the shadow copies of \<open>memory/mod.rs\<close>. A CSR may keep only
  part of a written value (the registers are WARL): \<open>warl_addr i v\<close> is what \<open>pmpaddr i\<close> reads
  back after \<open>csrw\<close> of \<open>v\<close>, \<open>warl_cfg v\<close> what a configuration register reads back.
  \<open>sfence.vma\<close> orders the writes with later accesses and has no effect on the registers.
\<close>

record pmp_unit =
  pmpaddr :: "u64 list"
  pmpcfg0 :: u64
  pmpcfg2 :: u64
  warl_addr :: "nat \<Rightarrow> u64 \<Rightarrow> u64"
  warl_cfg :: "u64 \<Rightarrow> u64"
  PMP_SHADOW :: u64
  PMP_SHADOW_ADDRS :: "usize list"
  PMP_SHADOW_ADDR8 :: usize
  PMP_SHADOW_CFG2 :: usize
  PMP_SHADOW_DYN_ADDRS :: "usize list"

definition csrw_pmpaddr :: "nat \<Rightarrow> u64 \<Rightarrow> pmp_unit \<Rightarrow> pmp_unit" where
  "csrw_pmpaddr i v h = h\<lparr>pmpaddr := (pmpaddr h)[i := warl_addr h i v]\<rparr>"

definition csrw_pmpcfg2 :: "u64 \<Rightarrow> pmp_unit \<Rightarrow> pmp_unit" where
  "csrw_pmpcfg2 v h = h\<lparr>pmpcfg2 := warl_cfg h v\<rparr>"

definition write_pmpaddr :: "nat \<Rightarrow> usize \<Rightarrow> pmp_unit \<Rightarrow> pmp_unit" where
  "write_pmpaddr index addr h =
     (let shifted = drop_bit 2 addr in if index < 16 then csrw_pmpaddr index shifted h else h)"

definition write_pmpcfg0 :: "u64 \<Rightarrow> pmp_unit \<Rightarrow> pmp_unit" where
  "write_pmpcfg0 v h = h\<lparr>pmpcfg0 := warl_cfg h v\<rparr>"

definition read_pmpaddr :: "nat \<Rightarrow> pmp_unit \<Rightarrow> usize" where
  "read_pmpaddr index h = (if index < 16 then pmpaddr h ! index else 0)"

definition write_per_task_napot :: "usize \<Rightarrow> usize \<Rightarrow> pmp_unit \<Rightarrow> pmp_unit" where
  "write_per_task_napot napot_addr cfg_val h =
     (let h = csrw_pmpcfg2 0 h;
          h = csrw_pmpaddr 8 napot_addr h;
          h = csrw_pmpaddr 9 0 h;
          h = csrw_pmpaddr 10 0 h;
          h = csrw_pmpaddr 11 0 h;
          h = csrw_pmpaddr 12 0 h;
          h = csrw_pmpaddr 13 0 h;
          h = csrw_pmpaddr 14 0 h;
          h = csrw_pmpaddr 15 0 h
      in csrw_pmpcfg2 cfg_val h)"

definition pack_pmpcfg :: "u8 list \<Rightarrow> u64" where
  "pack_pmpcfg configs = fold (\<lambda>i result. result OR push_bit (i * 8) (ucast (configs ! i))) [0..<8] 0"

section \<open>Profile reload (arch/pmp.rs)\<close>

text \<open>
  The plan of entries a reload writes, as the code computes it: \<open>entry\<close> is the next PMP entry,
  \<open>out\<close> the indices so far.
\<close>

fun touched_loop :: "Region list \<Rightarrow> nat \<Rightarrow> nat list \<Rightarrow> nat list" where
  "touched_loop [] entry out = out"
| "touched_loop (r # rs) entry out =
     (if entry < MAX_PMP_ENTRIES \<and> length out < 12
      then case reg_encoding r of
          Napot _ _ \<Rightarrow> touched_loop rs (entry + 1) (out @ [entry])
        | Tor _ _ \<Rightarrow>
            (let out1 = out @ [entry]; entry1 = entry + 1
             in if entry1 < MAX_PMP_ENTRIES \<and> length out1 < 12
                then touched_loop rs (entry1 + 1) (out1 @ [entry1])
                else touched_loop rs entry1 out1)
      else out)"

definition reload_indices_touched :: "PmpProfile \<Rightarrow> nat list" where
  "reload_indices_touched p = touched_loop (active_regions p) PMP_DYNAMIC_START_ENTRY []"

definition perm_to_cfg :: "Permission \<Rightarrow> u8" where
  "perm_to_cfg p =
     (if perm_r p then PMP_R else 0) OR (if perm_w p then PMP_W else 0) OR (if perm_x p then PMP_X else 0)"

definition accumulate_cfg2 :: "u64 \<Rightarrow> nat \<Rightarrow> u8 \<Rightarrow> u64" where
  "accumulate_cfg2 cfg2 idx byte =
     cfg2 OR push_bit ((idx - PMP_DYNAMIC_START_ENTRY) * 8) (ucast byte)"

definition write_pmpaddr_dyn :: "nat \<Rightarrow> usize \<Rightarrow> pmp_unit \<Rightarrow> pmp_unit" where
  "write_pmpaddr_dyn idx v h = (if 8 \<le> idx \<and> idx \<le> 15 then csrw_pmpaddr idx v h else h)"

text \<open>The registers, the addresses and configuration collected for the shadow, and the next entry.\<close>

type_synonym reload_state = "pmp_unit \<times> usize list \<times> u64 \<times> nat"

definition put_entry :: "usize \<Rightarrow> u8 \<Rightarrow> reload_state \<Rightarrow> reload_state" where
  "put_entry v byte s =
     (case s of (h, new_addrs, new_cfg2, entry) \<Rightarrow>
        (write_pmpaddr_dyn entry v h, new_addrs[entry - PMP_DYNAMIC_START_ENTRY := v],
         accumulate_cfg2 new_cfg2 entry byte, entry + 1))"

fun reload_loop :: "Region list \<Rightarrow> reload_state \<Rightarrow> reload_state" where
  "reload_loop [] s = s"
| "reload_loop (r # rs) s =
     (if snd (snd (snd s)) < MAX_PMP_ENTRIES
      then case reg_encoding r of
          Napot addr _ \<Rightarrow> reload_loop rs (put_entry addr (perm_to_cfg (reg_perm r) OR PMP_NAPOT) s)
        | Tor lo hi \<Rightarrow>
            (let s1 = put_entry (drop_bit 2 lo) 0 s
             in if snd (snd (snd s1)) < MAX_PMP_ENTRIES
                then reload_loop rs (put_entry (drop_bit 2 hi) (perm_to_cfg (reg_perm r) OR PMP_TOR) s1)
                else reload_loop rs s1)
      else s)"

definition clear_rest :: "nat \<Rightarrow> pmp_unit \<Rightarrow> pmp_unit" where
  "clear_rest entry h = fold (\<lambda>i. write_pmpaddr_dyn i 0) [entry..<MAX_PMP_ENTRIES] h"

text \<open>Shadow updates and the integrity check of \<open>memory/mod.rs\<close>.\<close>

definition update_task_pmp_shadow :: "usize \<Rightarrow> usize \<Rightarrow> pmp_unit \<Rightarrow> pmp_unit" where
  "update_task_pmp_shadow addr cfg h =
     h\<lparr>PMP_SHADOW_ADDR8 := addr, PMP_SHADOW_CFG2 := cfg,
       PMP_SHADOW_DYN_ADDRS := fold (\<lambda>i ds. ds[i := 0]) [1..<8] ((PMP_SHADOW_DYN_ADDRS h)[0 := addr])\<rparr>"

definition update_dynamic_pmp_shadow :: "usize list \<Rightarrow> usize \<Rightarrow> pmp_unit \<Rightarrow> pmp_unit" where
  "update_dynamic_pmp_shadow addrs cfg2 h =
     h\<lparr>PMP_SHADOW_CFG2 := cfg2, PMP_SHADOW_ADDR8 := addrs ! 0,
       PMP_SHADOW_DYN_ADDRS := fold (\<lambda>i ds. ds[i := addrs ! i]) [0..<8] (PMP_SHADOW_DYN_ADDRS h)\<rparr>"

definition reload_pmp_profile :: "PmpProfile \<Rightarrow> pmp_unit \<Rightarrow> pmp_unit" where
  "reload_pmp_profile profile h =
     (let h = csrw_pmpcfg2 0 h;
          (h, new_addrs, new_cfg2, entry) =
            reload_loop (active_regions profile) (h, replicate 8 0, 0, PMP_DYNAMIC_START_ENTRY);
          h = clear_rest entry h;
          h = csrw_pmpcfg2 new_cfg2 h
      in update_dynamic_pmp_shadow new_addrs new_cfg2 h)"

definition verify_pmp_integrity :: "pmp_unit \<Rightarrow> bool" where
  "verify_pmp_integrity h =
     (if pmpcfg0 h \<noteq> PMP_SHADOW h then False
      else if \<not> list_all (\<lambda>i. read_pmpaddr i h = PMP_SHADOW_ADDRS h ! i) [0..<8] then False
      else if pmpcfg2 h \<noteq> PMP_SHADOW_CFG2 h then False
      else list_all (\<lambda>j. read_pmpaddr (8 + j) h = PMP_SHADOW_DYN_ADDRS h ! j) [0..<8])"

section \<open>Boot configuration (memory/mod.rs)\<close>

text \<open>The addresses of the linker symbols.\<close>

record linker_symbols =
  text_start :: usize
  text_end :: usize
  rodata_start :: usize
  rodata_end :: usize
  data_start :: usize
  pmp_data_end :: usize
  task_stacks_start :: usize
  task_stacks_end :: usize

text \<open>\<open>uart\<close>: one of the features \<open>debug-boot\<close>, \<open>trace\<close>, \<open>self-test\<close> is on.\<close>

definition boot_addrs :: "linker_symbols \<Rightarrow> bool \<Rightarrow> usize list" where
  "boot_addrs ld uart =
     [text_start ld, text_end ld, rodata_start ld, rodata_end ld, data_start ld, pmp_data_end ld,
      if uart then UART_BASE else 0, if uart then UART_END else 0]"

definition boot_configs :: "bool \<Rightarrow> u8 list" where
  "boot_configs uart =
     [0, PMP_TOR OR PMP_R OR PMP_X OR PMP_L,
      0, PMP_TOR OR PMP_R OR PMP_L,
      0, PMP_TOR OR PMP_R OR PMP_W OR PMP_L,
      0, if uart then PMP_TOR OR PMP_R OR PMP_W OR PMP_L else 0]"

definition init_pmp :: "linker_symbols \<Rightarrow> bool \<Rightarrow> pmp_unit \<Rightarrow> pmp_unit" where
  "init_pmp ld uart h =
     (let h = fold (\<lambda>i. write_pmpaddr i (boot_addrs ld uart ! i)) [0..<8] h;
          packed = pack_pmpcfg (boot_configs uart);
          h = write_pmpcfg0 packed h;
          h = fold (\<lambda>i. write_pmpaddr i 0) [9..<16] h
      in h\<lparr>PMP_SHADOW := packed,
           PMP_SHADOW_ADDRS := fold (\<lambda>i ds. ds[i := drop_bit 2 (boot_addrs ld uart ! i)]) [0..<8]
             (PMP_SHADOW_ADDRS h)\<rparr>)"

definition task_stacks_range :: "linker_symbols \<Rightarrow> usize \<times> usize" where
  "task_stacks_range ld = (task_stacks_start ld, task_stacks_end ld)"

section \<open>The matching rule of the hardware\<close>

definition napot_match :: "u64 \<Rightarrow> u64 \<Rightarrow> bool" where
  "napot_match p a \<longleftrightarrow> (a XOR p) AND NOT (p XOR (p + 1)) = 0"

definition napot_encode :: "usize \<Rightarrow> nat \<Rightarrow> u64" where
  "napot_encode base n = drop_bit 2 base OR mask (n - 3)"

lemma drop_bit_eq_iff_range:
  fixes a base :: u64
  assumes "2 ^ n dvd unat base"
  shows "drop_bit n a = drop_bit n base \<longleftrightarrow> unat base \<le> unat a \<and> unat a < unat base + 2 ^ n"
proof -
  from assms obtain q where q: "unat base = 2 ^ n * q" by (rule dvdE)
  have tb: "take_bit 64 (unat w) = unat w" for w :: u64
    using unat_less [of w] by (simp add: take_bit_nat_eq_self)
  have "drop_bit n a = drop_bit n base \<longleftrightarrow> unat a div 2 ^ n = unat base div 2 ^ n"
    unfolding word_unat_eq_iff unsigned_drop_bit_eq unfolding drop_bit_eq_div by (simp add: tb)
  then have "drop_bit n a = drop_bit n base \<longleftrightarrow> unat a div 2 ^ n = q" by (simp add: q)
  also have "\<dots> \<longleftrightarrow> 2 ^ n * q \<le> unat a \<and> unat a < 2 ^ n * Suc q"
    by (auto intro: div_nat_eqI simp: mult.commute dividend_less_times_div)
  finally show ?thesis by (simp add: q add.commute)
qed

lemma napot_mask:
  fixes b :: u64
  assumes "\<And>i. i \<le> k \<Longrightarrow> \<not> bit b i" and "k < 63"
  shows "(b OR mask k) XOR ((b OR mask k) + 1) = mask (Suc k)"
proof -
  have "b AND mask k = 0" by (rule bit_word_eqI) (use assms in \<open>auto simp: bit_simps\<close>)
  then have "(b OR mask k) + 1 = b + (mask k + 1)" by (simp add: disjunctive_add_eq_or flip: add.assoc)
  also have "mask k + 1 = (push_bit k 1 :: u64)" by (simp add: mask_eq_exp_minus_1 push_bit_eq_mult)
  also have "b AND push_bit k 1 = 0" by (rule bit_word_eqI) (use assms in \<open>auto simp: bit_simps\<close>)
  then have "b + push_bit k 1 = b OR push_bit k 1" by (rule disjunctive_add_eq_or)
  finally have "(b OR mask k) + 1 = b OR push_bit k 1" .
  then show ?thesis
    by (intro bit_word_eqI) (use assms in \<open>auto simp: bit_simps less_Suc_eq\<close>)
qed

lemma and_not_mask_eq_0_iff:
  fixes x p :: u64
  shows "(x XOR p) AND NOT (mask m) = 0 \<longleftrightarrow> drop_bit m x = drop_bit m p"
proof
  assume A: "(x XOR p) AND NOT (mask m) = 0"
  have "bit x (m + i) = bit p (m + i)" for i
  proof (cases "m + i < 64")
    case True
    from A have "\<not> bit ((x XOR p) AND NOT (mask m)) (m + i)" by simp
    with True show ?thesis by (simp add: bit_simps)
  next
    case False
    then show ?thesis using bit_imp_le_length [of x "m + i"] bit_imp_le_length [of p "m + i"] by auto
  qed
  then show "drop_bit m x = drop_bit m p" by (intro bit_word_eqI) (simp add: bit_simps)
next
  assume A: "drop_bit m x = drop_bit m p"
  have "bit x i = bit p i" if "m \<le> i" for i
    using that arg_cong [OF A, of "\<lambda>w. bit w (i - m)"] by (simp add: bit_simps)
  then show "(x XOR p) AND NOT (mask m) = 0" by (intro bit_word_eqI) (auto simp: bit_simps)
qed

lemma napot_match_range:
  assumes n: "3 \<le> n" "n < 64" and al: "2 ^ n dvd unat base"
  shows "napot_match (napot_encode base n) (drop_bit 2 addr) \<longleftrightarrow>
     unat base \<le> unat addr \<and> unat addr < unat base + 2 ^ n"
proof -
  have low: "\<not> bit base i" if "i < n" for i
  proof -
    from al have "take_bit n (unat base) = 0" by (simp add: take_bit_eq_mod)
    then have "take_bit n base = 0" by (simp add: word_unat_eq_iff unsigned_take_bit_eq)
    then show ?thesis using that by (metis bit_take_bit_iff bit_0_eq bot_apply bot_bool_def)
  qed
  have mask: "napot_encode base n XOR (napot_encode base n + 1) = mask (n - 2)"
    unfolding napot_encode_def using napot_mask [of "n - 3" "drop_bit 2 base"] n low
    by (simp add: bit_simps Suc_diff_Suc numeral_3_eq_3 numeral_2_eq_2)
  have "napot_match (napot_encode base n) (drop_bit 2 addr) \<longleftrightarrow>
      drop_bit (n - 2) (drop_bit 2 addr) = drop_bit (n - 2) (napot_encode base n)"
    unfolding napot_match_def mask by (rule and_not_mask_eq_0_iff)
  also have "drop_bit (n - 2) (napot_encode base n) = drop_bit n base"
  proof (rule bit_word_eqI)
    fix i
    have "Suc (Suc (n + i - 2)) = n + i" using n by simp
    then show "bit (drop_bit (n - 2) (napot_encode base n)) i = bit (drop_bit n base) i"
      using n by (auto simp: napot_encode_def bit_simps)
  qed
  also have "drop_bit (n - 2) (drop_bit 2 addr) = drop_bit n addr"
    using n le_add_diff_inverse2 [of 2 n] by (simp only: drop_bit_drop_bit)
  finally show ?thesis by (simp add: drop_bit_eq_iff_range [OF al])
qed


section \<open>Reload against the plan of entries\<close>

text \<open>The entries a profile asks for, one pair of address and configuration byte each.\<close>

definition region_plan :: "Region \<Rightarrow> (usize \<times> u8) list" where
  "region_plan r = (case reg_encoding r of
     Napot addr _ \<Rightarrow> [(addr, perm_to_cfg (reg_perm r) OR PMP_NAPOT)]
   | Tor lo hi \<Rightarrow> [(drop_bit 2 lo, 0), (drop_bit 2 hi, perm_to_cfg (reg_perm r) OR PMP_TOR)])"

definition profile_plan :: "PmpProfile \<Rightarrow> (usize \<times> u8) list" where
  "profile_plan p = take 8 (concat (map region_plan (active_regions p)))"

fun put_entries :: "(usize \<times> u8) list \<Rightarrow> reload_state \<Rightarrow> reload_state" where
  "put_entries [] s = s"
| "put_entries (e # es) s =
     (if snd (snd (snd s)) < MAX_PMP_ENTRIES then put_entries es (put_entry (fst e) (snd e) s) else s)"

lemma put_entries_append: "put_entries (es @ fs) s = put_entries fs (put_entries es s)"
proof (induction es arbitrary: s)
  case (Cons e es)
  show ?case
  proof (cases "snd (snd (snd s)) < 16")
    case False
    then show ?thesis by (cases fs) auto
  qed (simp add: Cons)
qed simp

lemma put_entries_stop: "\<not> snd (snd (snd s)) < 16 \<Longrightarrow> put_entries es s = s"
  by (cases es) auto

lemma reload_loop_put_entries: "reload_loop rs s = put_entries (concat (map region_plan rs)) s"
proof (induction rs arbitrary: s)
  case (Cons r rs)
  show ?case
    by (auto simp: Cons put_entries_append region_plan_def put_entries_stop Let_def split: PmpEncoding.splits)
qed simp

definition byte_at :: "u64 \<Rightarrow> nat \<Rightarrow> u8" where
  "byte_at w i = ucast (drop_bit (8 * i) w)"

lemma byte_at_0 [simp]: "byte_at 0 i = 0"
  by (simp add: byte_at_def)

lemma byte_at_accumulate:
  assumes "8 \<le> e" "e < 16" "i < 8"
  shows "byte_at (accumulate_cfg2 c e b) i = (if i = e - 8 then byte_at c i OR b else byte_at c i)"
proof (rule bit_word_eqI)
  fix n assume "n < LENGTH(8)"
  then have n: "n < 8" by simp
  have "bit (ucast b :: u64) m \<longleftrightarrow> bit b m" for m
    using bit_imp_le_length [of b m] by (auto simp: bit_simps)
  moreover have "\<not> bit b m" if "8 \<le> m" for m using that bit_imp_le_length [of b m] by auto
  ultimately show "bit (byte_at (accumulate_cfg2 c e b) i) n
      = bit (if i = e - 8 then byte_at c i OR b else byte_at c i) n"
    using n assms by (auto simp: byte_at_def accumulate_cfg2_def bit_simps)
qed

text \<open>The run of a plan from dynamic slot \<open>k\<close> on.\<close>

definition put_from :: "nat \<Rightarrow> (usize \<times> u8) list \<Rightarrow> pmp_unit \<Rightarrow> usize list \<Rightarrow> u64 \<Rightarrow> reload_state" where
  "put_from k es h addrs cfg = put_entries es (h, addrs, cfg, 8 + k)"

lemma put_from_simps:
  "put_from k [] h addrs cfg = (h, addrs, cfg, 8 + k)"
  "k < 8 \<Longrightarrow> put_from k (e # es) h addrs cfg =
     put_from (Suc k) es (csrw_pmpaddr (8 + k) (fst e) h) (addrs[k := fst e])
       (accumulate_cfg2 cfg (8 + k) (snd e))"
  "put_from 8 es h addrs cfg = (h, addrs, cfg, 16)"
  by (simp_all add: put_from_def put_entry_def write_pmpaddr_dyn_def put_entries_stop)

lemma put_from_entry:
  "k \<le> 8 \<Longrightarrow> snd (snd (snd (put_from k es h addrs cfg))) = 8 + min 8 (k + length es)"
proof (induction es arbitrary: k h addrs cfg)
  case (Cons e es)
  then show ?case by (cases "k = 8") (auto simp: put_from_simps)
qed (simp add: put_from_simps)

definition in_plan :: "nat \<Rightarrow> (usize \<times> u8) list \<Rightarrow> nat \<Rightarrow> bool" where
  "in_plan k es i \<longleftrightarrow> k \<le> i \<and> i < k + length es"

lemma in_plan_simps:
  "\<not> in_plan k [] i"
  "in_plan k (e # es) i \<longleftrightarrow> i = k \<or> in_plan (Suc k) es i"
  by (auto simp: in_plan_def)

lemma nth_plan: "in_plan (Suc k) es i \<Longrightarrow> (e # es) ! (i - k) = es ! (i - Suc k)"
  by (simp add: in_plan_def nth_Cons' Suc_diff_Suc)

lemma not_in_plan_self: "\<not> in_plan (Suc k) es k"
  by (simp add: in_plan_def)

lemmas plan_simps = in_plan_simps nth_plan not_in_plan_self

lemma put_from_addrs:
  "k \<le> 8 \<Longrightarrow> length addrs = 8 \<Longrightarrow> i < 8 \<Longrightarrow>
   fst (snd (put_from k es h addrs cfg)) ! i =
     (if in_plan k es i then fst (es ! (i - k)) else addrs ! i)"
proof (induction es arbitrary: k h addrs cfg)
  case (Cons e es)
  then show ?case
    by (cases "k = 8")
      (auto simp: put_from_simps plan_simps nth_list_update in_plan_def)
qed (simp add: plan_simps put_from_simps)

lemma put_from_length:
  "k \<le> 8 \<Longrightarrow> length (fst (snd (put_from k es h addrs cfg))) = length addrs
     \<and> length (pmpaddr (fst (put_from k es h addrs cfg))) = length (pmpaddr h)"
proof (induction es arbitrary: k h addrs cfg)
  case (Cons e es)
  then show ?case by (cases "k = 8") (auto simp: put_from_simps csrw_pmpaddr_def)
qed (simp add: put_from_simps)

lemma put_from_cfg:
  "k \<le> 8 \<Longrightarrow> i < 8 \<Longrightarrow> byte_at (fst (snd (snd (put_from k es h addrs cfg)))) i =
     (if in_plan k es i then byte_at cfg i OR snd (es ! (i - k)) else byte_at cfg i)"
proof (induction es arbitrary: k h addrs cfg)
  case (Cons e es)
  then show ?case
    by (cases "k = 8")
      (auto simp: put_from_simps plan_simps byte_at_accumulate in_plan_def)
qed (simp add: plan_simps put_from_simps)

lemma put_from_hw:
  "k \<le> 8 \<Longrightarrow> length (pmpaddr h) = 16 \<Longrightarrow> j < 16 \<Longrightarrow>
   pmpaddr (fst (put_from k es h addrs cfg)) ! j =
     (if 8 \<le> j \<and> in_plan k es (j - 8) then warl_addr h j (fst (es ! (j - 8 - k))) else pmpaddr h ! j)"
proof (induction es arbitrary: k h addrs cfg)
  case (Cons e es)
  show ?case
  proof (cases "k = 8")
    case True
    then show ?thesis using Cons.prems by (auto simp: put_from_simps in_plan_def)
  next
    case False
    then have "k < 8" using Cons.prems by simp
    with Cons.prems show ?thesis
      by (auto simp: put_from_simps Cons.IH plan_simps csrw_pmpaddr_def nth_list_update) (auto simp: in_plan_def)
  qed
qed (simp add: plan_simps put_from_simps)

lemma put_from_frame:
  "k \<le> 8 \<Longrightarrow> fst (put_from k es h addrs cfg) = h\<lparr>pmpaddr := pmpaddr (fst (put_from k es h addrs cfg))\<rparr>"
proof (induction es arbitrary: k h addrs cfg)
  case (Cons e es)
  show ?case
  proof (cases "k = 8")
    case False
    with Cons.prems have k: "k < 8" "Suc k \<le> 8" by auto
    show ?thesis
      using Cons.IH [OF k(2), of "csrw_pmpaddr (8 + k) (fst e) h"] k(1)
      by (simp add: put_from_simps csrw_pmpaddr_def)
  qed (simp add: put_from_simps)
qed (simp add: put_from_simps)


section \<open>What a reload leaves in the registers\<close>

text \<open>
  What the privileged specification says of the PMP registers of RV64: an address register keeps
  the low 54 bits, and a configuration register keeps every byte without reserved bits or the
  reserved combination of write without read.
\<close>

definition cfg_byte_legal :: "u8 \<Rightarrow> bool" where
  "cfg_byte_legal b \<longleftrightarrow> b AND 0x60 = 0 \<and> (b AND 0x02 \<noteq> 0 \<longrightarrow> b AND 0x01 \<noteq> 0)"

definition warl_ok :: "pmp_unit \<Rightarrow> bool" where
  "warl_ok h \<longleftrightarrow> (\<forall>i v. v < 2 ^ 54 \<longrightarrow> warl_addr h i v = v)
     \<and> (\<forall>v. (\<forall>i<8. cfg_byte_legal (byte_at v i)) \<longrightarrow> warl_cfg h v = v)"

definition pmp_shape :: "pmp_unit \<Rightarrow> bool" where
  "pmp_shape h \<longleftrightarrow> length (pmpaddr h) = 16 \<and> length (PMP_SHADOW_ADDRS h) = 8
     \<and> length (PMP_SHADOW_DYN_ADDRS h) = 8"

definition plan_ok :: "(usize \<times> u8) list \<Rightarrow> bool" where
  "plan_ok es \<longleftrightarrow> list_all (\<lambda>(a, b). a < 2 ^ 54 \<and> cfg_byte_legal b) es"

lemma clear_rest_hw:
  assumes "8 \<le> e" "e \<le> 16" "length (pmpaddr h) = 16"
  shows "clear_rest e h = h\<lparr>pmpaddr := pmpaddr (clear_rest e h)\<rparr>
    \<and> length (pmpaddr (clear_rest e h)) = 16
    \<and> (\<forall>j<16. pmpaddr (clear_rest e h) ! j = (if e \<le> j then warl_addr h j 0 else pmpaddr h ! j))"
proof -
  have "fold (\<lambda>i. write_pmpaddr_dyn i 0) [e..<m] h =
      h\<lparr>pmpaddr := pmpaddr (fold (\<lambda>i. write_pmpaddr_dyn i 0) [e..<m] h)\<rparr>
    \<and> length (pmpaddr (fold (\<lambda>i. write_pmpaddr_dyn i 0) [e..<m] h)) = 16
    \<and> (\<forall>j<16. pmpaddr (fold (\<lambda>i. write_pmpaddr_dyn i 0) [e..<m] h) ! j =
        (if e \<le> j \<and> j < m then warl_addr h j 0 else pmpaddr h ! j))" if "e \<le> m" "m \<le> 16" for m
    using that
  proof (induction m)
    case (Suc m)
    show ?case
    proof (cases "e = Suc m")
      case False
      let ?f = "fold (\<lambda>i. write_pmpaddr_dyn i 0) [e..<m] h"
      from False Suc.prems have IH: "?f = h\<lparr>pmpaddr := pmpaddr ?f\<rparr>" "length (pmpaddr ?f) = 16"
        "\<forall>j<16. pmpaddr ?f ! j = (if e \<le> j \<and> j < m then warl_addr h j 0 else pmpaddr h ! j)"
        using Suc.IH by auto
      have w: "warl_addr ?f = warl_addr h" by (subst IH(1)) simp
      have step: "fold (\<lambda>i. write_pmpaddr_dyn i 0) [e..<Suc m] h = ?f\<lparr>pmpaddr := (pmpaddr ?f)[m := warl_addr h m 0]\<rparr>"
        using Suc.prems False assms(1) by (simp add: write_pmpaddr_dyn_def csrw_pmpaddr_def w)
      have "?f\<lparr>pmpaddr := xs\<rparr> = h\<lparr>pmpaddr := xs\<rparr>" for xs by (subst IH(1)) simp
      with IH(2,3) Suc.prems False show ?thesis unfolding step by (auto simp: nth_update_any)
    qed (use assms in auto)
  qed (use assms in auto)
  from this [of 16] assms show ?thesis by (auto simp: clear_rest_def)
qed

lemma fold_copy:
  "length ds = 8 \<Longrightarrow> length as = 8 \<Longrightarrow> fold (\<lambda>i ds. ds[i := f (as ! i)]) [0..<8] ds = map f as"
  by (rule nth_equalityI) (auto simp: upt_rec nth_list_update less_Suc_eq numeral_eq_Suc)

definition planned :: "(usize \<times> u8) list \<Rightarrow> nat \<Rightarrow> usize \<times> u8" where
  "planned es i = (if i < length es then es ! i else (0, 0))"

lemma reload_effect:
  assumes shape: "pmp_shape h" and warl: "warl_ok h" and ok: "plan_ok (profile_plan p)"
  defines "h' \<equiv> reload_pmp_profile p h"
  shows "\<And>i. i < 8 \<Longrightarrow> pmpaddr h' ! (8 + i) = fst (planned (profile_plan p) i)"
    and "\<And>i. i < 8 \<Longrightarrow> PMP_SHADOW_DYN_ADDRS h' ! i = fst (planned (profile_plan p) i)"
    and "\<And>i. i < 8 \<Longrightarrow> byte_at (pmpcfg2 h') i = snd (planned (profile_plan p) i)"
    and "pmpcfg2 h' = PMP_SHADOW_CFG2 h'"
    and "\<And>i. i < 8 \<Longrightarrow> pmpaddr h' ! i = pmpaddr h ! i"
    and "pmpcfg0 h' = pmpcfg0 h" and "PMP_SHADOW h' = PMP_SHADOW h"
    and "PMP_SHADOW_ADDRS h' = PMP_SHADOW_ADDRS h" and "pmp_shape h'" and "warl_ok h'"
proof -
  let ?es = "concat (map region_plan (active_regions p))"
  let ?g = "csrw_pmpcfg2 0 h"
  obtain g addrs cfg e where run: "put_from 0 ?es ?g (replicate 8 0) 0 = (g, addrs, cfg, e)"
    by (metis prod_cases4)
  have e: "e = 8 + min 8 (length ?es)" using put_from_entry [of 0 ?es ?g "replicate 8 0" 0] run by simp
  have len: "length addrs = 8" "length (pmpaddr g) = 16"
    using put_from_length [of 0 ?es ?g "replicate 8 0" 0] run shape
    by (simp_all add: pmp_shape_def csrw_pmpcfg2_def)
  have g: "g = ?g\<lparr>pmpaddr := pmpaddr g\<rparr>" using put_from_frame [of 0 ?es ?g "replicate 8 0" 0] run by simp
  have plan: "profile_plan p ! i = ?es ! i" "i < length (profile_plan p) \<longleftrightarrow> i < length ?es" if "i < 8" for i
    using that by (auto simp: profile_plan_def)
  have addrs: "addrs ! i = fst (planned (profile_plan p) i)" if "i < 8" for i
    using put_from_addrs [of 0 "replicate 8 0" i ?es ?g 0] run that plan [OF that]
    by (auto simp: in_plan_def planned_def)
  have cfg: "byte_at cfg i = snd (planned (profile_plan p) i)" if "i < 8" for i
    using put_from_cfg [of 0 i ?es ?g "replicate 8 0" 0] run that plan [OF that]
    by (auto simp: in_plan_def planned_def)
  have small: "fst (planned (profile_plan p) i) < 2 ^ 54" "cfg_byte_legal (snd (planned (profile_plan p) i))" for i
    using ok by (auto simp: plan_ok_def planned_def list_all_length split_beta cfg_byte_legal_def)
  have wg: "warl_addr ?g = warl_addr h" by (simp add: csrw_pmpcfg2_def)
  have hw: "pmpaddr g ! j = (if 8 \<le> j \<and> j - 8 < length ?es then fst (planned (profile_plan p) (j - 8)) else pmpaddr h ! j)"
    if "j < 16" for j
    using put_from_hw [of 0 ?g j ?es "replicate 8 0" 0] run that shape plan [of "j - 8"] warl small(1) [of "j - 8"]
    by (auto simp: in_plan_def planned_def pmp_shape_def warl_ok_def wg csrw_pmpcfg2_def)
  let ?c = "clear_rest e g"
  have c: "?c = g\<lparr>pmpaddr := pmpaddr ?c\<rparr>" "length (pmpaddr ?c) = 16"
    "\<And>j. j < 16 \<Longrightarrow> pmpaddr ?c ! j = (if e \<le> j then warl_addr g j 0 else pmpaddr g ! j)"
    using clear_rest_hw [of e g] e len by auto
  have wc: "warl_addr g j 0 = 0" for j
    using warl by (subst g) (simp add: warl_ok_def csrw_pmpcfg2_def)
  have cfgw: "warl_cfg h cfg = cfg" using warl cfg small(2) by (simp add: warl_ok_def)
  have h': "h' = update_dynamic_pmp_shadow addrs cfg (csrw_pmpcfg2 cfg ?c)"
    using run by (simp add: h'_def reload_pmp_profile_def put_from_def reload_loop_put_entries Let_def)
  have full: "h' = h\<lparr>pmpaddr := pmpaddr ?c, pmpcfg2 := cfg, PMP_SHADOW_CFG2 := cfg,
      PMP_SHADOW_ADDR8 := addrs ! 0, PMP_SHADOW_DYN_ADDRS := addrs\<rparr>"
  proof -
    obtain G where G: "g = ?g\<lparr>pmpaddr := G\<rparr>" using g by blast
    obtain C where C: "?c = g\<lparr>pmpaddr := C\<rparr>" "C = pmpaddr ?c" using c(1) by blast
    have "g\<lparr>pmpaddr := C\<rparr> = h\<lparr>pmpaddr := C, pmpcfg2 := warl_cfg h 0\<rparr>"
      by (subst G) (simp add: csrw_pmpcfg2_def)
    with C have cc: "?c = h\<lparr>pmpaddr := pmpaddr ?c, pmpcfg2 := warl_cfg h 0\<rparr>" by simp
    have "update_dynamic_pmp_shadow addrs cfg (csrw_pmpcfg2 cfg (h\<lparr>pmpaddr := A, pmpcfg2 := X\<rparr>)) =
      h\<lparr>pmpaddr := A, pmpcfg2 := cfg, PMP_SHADOW_CFG2 := cfg, PMP_SHADOW_ADDR8 := addrs ! 0,
        PMP_SHADOW_DYN_ADDRS := addrs\<rparr>" for A X
      using len shape fold_copy [of "PMP_SHADOW_DYN_ADDRS h" addrs "\<lambda>x. x"] cfgw
      by (simp add: update_dynamic_pmp_shadow_def csrw_pmpcfg2_def pmp_shape_def)
    then show ?thesis unfolding h' by (subst cc) simp
  qed
  show "pmpaddr h' ! (8 + i) = fst (planned (profile_plan p) i)" if "i < 8" for i
    using that e c(3) [of "8 + i"] hw [of "8 + i"] plan [OF that] unfolding full by (auto simp: wc planned_def)
  show "pmpaddr h' ! i = pmpaddr h ! i" if "i < 8" for i
    using that e c(3) [of i] hw [of i] unfolding full by auto
  show "PMP_SHADOW_DYN_ADDRS h' ! i = fst (planned (profile_plan p) i)"
    "byte_at (pmpcfg2 h') i = snd (planned (profile_plan p) i)" if "i < 8" for i
    using addrs cfg that unfolding full by simp_all
  show "pmpcfg2 h' = PMP_SHADOW_CFG2 h'" "pmpcfg0 h' = pmpcfg0 h" "PMP_SHADOW h' = PMP_SHADOW h"
    "PMP_SHADOW_ADDRS h' = PMP_SHADOW_ADDRS h" "pmp_shape h'" "warl_ok h'"
    using shape warl c(2) len unfolding full by (simp_all add: pmp_shape_def warl_ok_def)
qed

end
