(* ===== verification/Pmp_Isolation.thy ===== *)
theory Pmp_Isolation
  imports Pmp
begin

text \<open>
  What the PMP settings of the kernel mean for a task: the hardware's matching rule for accesses
  from user mode, the exact set of accesses a loaded profile grants, the boot configuration of the
  fixed entries, the integrity check over any sequence of task switches, and the profiles generated
  from the manifest.
\<close>

section \<open>Which accesses the registers allow\<close>

text \<open>
  The rule of the privileged specification for an access from user mode: the lowest-numbered
  entry that matches the address decides, by its read, write and execute bits; if none matches, the
  access is denied. A top-of-range entry starts at the previous address register.
\<close>

definition match_entry :: "u64 \<Rightarrow> u64 \<Rightarrow> u8 \<Rightarrow> u64 \<Rightarrow> bool" where
  "match_entry prev p c addr =
     (let a = drop_bit 2 addr; mode = c AND 0x18
      in if mode = 0x08 then prev \<le> a \<and> a < p
         else if mode = 0x10 then a = p
         else if mode = 0x18 then napot_match p a
         else False)"

fun pmp_scan :: "u64 \<Rightarrow> (u64 \<times> u8) list \<Rightarrow> u64 \<Rightarrow> u8 option" where
  "pmp_scan prev [] addr = None"
| "pmp_scan prev ((p, c) # es) addr = (if match_entry prev p c addr then Some c else pmp_scan p es addr)"

definition pmp_entries :: "pmp_unit \<Rightarrow> (u64 \<times> u8) list" where
  "pmp_entries h =
     map (\<lambda>i. (pmpaddr h ! i, if i < 8 then byte_at (pmpcfg0 h) i else byte_at (pmpcfg2 h) (i - 8))) [0..<16]"

fun cfg_permits :: "Access \<Rightarrow> u8 \<Rightarrow> bool" where
  "cfg_permits Read c = (c AND 0x01 \<noteq> 0)"
| "cfg_permits Write c = (c AND 0x02 \<noteq> 0)"
| "cfg_permits Execute c = (c AND 0x04 \<noteq> 0)"

definition user_allowed :: "pmp_unit \<Rightarrow> Access \<Rightarrow> u64 \<Rightarrow> bool" where
  "user_allowed h acc addr =
     (case pmp_scan 0 (pmp_entries h) addr of None \<Rightarrow> False | Some c \<Rightarrow> cfg_permits acc c)"

definition in_region :: "usize \<Rightarrow> Region \<Rightarrow> bool" where
  "in_region addr r \<longleftrightarrow> unat (reg_base r) \<le> unat addr \<and> unat addr < unat (reg_base r) + unat (reg_size r)"

definition region_ok :: "Region \<Rightarrow> bool" where
  "region_ok r \<longleftrightarrow> (perm_w (reg_perm r) \<longrightarrow> perm_r (reg_perm r))
     \<and> unat (reg_base r) + unat (reg_size r) \<le> 2 ^ 55
     \<and> (case reg_encoding r of
          Napot a l \<Rightarrow> 3 \<le> unat l \<and> unat l < 55 \<and> reg_size r = 2 ^ unat l
            \<and> 2 ^ unat l dvd unat (reg_base r) \<and> a = napot_encode (reg_base r) (unat l)
        | Tor lo hi \<Rightarrow> lo = reg_base r \<and> hi = reg_base r + reg_size r
            \<and> 4 dvd unat (reg_base r) \<and> 4 dvd unat (reg_size r))"

definition profile_ok :: "PmpProfile \<Rightarrow> bool" where
  "profile_ok p \<longleftrightarrow> list_all region_ok (active_regions p)
     \<and> length (concat (map region_plan (active_regions p))) \<le> 8"

lemma perm_to_cfg_cases:
  "(perm_to_cfg p OR PMP_NAPOT) AND 0x18 = 0x18" "(perm_to_cfg p OR PMP_TOR) AND 0x18 = 0x08"
  "cfg_permits acc (perm_to_cfg p OR PMP_NAPOT) = access_matches acc p"
  "cfg_permits acc (perm_to_cfg p OR PMP_TOR) = access_matches acc p"
  "(perm_w p \<longrightarrow> perm_r p) \<Longrightarrow> cfg_byte_legal (perm_to_cfg p OR PMP_NAPOT)"
  "(perm_w p \<longrightarrow> perm_r p) \<Longrightarrow> cfg_byte_legal (perm_to_cfg p OR PMP_TOR)"
  by (cases acc; cases "perm_r p"; cases "perm_w p"; cases "perm_x p";
      simp add: perm_to_cfg_def cfg_byte_legal_def)+

lemma unat_drop_bit2: "unat (drop_bit 2 w) = unat w div 4" for w :: u64
proof -
  have "take_bit 64 (unat w) = unat w" using unat_less [of w] by (simp add: take_bit_nat_eq_self)
  then show ?thesis unfolding unsigned_drop_bit_eq unfolding drop_bit_eq_div by simp
qed

lemma unat_pow2: "n < 64 \<Longrightarrow> unat (2 ^ n :: u64) = 2 ^ n"
  using unsigned_of_nat [where 'a = nat and 'b = 64, of "2 ^ n"] by (simp add: take_bit_nat_eq_self)

lemma scan_region:
  assumes "region_ok r"
  shows "pmp_scan prev (region_plan r @ es) addr =
     (if in_region addr r
      then Some (perm_to_cfg (reg_perm r) OR (case reg_encoding r of Napot _ _ \<Rightarrow> PMP_NAPOT | Tor _ _ \<Rightarrow> PMP_TOR))
      else pmp_scan (fst (last (region_plan r))) es addr)"
proof (cases "reg_encoding r")
  case (Napot a l)
  with assms have "3 \<le> unat l" "unat l < 64" "2 ^ unat l dvd unat (reg_base r)"
    "a = napot_encode (reg_base r) (unat l)" "unat (reg_size r) = 2 ^ unat l"
    by (auto simp: region_ok_def unat_pow2)
  then have "match_entry prev a (perm_to_cfg (reg_perm r) OR PMP_NAPOT) addr \<longleftrightarrow> in_region addr r"
    by (simp add: match_entry_def perm_to_cfg_cases napot_match_range in_region_def)
  with Napot show ?thesis by (simp add: region_plan_def)
next
  case (Tor lo hi)
  with assms have t: "lo = reg_base r" "hi = reg_base r + reg_size r" "4 dvd unat (reg_base r)"
    "4 dvd unat (reg_size r)" "unat (reg_base r) + unat (reg_size r) \<le> 2 ^ 55"
    by (auto simp: region_ok_def)
  from t have hi: "unat hi = unat (reg_base r) + unat (reg_size r)" by (simp add: unat_word_ariths)
  from t(3,4) obtain x y where xy: "unat (reg_base r) = 4 * x" "unat (reg_size r) = 4 * y" by (auto elim!: dvdE)
  have "(drop_bit 2 lo \<le> drop_bit 2 addr \<and> drop_bit 2 addr < drop_bit 2 hi) \<longleftrightarrow> in_region addr r"
    unfolding word_le_nat_alt word_less_nat_alt unat_drop_bit2 in_region_def hi t(1) xy by auto
  then have "match_entry (drop_bit 2 lo) (drop_bit 2 hi) (perm_to_cfg (reg_perm r) OR PMP_TOR) addr \<longleftrightarrow> in_region addr r"
    by (simp add: match_entry_def perm_to_cfg_cases)
  with Tor show ?thesis by (simp add: region_plan_def match_entry_def)
qed

lemma scan_append:
  "pmp_scan prev (es @ fs) addr =
     (case pmp_scan prev es addr of Some c \<Rightarrow> Some c
      | None \<Rightarrow> pmp_scan (if es = [] then prev else fst (last es)) fs addr)"
  by (induction prev es addr rule: pmp_scan.induct) (auto split: option.split if_splits)

lemma scan_off: "pmp_scan prev (replicate n (0, 0)) addr = None"
  by (induction n arbitrary: prev) (auto simp: match_entry_def)

lemma scan_regions:
  "list_all region_ok rs \<Longrightarrow>
   (case pmp_scan prev (concat (map region_plan rs) @ replicate n (0, 0)) addr of
      None \<Rightarrow> False | Some c \<Rightarrow> cfg_permits acc c) =
   (case find (in_region addr) rs of None \<Rightarrow> False | Some r \<Rightarrow> access_matches acc (reg_perm r))"
  by (induction rs arbitrary: prev)
    (auto simp: scan_off scan_region perm_to_cfg_cases split: PmpEncoding.splits)

lemma napot_encode_less:
  assumes "unat base + 2 ^ n \<le> 2 ^ 55" "n < 55"
  shows "napot_encode base n < 2 ^ 54"
proof -
  have "\<not> bit base i" if "55 \<le> i" for i
  proof -
    have "unat base < 2 ^ 55" using assms(1) by (rule order.strict_trans2 [rotated]) simp
    then have "take_bit 55 base = base"
      by (simp add: word_unat_eq_iff unsigned_take_bit_eq take_bit_nat_eq_self)
    then show ?thesis using that by (metis bit_take_bit_iff not_le)
  qed
  then have "take_bit 54 (napot_encode base n) = napot_encode base n"
  proof (intro bit_word_eqI)
    fix i
    assume low: "\<And>i. 55 \<le> i \<Longrightarrow> \<not> bit base i"
    from low [of "Suc (Suc i)"] assms(2)
    show "bit (take_bit 54 (napot_encode base n)) i = bit (napot_encode base n) i"
      by (cases "i < 54") (auto simp: napot_encode_def bit_simps)
  qed
  then have "unat (napot_encode base n) = take_bit 54 (unat (napot_encode base n))"
    by (metis unsigned_take_bit_eq)
  also have "\<dots> < 2 ^ 54" by (rule take_bit_nat_less_exp)
  finally show ?thesis by (simp add: word_less_nat_alt unat_pow2 del: of_nat_power)
qed

lemma region_plan_ok: "region_ok r \<Longrightarrow> plan_ok (region_plan r)"
proof (cases "reg_encoding r")
  case (Napot a l)
  assume "region_ok r"
  with Napot have "a = napot_encode (reg_base r) (unat l)" "unat l < 55"
    "unat (reg_base r) + 2 ^ unat l \<le> 2 ^ 55" "perm_w (reg_perm r) \<longrightarrow> perm_r (reg_perm r)"
    by (auto simp: region_ok_def unat_pow2)
  with Napot napot_encode_less [of "reg_base r" "unat l"] show ?thesis
    by (simp add: plan_ok_def region_plan_def perm_to_cfg_cases)
next
  case (Tor lo hi)
  assume r: "region_ok r"
  with Tor have t: "lo = reg_base r" "hi = reg_base r + reg_size r"
    "unat (reg_base r) + unat (reg_size r) \<le> 2 ^ 55" "perm_w (reg_perm r) \<longrightarrow> perm_r (reg_perm r)"
    by (auto simp: region_ok_def)
  then have "unat hi = unat (reg_base r) + unat (reg_size r)" by (simp add: unat_word_ariths)
  with t have "drop_bit 2 lo < 2 ^ 54" "drop_bit 2 hi < 2 ^ 54"
    unfolding word_less_nat_alt unat_drop_bit2 by simp_all
  moreover have "cfg_byte_legal 0" by (simp add: cfg_byte_legal_def)
  ultimately show ?thesis using Tor t(4)
    by (simp add: plan_ok_def region_plan_def perm_to_cfg_cases)
qed

lemma profile_plan_ok: "profile_ok p \<Longrightarrow> plan_ok (profile_plan p)"
proof -
  assume p: "profile_ok p"
  have "list_all region_ok rs \<Longrightarrow> plan_ok (concat (map region_plan rs))" for rs
    by (induction rs) (auto simp: plan_ok_def dest: region_plan_ok)
  then have "plan_ok (concat (map region_plan (active_regions p)))" using p by (simp add: profile_ok_def)
  moreover have "plan_ok es \<Longrightarrow> plan_ok (take 8 es)" for es
    unfolding plan_ok_def list_all_iff by (blast dest: in_set_takeD)
  ultimately show ?thesis by (simp add: profile_plan_def)
qed

lemma pmp_entries_reload:
  assumes "pmp_shape h" "warl_ok h" "profile_ok p"
  shows "pmp_entries (reload_pmp_profile p h) = take 8 (pmp_entries h) @ profile_plan p
    @ replicate (8 - length (profile_plan p)) (0, 0)"
proof (rule nth_equalityI)
  note eff = reload_effect [OF assms(1,2) profile_plan_ok [OF assms(3)]]
  have len: "length (profile_plan p) \<le> 8" by (simp add: profile_plan_def)
  then show "length (pmp_entries (reload_pmp_profile p h)) = length (take 8 (pmp_entries h) @ profile_plan p
    @ replicate (8 - length (profile_plan p)) (0, 0))" by (simp add: pmp_entries_def)
  fix i assume "i < length (pmp_entries (reload_pmp_profile p h))"
  then have i: "i < 16" by (simp add: pmp_entries_def)
  show "pmp_entries (reload_pmp_profile p h) ! i = (take 8 (pmp_entries h) @ profile_plan p
    @ replicate (8 - length (profile_plan p)) (0, 0)) ! i"
  proof (cases "i < 8")
    case True
    then show ?thesis by (simp add: pmp_entries_def nth_append eff(5,6))
  next
    case False
    then obtain k where k: "i = 8 + k" "k < 8" using i by (metis le_Suc_ex not_less add_less_cancel_left numeral_Bit0)
    have "pmp_entries (reload_pmp_profile p h) ! i = planned (profile_plan p) k"
      using i k eff(1,3) by (simp add: pmp_entries_def)
    also have "\<dots> = (profile_plan p @ replicate (8 - length (profile_plan p)) (0, 0)) ! k"
      using k(2) len by (auto simp: planned_def nth_append)
    finally show ?thesis using k by (simp add: nth_append pmp_entries_def)
  qed
qed

text \<open>
  Exactness of the per-task memory protection: once the kernel has loaded a task's profile,
  an access from user mode is decided by the kernel's fixed entries 0 to 7 if one of them covers the
  address, and otherwise it is allowed exactly if the first region of the profile that contains the
  address grants it. Nothing of the previous task's profile survives.
\<close>
lemma reload_profile_exact:
  assumes "pmp_shape h" "warl_ok h" "profile_ok p"
  shows "user_allowed (reload_pmp_profile p h) acc addr =
     (case pmp_scan 0 (take 8 (pmp_entries h)) addr of
        Some c \<Rightarrow> cfg_permits acc c
      | None \<Rightarrow> (case find (in_region addr) (active_regions p) of
            None \<Rightarrow> False | Some r \<Rightarrow> access_matches acc (reg_perm r)))"
proof -
  have "profile_plan p = concat (map region_plan (active_regions p))" "list_all region_ok (active_regions p)"
    using assms(3) by (auto simp: profile_ok_def profile_plan_def)
  then show ?thesis
    unfolding user_allowed_def pmp_entries_reload [OF assms] scan_append [of 0 "take 8 (pmp_entries h)"]
    by (cases "pmp_scan 0 (take 8 (pmp_entries h)) addr") (simp_all add: scan_regions)
qed

section \<open>Boot configuration and integrity\<close>

text \<open>
  What the linker script guarantees: the sections follow each other, they end below the native
  task region (an \<open>ASSERT\<close> of the script), and the end of the data region is word aligned.
\<close>

definition linker_ok :: "linker_symbols \<Rightarrow> bool" where
  "linker_ok ld \<longleftrightarrow> KERNEL_BASE \<le> text_start ld \<and> text_start ld \<le> text_end ld \<and> text_end ld \<le> rodata_start ld
     \<and> rodata_start ld \<le> rodata_end ld \<and> rodata_end ld \<le> data_start ld \<and> data_start ld \<le> pmp_data_end ld
     \<and> pmp_data_end ld \<le> NATIVE_TASK_BASE \<and> 4 dvd unat (pmp_data_end ld)"

lemma byte_at_pack:
  assumes "i < 8"
  shows "byte_at (pack_pmpcfg cs) i = cs ! i"
proof -
  have "fold (\<lambda>i result. result OR push_bit (i * 8) (ucast (cs ! i))) [0..<m] 0
      = fold (\<lambda>i c. accumulate_cfg2 c (8 + i) (cs ! i)) [0..<m] 0" for m
    by (induction m) (simp_all add: accumulate_cfg2_def)
  moreover have "byte_at (fold (\<lambda>i c. accumulate_cfg2 c (8 + i) (cs ! i)) [0..<m] 0) i = (if i < m then cs ! i else 0)"
    if "m \<le> 8" for m
    using that assms by (induction m) (auto simp: byte_at_accumulate)
  ultimately show ?thesis using assms by (simp add: pack_pmpcfg_def)
qed

lemma write_pmpaddr_fold:
  assumes "length (pmpaddr h) = 16" "b \<le> 16"
  shows "fold (\<lambda>i. write_pmpaddr i (f i)) [a..<b] h = h\<lparr>pmpaddr := pmpaddr (fold (\<lambda>i. write_pmpaddr i (f i)) [a..<b] h)\<rparr>
    \<and> length (pmpaddr (fold (\<lambda>i. write_pmpaddr i (f i)) [a..<b] h)) = 16
    \<and> (\<forall>j<16. pmpaddr (fold (\<lambda>i. write_pmpaddr i (f i)) [a..<b] h) ! j =
        (if a \<le> j \<and> j < b then warl_addr h j (drop_bit 2 (f j)) else pmpaddr h ! j))"
  using assms(2)
proof (induction b)
  case (Suc b)
  show ?case
  proof (cases "a \<le> b")
    case True
    let ?f = "fold (\<lambda>i. write_pmpaddr i (f i)) [a..<b] h"
    from Suc.prems have IH: "?f = h\<lparr>pmpaddr := pmpaddr ?f\<rparr>" "length (pmpaddr ?f) = 16"
      "\<forall>j<16. pmpaddr ?f ! j = (if a \<le> j \<and> j < b then warl_addr h j (drop_bit 2 (f j)) else pmpaddr h ! j)"
      using Suc.IH by auto
    have w: "warl_addr ?f = warl_addr h" by (subst IH(1)) simp
    have step: "fold (\<lambda>i. write_pmpaddr i (f i)) [a..<Suc b] h
        = ?f\<lparr>pmpaddr := (pmpaddr ?f)[b := warl_addr h b (drop_bit 2 (f b))]\<rparr>"
      using Suc.prems True by (simp add: write_pmpaddr_def csrw_pmpaddr_def w)
    have "?f\<lparr>pmpaddr := xs\<rparr> = h\<lparr>pmpaddr := xs\<rparr>" for xs by (subst IH(1)) simp
    with IH(2,3) Suc.prems True show ?thesis unfolding step by (auto simp: nth_update_any)
  qed (use assms in auto)
qed (use assms in auto)

lemma length_boot_addrs [simp]: "length (boot_addrs ld uart) = 8"
  by (simp add: boot_addrs_def)

lemma boot_addrs_below:
  assumes "linker_ok ld" "a \<in> set (boot_addrs ld uart)"
  shows "a \<le> NATIVE_TASK_BASE"
  using assms by (auto simp: linker_ok_def boot_addrs_def split: if_splits intro: order_trans)

lemma boot_addrs_small:
  assumes "linker_ok ld" "i < 8"
  shows "boot_addrs ld uart ! i \<le> NATIVE_TASK_BASE"
  using assms by (auto intro!: boot_addrs_below [of ld _ uart])

lemma init_pmp_effect:
  fixes uart :: bool
  assumes shape: "pmp_shape h" and warl: "warl_ok h" and ld: "linker_ok ld"
  defines "h' \<equiv> init_pmp ld uart h"
  shows "\<And>i. i < 8 \<Longrightarrow> pmpaddr h' ! i = drop_bit 2 (boot_addrs ld uart ! i)"
    and "\<And>i. i < 8 \<Longrightarrow> PMP_SHADOW_ADDRS h' ! i = drop_bit 2 (boot_addrs ld uart ! i)"
    and "\<And>i. i < 8 \<Longrightarrow> byte_at (pmpcfg0 h') i = boot_configs uart ! i"
    and "pmpcfg0 h' = PMP_SHADOW h'" and "pmp_shape h'" and "warl_ok h'"
proof -
  let ?a = "fold (\<lambda>i. write_pmpaddr i (boot_addrs ld uart ! i)) [0..<8] h"
  let ?p = "pack_pmpcfg (boot_configs uart)"
  let ?b = "write_pmpcfg0 ?p ?a"
  let ?c = "fold (\<lambda>i. write_pmpaddr i 0) [9..<16] ?b"
  have small: "drop_bit 2 (boot_addrs ld uart ! i) < 2 ^ 54" if "i < 8" for i
    using boot_addrs_small [OF ld that, of uart]
    unfolding word_le_nat_alt word_less_nat_alt unat_drop_bit2 by simp
  have a: "?a = h\<lparr>pmpaddr := pmpaddr ?a\<rparr>" "length (pmpaddr ?a) = 16"
    "\<And>j. j < 8 \<Longrightarrow> pmpaddr ?a ! j = drop_bit 2 (boot_addrs ld uart ! j)"
    using write_pmpaddr_fold [of h 8 "\<lambda>i. boot_addrs ld uart ! i" 0] shape warl small
    by (auto simp: pmp_shape_def warl_ok_def)
  have legal: "list_all cfg_byte_legal (boot_configs uart)"
    by (simp add: boot_configs_def cfg_byte_legal_def)
  then have "\<forall>i<8. cfg_byte_legal (byte_at ?p i)" by (simp add: byte_at_pack boot_configs_def list_all_length)
  then have p: "warl_cfg ?a ?p = ?p" using warl by (subst a(1)) (simp add: warl_ok_def)
  obtain A where A: "?a = h\<lparr>pmpaddr := A\<rparr>" using a(1) by blast
  have b: "?b = h\<lparr>pmpaddr := A, pmpcfg0 := ?p\<rparr>" using p unfolding A by (simp add: write_pmpcfg0_def)
  have lA: "length A = 16" using a(2) unfolding A by simp
  have Ab: "pmpaddr ?b = A" "length (pmpaddr ?b) = 16" unfolding b using lA by simp_all
  note rest = write_pmpaddr_fold [OF Ab(2) order_refl, of "\<lambda>_. 0" 9]
  have c: "?c = ?b\<lparr>pmpaddr := pmpaddr ?c\<rparr>" by (rule conjunct1 [OF rest])
  have c2: "length (pmpaddr ?c) = 16" by (rule conjunct1 [OF conjunct2 [OF rest]])
  have c3: "pmpaddr ?c ! j = A ! j" if "j < 8" for j
    using conjunct2 [OF conjunct2 [OF rest], rule_format, of j] that Ab(1) by simp
  from c obtain C where "?c = ?b\<lparr>pmpaddr := C\<rparr>" by blast
  then have C: "?c = h\<lparr>pmpaddr := C, pmpcfg0 := ?p\<rparr>" unfolding b by simp
  have shadow: "fold (\<lambda>i ds. ds[i := drop_bit 2 (boot_addrs ld uart ! i)]) [0..<8] (PMP_SHADOW_ADDRS h)
      = map (drop_bit 2) (boot_addrs ld uart)"
    using fold_copy [of "PMP_SHADOW_ADDRS h" "boot_addrs ld uart" "drop_bit 2"] shape
    by (simp add: pmp_shape_def)
  have full: "h' = h\<lparr>pmpaddr := C, pmpcfg0 := ?p, PMP_SHADOW := ?p,
      PMP_SHADOW_ADDRS := map (drop_bit 2) (boot_addrs ld uart)\<rparr>"
    unfolding h'_def init_pmp_def Let_def C using shadow by simp
  have eqs: "pmpaddr ?c = C" "pmpaddr ?a = A" by (subst C, simp, subst A, simp)
  with a c3 show "pmpaddr h' ! i = drop_bit 2 (boot_addrs ld uart ! i)" if "i < 8" for i
    unfolding full using that by simp
  show "PMP_SHADOW_ADDRS h' ! i = drop_bit 2 (boot_addrs ld uart ! i)"
    "byte_at (pmpcfg0 h') i = boot_configs uart ! i" if "i < 8" for i
    unfolding full using that by (simp_all add: byte_at_pack)
  show "pmpcfg0 h' = PMP_SHADOW h'" "pmp_shape h'" "warl_ok h'"
    unfolding full using shape warl c2 eqs(1)
    by (simp_all add: pmp_shape_def warl_ok_def)
qed


lemma verify_pmp_integrity_iff:
  "verify_pmp_integrity h \<longleftrightarrow> pmpcfg0 h = PMP_SHADOW h \<and> pmpcfg2 h = PMP_SHADOW_CFG2 h
     \<and> (\<forall>i<8. pmpaddr h ! i = PMP_SHADOW_ADDRS h ! i) \<and> (\<forall>i<8. pmpaddr h ! (8 + i) = PMP_SHADOW_DYN_ADDRS h ! i)"
  by (auto simp: verify_pmp_integrity_def list_all_iff read_pmpaddr_def)

text \<open>The kernel's own entries agree with their shadow.\<close>

definition kernel_shadow_ok :: "pmp_unit \<Rightarrow> bool" where
  "kernel_shadow_ok h \<longleftrightarrow> pmpcfg0 h = PMP_SHADOW h \<and> (\<forall>i<8. pmpaddr h ! i = PMP_SHADOW_ADDRS h ! i)"

lemma verify_kernel_shadow: "verify_pmp_integrity h \<Longrightarrow> kernel_shadow_ok h"
  by (simp add: verify_pmp_integrity_iff kernel_shadow_ok_def)

text \<open>The legacy switch: one NAPOT entry for the task's stack, with its shadow.\<close>

definition legacy_switch :: "usize \<Rightarrow> pmp_unit \<Rightarrow> pmp_unit" where
  "legacy_switch napot_addr h =
     update_task_pmp_shadow napot_addr PMP_NAPOT_RW (write_per_task_napot napot_addr PMP_NAPOT_RW h)"

lemma napot_rw_legal: "\<forall>i<8. cfg_byte_legal (byte_at PMP_NAPOT_RW i)"
proof -
  have "list_all (\<lambda>i. cfg_byte_legal (byte_at PMP_NAPOT_RW i)) [0..<8]"
    by (simp add: byte_at_def cfg_byte_legal_def upt_rec)
  then show ?thesis by (simp add: list_all_iff)
qed

lemma tail_update:
  "length xs = 16 \<Longrightarrow>
   xs[8 := a, 9 := 0, 10 := 0, 11 := 0, 12 := 0, 13 := 0, 14 := 0, 15 := 0] = take 8 xs @ a # replicate 7 0"
  by (rule nth_equalityI) (auto simp: nth_append nth_list_update nth_Cons')

lemma dyn_update:
  "length ds = 8 \<Longrightarrow> fold (\<lambda>i ds. ds[i := 0]) [1..<8] (ds[0 := a]) = a # replicate 7 0"
  by (rule nth_equalityI) (auto simp: upt_rec nth_list_update nth_Cons')

lemma legacy_switch_eq:
  assumes shape: "pmp_shape h" and warl: "warl_ok h" and a: "a < 2 ^ 54"
  shows "legacy_switch a h = h\<lparr>pmpaddr := take 8 (pmpaddr h) @ a # replicate 7 0, pmpcfg2 := PMP_NAPOT_RW,
     PMP_SHADOW_ADDR8 := a, PMP_SHADOW_CFG2 := PMP_NAPOT_RW, PMP_SHADOW_DYN_ADDRS := a # replicate 7 0\<rparr>"
proof -
  have w: "warl_addr h i a = a" "warl_addr h i 0 = 0" "warl_cfg h PMP_NAPOT_RW = PMP_NAPOT_RW" for i
    using warl a napot_rw_legal by (simp_all add: warl_ok_def)
  show ?thesis
    using shape tail_update [of "pmpaddr h" a] dyn_update [of "PMP_SHADOW_DYN_ADDRS h" a]
    by (simp add: legacy_switch_def write_per_task_napot_def csrw_pmpaddr_def csrw_pmpcfg2_def
        update_task_pmp_shadow_def pmp_shape_def w Let_def)
qed

section \<open>Sequences of switches\<close>

datatype pmp_switch = To_profile PmpProfile | To_stack usize

fun switch_ok :: "pmp_switch \<Rightarrow> bool" where
  "switch_ok (To_profile p) = profile_ok p"
| "switch_ok (To_stack a) = (a < 2 ^ 54)"

fun do_switch :: "pmp_switch \<Rightarrow> pmp_unit \<Rightarrow> pmp_unit" where
  "do_switch (To_profile p) h = reload_pmp_profile p h"
| "do_switch (To_stack a) h = legacy_switch a h"

definition pmp_inv :: "pmp_unit \<Rightarrow> bool" where
  "pmp_inv h \<longleftrightarrow> pmp_shape h \<and> warl_ok h \<and> kernel_shadow_ok h"

lemma legacy_nth: "length xs = 16 \<Longrightarrow> i < 8 \<Longrightarrow> (take 8 xs @ a # replicate 7 0) ! (8 + i) = (a # replicate 7 0) ! i"
  by (simp add: nth_append)

lemma do_switch_verifies:
  assumes "pmp_inv h" "switch_ok sw"
  shows "pmp_inv (do_switch sw h) \<and> verify_pmp_integrity (do_switch sw h)
    \<and> take 8 (pmpaddr (do_switch sw h)) = take 8 (pmpaddr h) \<and> pmpcfg0 (do_switch sw h) = pmpcfg0 h"
proof (cases sw)
  case (To_profile p)
  then have p: "pmp_shape h" "warl_ok h" "plan_ok (profile_plan p)"
    using assms by (auto simp: pmp_inv_def profile_plan_ok)
  note eff = reload_effect [OF p]
  have "take 8 (pmpaddr (reload_pmp_profile p h)) = take 8 (pmpaddr h)"
    using eff(5,9) p(1) by (intro nth_equalityI) (auto simp: pmp_shape_def)
  then show ?thesis
    using assms(1) To_profile eff by (simp add: pmp_inv_def kernel_shadow_ok_def verify_pmp_integrity_iff)
next
  case (To_stack a)
  then have a: "pmp_shape h" "warl_ok h" "a < 2 ^ 54" using assms by (auto simp: pmp_inv_def)
  then show ?thesis
    using assms(1) To_stack legacy_nth [of "pmpaddr h"]
    by (simp add: legacy_switch_eq pmp_inv_def kernel_shadow_ok_def verify_pmp_integrity_iff pmp_shape_def
        warl_ok_def nth_append)
qed

lemma init_pmp_inv: "pmp_shape h \<Longrightarrow> warl_ok h \<Longrightarrow> linker_ok ld \<Longrightarrow> pmp_inv (init_pmp ld uart h)"
  using init_pmp_effect [of h ld] by (simp add: pmp_inv_def kernel_shadow_ok_def)

lemma switches_inv:
  "pmp_inv h \<Longrightarrow> list_all switch_ok sws \<Longrightarrow>
   pmp_inv (fold do_switch sws h) \<and> (sws \<noteq> [] \<longrightarrow> verify_pmp_integrity (fold do_switch sws h))
   \<and> take 8 (pmpaddr (fold do_switch sws h)) = take 8 (pmpaddr h) \<and> pmpcfg0 (fold do_switch sws h) = pmpcfg0 h"
  by (induction sws rule: rev_induct) (auto dest: do_switch_verifies)

text \<open>The fixed entries depend only on the first address registers and \<open>pmpcfg0\<close>.\<close>

lemma kernel_entries_cong:
  assumes "take 8 (pmpaddr g) = take 8 (pmpaddr h)" "pmpcfg0 g = pmpcfg0 h"
    "length (pmpaddr g) = 16" "length (pmpaddr h) = 16"
  shows "take 8 (pmp_entries g) = take 8 (pmp_entries h)"
proof (rule nth_equalityI)
  fix i assume "i < length (take 8 (pmp_entries g))"
  then have i: "i < 8" by simp
  then have "pmpaddr g ! i = pmpaddr h ! i" using assms(1,3,4) by (metis nth_take)
  with i assms(2) show "take 8 (pmp_entries g) ! i = take 8 (pmp_entries h) ! i" by (simp add: pmp_entries_def)
qed (simp add: pmp_entries_def)

lemma boot_kernel_entries:
  assumes "pmp_shape h" "warl_ok h" "linker_ok ld"
  shows "take 8 (pmp_entries (init_pmp ld uart h)) = zip (map (drop_bit 2) (boot_addrs ld uart)) (boot_configs uart)"
  using init_pmp_effect [OF assms]
  by (intro nth_equalityI) (auto simp: pmp_entries_def boot_configs_def)

lemma drop_bit2_mono: "a \<le> b \<Longrightarrow> drop_bit 2 a \<le> drop_bit 2 b" for a b :: u64
  unfolding word_le_nat_alt unat_drop_bit2 by (rule div_le_mono)

lemma kernel_scan_native:
  assumes ld: "linker_ok ld" and addr: "NATIVE_TASK_BASE \<le> addr"
  shows "pmp_scan 0 (zip (map (drop_bit 2) (boot_addrs ld uart)) (boot_configs uart)) addr = None"
proof -
  have no: "\<not> drop_bit 2 addr < drop_bit 2 a" if "a \<in> set (boot_addrs ld uart)" for a
    using drop_bit2_mono [OF order_trans [OF boot_addrs_below [OF ld that] addr]] by (simp add: not_less)
  have "\<not> drop_bit 2 addr < drop_bit 2 (text_end ld)" "\<not> drop_bit 2 addr < drop_bit 2 (rodata_end ld)"
    "\<not> drop_bit 2 addr < drop_bit 2 (pmp_data_end ld)" "uart \<Longrightarrow> \<not> drop_bit 2 addr < drop_bit 2 UART_END"
    by (rule no, simp add: boot_addrs_def)+
  then show ?thesis by (cases uart) (simp_all add: boot_addrs_def boot_configs_def match_entry_def)
qed

text \<open>
  Integrity check without false alarms: after boot has configured the fixed entries, however
  the scheduler switches between native profiles and legacy stacks, the registers agree with the
  shadow at every tick, so the check passes unless something other than the kernel changed a
  register.
\<close>
lemma integrity_no_false_alarm:
  assumes "pmp_shape h" "warl_ok h" "linker_ok ld" and "list_all switch_ok sws" "sws \<noteq> []"
  shows "verify_pmp_integrity (fold do_switch sws (init_pmp ld uart h))"
  using switches_inv [OF init_pmp_inv [OF assms(1-3)] assms(4), of uart] assms(5) by simp

text \<open>
  C28. The integrity check detects tampering: whenever it passes, a change of any one of the
  sixteen address registers or of either configuration register makes it fail.
\<close>
theorem integrity_detects_tampering:
  assumes "verify_pmp_integrity h" "pmp_shape h"
  shows "(i < 16 \<and> v \<noteq> pmpaddr h ! i \<longrightarrow> \<not> verify_pmp_integrity (h\<lparr>pmpaddr := (pmpaddr h)[i := v]\<rparr>))
     \<and> (v \<noteq> pmpcfg0 h \<longrightarrow> \<not> verify_pmp_integrity (h\<lparr>pmpcfg0 := v\<rparr>))
     \<and> (v \<noteq> pmpcfg2 h \<longrightarrow> \<not> verify_pmp_integrity (h\<lparr>pmpcfg2 := v\<rparr>))"
proof -
  have "\<not> verify_pmp_integrity (h\<lparr>pmpaddr := (pmpaddr h)[i := v]\<rparr>)" if i: "i < 16" "v \<noteq> pmpaddr h ! i"
  proof (cases "i < 8")
    case True
    then show ?thesis using assms i by (auto simp: verify_pmp_integrity_iff pmp_shape_def intro!: exI [of _ i])
  next
    case False
    then obtain k where "i = 8 + k" by (metis le_Suc_ex not_less)
    then show ?thesis using assms i
      by (auto simp: verify_pmp_integrity_iff pmp_shape_def intro!: exI [of _ k])
  qed
  then show ?thesis using assms by (auto simp: verify_pmp_integrity_iff)
qed

text \<open>What user mode may access after boot and a sequence of switches that ends in a profile.\<close>

text \<open>
  Spatial isolation of native tasks: after boot and any sequence of switches ending in the
  profile of a task, every address from the native task base on is accessible from user mode exactly
  as the first region of that profile containing it says; in particular the memory of every other
  task is inaccessible unless the profile names it.
\<close>
lemma user_allowed_after_switch:
  assumes "pmp_shape h" "warl_ok h" "linker_ok ld" and "list_all switch_ok sws" "profile_ok p"
    and "NATIVE_TASK_BASE \<le> addr"
  shows "user_allowed (fold do_switch (sws @ [To_profile p]) (init_pmp ld uart h)) acc addr =
     (case find (in_region addr) (active_regions p) of
        None \<Rightarrow> False | Some r \<Rightarrow> access_matches acc (reg_perm r))"
proof -
  let ?b = "init_pmp ld uart h" and ?g = "fold do_switch sws (init_pmp ld uart h)"
  note inv = switches_inv [OF init_pmp_inv [OF assms(1-3)] assms(4), of uart]
  have g: "pmp_shape ?g" "warl_ok ?g" using inv by (auto simp: pmp_inv_def)
  have "take 8 (pmp_entries ?g) = take 8 (pmp_entries ?b)"
    using inv g(1) init_pmp_effect(5) [OF assms(1-3)] by (intro kernel_entries_cong) (auto simp: pmp_shape_def)
  then have "pmp_scan 0 (take 8 (pmp_entries ?g)) addr = None"
    using boot_kernel_entries [OF assms(1-3)] kernel_scan_native [OF assms(3,6)] by simp
  then show ?thesis using reload_profile_exact [OF g assms(5)] by simp
qed

text \<open>
  The kernel's data is writable from user mode: the fixed entry 5 grants read and write
  without regard to the privilege mode (the lock bit adds machine mode, it does not exclude user
  mode), so after boot and any switches every address of the kernel's data, bss and stack can be
  read and written by every task.
\<close>
theorem kernel_data_user_writable:
  assumes "pmp_shape h" "warl_ok h" "linker_ok ld" and "list_all switch_ok sws"
    and "data_start ld \<le> addr" "addr < pmp_data_end ld" and "acc = Read \<or> acc = Write"
  shows "user_allowed (fold do_switch sws (init_pmp ld uart h)) acc addr"
proof -
  let ?b = "init_pmp ld uart h" and ?g = "fold do_switch sws (init_pmp ld uart h)"
  note inv = switches_inv [OF init_pmp_inv [OF assms(1-3)] assms(4), of uart]
  have "take 8 (pmp_entries ?g) = take 8 (pmp_entries ?b)"
    using inv init_pmp_effect(5) [OF assms(1-3)]
    by (intro kernel_entries_cong) (auto simp: pmp_inv_def pmp_shape_def)
  also have "\<dots> = zip (map (drop_bit 2) (boot_addrs ld uart)) (boot_configs uart)"
    by (rule boot_kernel_entries [OF assms(1-3)])
  finally have fixed: "take 8 (pmp_entries ?g) = zip (map (drop_bit 2) (boot_addrs ld uart)) (boot_configs uart)" .
  have le: "drop_bit 2 (text_end ld) \<le> drop_bit 2 addr" "drop_bit 2 (rodata_end ld) \<le> drop_bit 2 addr"
    "drop_bit 2 (data_start ld) \<le> drop_bit 2 addr"
    using assms(3,5) by (auto simp: linker_ok_def intro!: drop_bit2_mono)
  have "drop_bit 2 addr < drop_bit 2 (pmp_data_end ld)"
    using assms(3,6) unfolding word_less_nat_alt unat_drop_bit2 linker_ok_def by (auto elim!: dvdE)
  with le have "pmp_scan 0 (take 8 (pmp_entries ?g)) addr = Some (PMP_TOR OR PMP_R OR PMP_W OR PMP_L)"
    unfolding fixed by (auto simp: boot_addrs_def boot_configs_def match_entry_def not_less [symmetric])
  then have "pmp_scan 0 (take 8 (pmp_entries ?g) @ drop 8 (pmp_entries ?g)) addr = Some (PMP_TOR OR PMP_R OR PMP_W OR PMP_L)"
    unfolding scan_append by simp
  then show ?thesis using assms(7) by (auto simp: user_allowed_def)
qed

section \<open>The generated profiles\<close>

definition profiles_disjoint :: "PmpProfile \<Rightarrow> PmpProfile \<Rightarrow> bool" where
  "profiles_disjoint p q \<longleftrightarrow>
     list_all (\<lambda>r. list_all (\<lambda>s. \<not> regions_overlap (reg_base r) (reg_size r) (reg_base s) (reg_size s))
       (active_regions q)) (active_regions p)"

definition write_xor_execute :: "PmpProfile \<Rightarrow> bool" where
  "write_xor_execute p \<longleftrightarrow> list_all (\<lambda>r. \<not> (perm_w (reg_perm r) \<and> perm_x (reg_perm r))) (active_regions p)"

lemma active_generated:
  "active_regions PROFILE_EMPTY = []"
  "active_regions TASK_HELLO_PROFILE = take 4 (regions TASK_HELLO_PROFILE)"
  "active_regions TASK_WORLD_PROFILE = take 4 (regions TASK_WORLD_PROFILE)"
  by (simp_all add: active_regions_def PROFILE_EMPTY_def TASK_HELLO_PROFILE_def TASK_WORLD_PROFILE_def)

lemmas generated_defs = TASK_HELLO_PROFILE_def TASK_WORLD_PROFILE_def PERM_RX_def PERM_R_def PERM_RW_def

lemma profile_ok_hello: "profile_ok TASK_HELLO_PROFILE"
  by (simp add: profile_ok_def active_generated) (simp add: generated_defs region_ok_def region_plan_def napot_encode_def mask_eq_exp_minus_1)

lemma profile_ok_world: "profile_ok TASK_WORLD_PROFILE"
  by (simp add: profile_ok_def active_generated) (simp add: generated_defs region_ok_def region_plan_def napot_encode_def mask_eq_exp_minus_1)

lemma profile_ok_empty: "profile_ok PROFILE_EMPTY"
  by (simp add: profile_ok_def active_generated)

lemma get_pmp_profile_cases:
  assumes "get_pmp_profile t = Some p"
  shows "p \<in> {PROFILE_EMPTY, TASK_HELLO_PROFILE, TASK_WORLD_PROFILE}" "unat t < 8"
proof -
  from assms have t: "unat t < length PMP_PROFILES" "p = PMP_PROFILES ! unat t"
    by (auto simp: get_pmp_profile_def PMP_PROFILES_def Let_def split: if_splits)
  then have "p \<in> set PMP_PROFILES" by simp
  then show "p \<in> {PROFILE_EMPTY, TASK_HELLO_PROFILE, TASK_WORLD_PROFILE}"
    by (auto simp: PMP_PROFILES_def)
  show "unat t < 8" using t(1) by (simp add: PMP_PROFILES_def)
qed

lemma get_pmp_profile_ok: "get_pmp_profile t = Some p \<Longrightarrow> profile_ok p"
  using get_pmp_profile_cases(1) profile_ok_hello profile_ok_world profile_ok_empty by blast

lemma regions_overlap_iff:
  assumes "unat a + unat n < 2 ^ 64" "unat b + unat m < 2 ^ 64"
  shows "regions_overlap a n b m \<longleftrightarrow>
    (\<exists>x::u64. unat a \<le> unat x \<and> unat x < unat a + unat n \<and> unat b \<le> unat x \<and> unat x < unat b + unat m)"
proof -
  have sat: "unat (saturating_add a n) = unat a + unat n" "unat (saturating_add b m) = unat b + unat m"
    using assms by (simp_all add: unat_saturating_add)
  have "regions_overlap a n b m \<longleftrightarrow> unat n \<noteq> 0 \<and> unat m \<noteq> 0 \<and> unat b < unat a + unat n \<and> unat a < unat b + unat m"
    by (auto simp: regions_overlap_def Let_def word_le_nat_alt sat not_le unat_eq_0)
  also have "\<dots> \<longleftrightarrow> (\<exists>x::u64. unat a \<le> unat x \<and> unat x < unat a + unat n \<and> unat b \<le> unat x \<and> unat x < unat b + unat m)"
  proof
    assume "unat n \<noteq> 0 \<and> unat m \<noteq> 0 \<and> unat b < unat a + unat n \<and> unat a < unat b + unat m"
    then show "\<exists>x::u64. unat a \<le> unat x \<and> unat x < unat a + unat n \<and> unat b \<le> unat x \<and> unat x < unat b + unat m"
      by (cases "unat a \<le> unat b") (auto intro: exI [of _ a] exI [of _ b])
  qed auto
  finally show ?thesis .
qed

lemma native_profile_cases:
  assumes "get_pmp_profile t = Some p" "active_regions p \<noteq> []"
  shows "unat t = 2 \<and> p = TASK_HELLO_PROFILE \<or> unat t = 3 \<and> p = TASK_WORLD_PROFILE"
proof -
  have "n < 8 \<Longrightarrow> n \<in> {0, 1, 2, 3, 4, 5, 6, 7 :: nat}" for n by auto
  from this [of "unat t"] assms show ?thesis
    by (auto simp: get_pmp_profile_def PMP_PROFILES_def active_generated Let_def split: if_splits)
qed

lemma hello_regions:
  "r \<in> set (active_regions TASK_HELLO_PROFILE) \<Longrightarrow>
     0x80600000 \<le> unat (reg_base r) \<and> unat (reg_base r) + unat (reg_size r) \<le> 0x80700000"
  unfolding active_generated by (auto simp: TASK_HELLO_PROFILE_def)

lemma world_regions:
  "r \<in> set (active_regions TASK_WORLD_PROFILE) \<Longrightarrow>
     0x80700000 \<le> unat (reg_base r) \<and> unat (reg_base r) + unat (reg_size r) \<le> 0x80800000"
  unfolding active_generated by (auto simp: TASK_WORLD_PROFILE_def)

lemma generated_wx: "write_xor_execute TASK_HELLO_PROFILE" "write_xor_execute TASK_WORLD_PROFILE"
  unfolding write_xor_execute_def active_generated by (simp_all add: generated_defs)

text \<open>
  The generated profiles isolate the native tasks from each other: every profile is well
  formed (NAPOT addresses encode base and size, at most eight entries), no region is writable and
  executable, all regions lie above the kernel, and no address belongs to the profiles of two
  different tasks.
\<close>
theorem generated_profiles_isolated:
  assumes "get_pmp_profile t = Some p" "get_pmp_profile u = Some q" "t \<noteq> u"
    and "r \<in> set (active_regions p)" "s \<in> set (active_regions q)"
  shows "profile_ok p \<and> write_xor_execute p \<and> NATIVE_TASK_BASE \<le> reg_base r
     \<and> \<not> (in_region addr r \<and> in_region addr s)"
proof -
  have "active_regions p \<noteq> []" "active_regions q \<noteq> []" using assms(4,5) by auto
  with assms native_profile_cases [of t p] native_profile_cases [of u q]
  consider "p = TASK_HELLO_PROFILE" "q = TASK_WORLD_PROFILE" | "p = TASK_WORLD_PROFILE" "q = TASK_HELLO_PROFILE"
    by (metis word_unat_eq_iff)
  then show ?thesis
    using assms(4,5) hello_regions world_regions generated_wx profile_ok_hello profile_ok_world
    by cases (fastforce simp: in_region_def word_le_nat_alt)+
qed

section \<open>Witnesses\<close>

definition demo_pmp :: pmp_unit where
  "demo_pmp = \<lparr>pmpaddr = replicate 16 0, pmpcfg0 = 0, pmpcfg2 = 0, warl_addr = (\<lambda>i v. v), warl_cfg = (\<lambda>v. v),
     PMP_SHADOW = 0, PMP_SHADOW_ADDRS = replicate 8 0, PMP_SHADOW_ADDR8 = 0, PMP_SHADOW_CFG2 = 0,
     PMP_SHADOW_DYN_ADDRS = replicate 8 0\<rparr>"

definition demo_linker :: linker_symbols where
  "demo_linker = \<lparr>text_start = 0x80000000, text_end = 0x80008000, rodata_start = 0x80008000,
     rodata_end = 0x8000A000, data_start = 0x8000A000, pmp_data_end = 0x80020000,
     task_stacks_start = 0x80020000, task_stacks_end = 0x80030000\<rparr>"

lemma demo_ok: "pmp_shape demo_pmp" "warl_ok demo_pmp" "linker_ok demo_linker"
  by (simp_all add: demo_pmp_def demo_linker_def pmp_shape_def warl_ok_def linker_ok_def)

definition demo_switches :: "pmp_switch list" where
  "demo_switches = [To_profile TASK_HELLO_PROFILE, To_stack 0x20008BFF]"

lemma demo_switches_ok: "list_all switch_ok demo_switches" "demo_switches \<noteq> []"
  using profile_ok_hello by (simp_all add: demo_switches_def)

lemma integrity_no_false_alarm_witness:
  "verify_pmp_integrity (fold do_switch demo_switches (init_pmp demo_linker False demo_pmp))"
  using integrity_no_false_alarm [OF demo_ok demo_switches_ok] by simp

theorem integrity_detects_tampering_witness:
  "verify_pmp_integrity demo_pmp \<and> \<not> verify_pmp_integrity (demo_pmp\<lparr>pmpcfg0 := 1\<rparr>)"
proof -
  have v: "verify_pmp_integrity demo_pmp" by (simp add: verify_pmp_integrity_iff demo_pmp_def)
  with integrity_detects_tampering [OF v demo_ok(1), of 0 1] show ?thesis by (simp add: demo_pmp_def)
qed

theorem user_allowed_after_switch_example:
  "\<not> user_allowed (fold do_switch (demo_switches @ [To_profile TASK_WORLD_PROFILE])
      (init_pmp demo_linker False demo_pmp)) Write 0x80605000"
  using user_allowed_after_switch [OF demo_ok demo_switches_ok(1) profile_ok_world, of "0x80605000" False Write]
  by (simp add: active_generated) (simp add: generated_defs in_region_def)

theorem kernel_data_user_writable_witness:
  "user_allowed (fold do_switch demo_switches (init_pmp demo_linker False demo_pmp)) Write 0x8000A010"
  using kernel_data_user_writable [OF demo_ok demo_switches_ok(1), of "0x8000A010" Write False]
  by (simp add: demo_linker_def)

theorem generated_profiles_isolated_witness:
  "get_pmp_profile 2 = Some TASK_HELLO_PROFILE \<and> write_xor_execute TASK_HELLO_PROFILE"
proof -
  have g: "get_pmp_profile 2 = Some TASK_HELLO_PROFILE" "get_pmp_profile 3 = Some TASK_WORLD_PROFILE"
    by (simp_all add: get_pmp_profile_def PMP_PROFILES_def)
  moreover have "hd (regions TASK_HELLO_PROFILE) \<in> set (active_regions TASK_HELLO_PROFILE)"
    "hd (regions TASK_WORLD_PROFILE) \<in> set (active_regions TASK_WORLD_PROFILE)"
    unfolding active_generated by (simp_all add: TASK_HELLO_PROFILE_def TASK_WORLD_PROFILE_def)
  ultimately show ?thesis using generated_profiles_isolated [OF g(1) g(2)] by simp
qed

end
