(* ===== verification/Loader.thy ===== *)
theory Loader
  imports Pmp_Isolation
begin

text \<open>
  The native task loader, \<open>src/kernel/loader/\<close>: the destination check, bounded copy and zero fill,
  and the loading of a task's segments into the regions of its PMP profile. Memory is a function from
  addresses to bytes; the segments are the arguments (the build embeds them from the packed task).
\<close>

type_synonym memory = "usize \<Rightarrow> u8"

section \<open>Destination check, copy and zero fill\<close>

definition is_safe_load_dst :: "usize \<Rightarrow> usize \<Rightarrow> bool" where
  "is_safe_load_dst dst sz =
     (if sz = 0 then False
      else case checked_add dst sz of
          None \<Rightarrow> False
        | Some dst_end \<Rightarrow>
            (case checked_add KERNEL_BASE KERNEL_SIZE of
               None \<Rightarrow> False
             | Some kend \<Rightarrow> dst_end \<le> KERNEL_BASE \<or> kend \<le> dst))"

text \<open>The slice \<open>[base, base + n)\<close> as a destination.\<close>

definition bounded_copy :: "u8 list \<Rightarrow> usize \<Rightarrow> nat \<Rightarrow> memory \<Rightarrow> memory option" where
  "bounded_copy src base n mem =
     (if n < length src then None
      else Some (fold (\<lambda>i m. m(base + of_nat i := src ! i)) [0..<length src] mem))"

definition zero_fill :: "usize \<Rightarrow> nat \<Rightarrow> memory \<Rightarrow> memory" where
  "zero_fill base n mem = fold (\<lambda>i m. m(base + of_nat i := 0)) [0..<n] mem"

section \<open>Loading regions and tasks\<close>

datatype LoadError =
    ProfileNotFound | ProfileEmpty | TextOverflow | RodataOverflow | DataOverflow
  | TextNotSafe | RodataNotSafe | DataNotSafe

record NativeTaskSegments =
  seg_text :: "u8 list"
  seg_rodata :: "u8 list option"
  seg_data :: "u8 list option"

type_synonym load_result = "(LoadError + unit) \<times> memory"

definition load_region_zero_only :: "Region \<Rightarrow> LoadError \<Rightarrow> memory \<Rightarrow> load_result" where
  "load_region_zero_only region unsafe_err mem =
     (if \<not> is_safe_load_dst (reg_base region) (reg_size region) then (Inl unsafe_err, mem)
      else (Inr (), zero_fill (reg_base region) (unat (reg_size region)) mem))"

definition load_region :: "Region \<Rightarrow> u8 list \<Rightarrow> LoadError \<Rightarrow> LoadError \<Rightarrow> memory \<Rightarrow> load_result" where
  "load_region region src overflow_err unsafe_err mem =
     (if \<not> is_safe_load_dst (reg_base region) (reg_size region) then (Inl unsafe_err, mem)
      else if unat (reg_size region) < length src then (Inl overflow_err, mem)
      else let mem1 = zero_fill (reg_base region) (unat (reg_size region)) mem
      in case bounded_copy src (reg_base region) (unat (reg_size region)) mem1 of
           None \<Rightarrow> (Inl overflow_err, mem1)
         | Some mem2 \<Rightarrow> (Inr (), mem2))"

text \<open>The \<open>?\<close> operator: go on with the memory, or return the error.\<close>

fun then_load :: "load_result \<Rightarrow> (memory \<Rightarrow> load_result) \<Rightarrow> load_result" where
  "then_load (Inl e, mem) f = (Inl e, mem)"
| "then_load (Inr u, mem) f = f mem"

definition load_optional :: "Region \<Rightarrow> u8 list option \<Rightarrow> LoadError \<Rightarrow> LoadError \<Rightarrow> memory \<Rightarrow> load_result" where
  "load_optional region seg overflow_err unsafe_err mem =
     (case seg of Some src \<Rightarrow> load_region region src overflow_err unsafe_err mem
      | None \<Rightarrow> load_region_zero_only region unsafe_err mem)"

definition load_stack :: "Region \<Rightarrow> memory \<Rightarrow> memory" where
  "load_stack region mem =
     (if is_safe_load_dst (reg_base region) (reg_size region)
      then zero_fill (reg_base region) (unat (reg_size region)) mem else mem)"

definition load_native_task :: "u8 \<Rightarrow> NativeTaskSegments \<Rightarrow> memory \<Rightarrow> load_result" where
  "load_native_task task_id segments mem =
     (case get_pmp_profile task_id of
        None \<Rightarrow> (Inl ProfileNotFound, mem)
      | Some profile \<Rightarrow>
          if region_count profile = 0 then (Inl ProfileEmpty, mem)
          else let regions = active_regions profile
          in then_load (load_region (regions ! 0) (seg_text segments) TextOverflow TextNotSafe mem)
             (\<lambda>mem. then_load
               (if 1 < length regions
                then load_optional (regions ! 1) (seg_rodata segments) RodataOverflow RodataNotSafe mem
                else (Inr (), mem))
             (\<lambda>mem. then_load
               (if 2 < length regions
                then load_optional (regions ! 2) (seg_data segments) DataOverflow DataNotSafe mem
                else (Inr (), mem))
             (\<lambda>mem. (Inr (), if 3 < length regions then load_stack (regions ! 3) mem else mem)))))"

definition load_task_hello :: "u8 list \<Rightarrow> u8 list \<Rightarrow> u8 list \<Rightarrow> memory \<Rightarrow> load_result" where
  "load_task_hello text rodata data mem =
     load_native_task 2 \<lparr>seg_text = text, seg_rodata = Some rodata, seg_data = Some data\<rparr> mem"

definition load_task_world :: "u8 list \<Rightarrow> u8 list \<Rightarrow> u8 list \<Rightarrow> memory \<Rightarrow> load_result" where
  "load_task_world text rodata data mem =
     load_native_task 3 \<lparr>seg_text = text, seg_rodata = Some rodata, seg_data = Some data\<rparr> mem"

section \<open>What the loops write\<close>

definition overlay :: "Region \<Rightarrow> u8 list \<Rightarrow> memory \<Rightarrow> memory" where
  "overlay r src mem a =
     (if in_region a r
      then (let i = unat a - unat (reg_base r) in if i < length src then src ! i else 0)
      else mem a)"

lemma fold_write:
  fixes base :: usize
  assumes "unat base + n \<le> 2 ^ 64"
  shows "fold (\<lambda>i m. m(base + of_nat i := f i)) [0..<n] mem a =
     (if unat base \<le> unat a \<and> unat a < unat base + n then f (unat a - unat base) else mem a)"
  using assms
proof (induction n)
  case (Suc n)
  have un: "unat (base + of_nat n) = unat base + n"
    using Suc.prems by (simp add: unat_word_ariths unsigned_of_nat take_bit_nat_eq_self)
  show ?case
  proof (cases "a = base + of_nat n")
    case True
    then show ?thesis using un by simp
  next
    case False
    then have "unat a \<noteq> unat base + n" using un by (metis unsigned_word_eqI)
    with False Suc show ?thesis by auto
  qed
qed auto

lemma is_safe_load_dst_iff:
  "is_safe_load_dst dst sz \<longleftrightarrow> sz \<noteq> 0 \<and> unat dst + unat sz < 2 ^ 64
     \<and> (unat dst + unat sz \<le> unat KERNEL_BASE \<or> unat KERNEL_BASE + unat KERNEL_SIZE \<le> unat dst)"
proof (cases "checked_add dst sz")
  case None
  then have "2 ^ 64 \<le> unat dst + unat sz" by (simp add: checked_add_None_iff)
  with None show ?thesis by (auto simp: is_safe_load_dst_def)
next
  case (Some e)
  then have e: "unat e = unat dst + unat sz" by (simp add: checked_add_Some_iff)
  have k: "checked_add KERNEL_BASE KERNEL_SIZE = Some (0x80600000 :: usize)" by (simp add: checked_add_Some_iff)
  show ?thesis using unat_less [of e]
    by (simp add: is_safe_load_dst_def Some k e word_le_nat_alt)
qed

lemma zero_fill_overlay:
  "is_safe_load_dst (reg_base r) (reg_size r) \<Longrightarrow>
   zero_fill (reg_base r) (unat (reg_size r)) mem = overlay r [] mem"
  by (rule ext) (simp add: zero_fill_def overlay_def in_region_def fold_write is_safe_load_dst_iff)

lemma load_region_eq:
  "load_region r src e1 e2 mem =
     (if \<not> is_safe_load_dst (reg_base r) (reg_size r) then (Inl e2, mem)
      else if unat (reg_size r) < length src then (Inl e1, mem)
      else (Inr (), overlay r src mem))"
proof (cases "is_safe_load_dst (reg_base r) (reg_size r) \<and> \<not> unat (reg_size r) < length src")
  case True
  then have "fold (\<lambda>i m. m(reg_base r + of_nat i := src ! i)) [0..<length src] (overlay r [] mem) = overlay r src mem"
    by (intro ext) (subst fold_write, auto simp: is_safe_load_dst_iff overlay_def in_region_def Let_def)
  with True show ?thesis by (simp add: load_region_def zero_fill_overlay bounded_copy_def)
qed (auto simp: load_region_def)

lemma load_optional_eq:
  "load_optional r seg e1 e2 mem =
     (if \<not> is_safe_load_dst (reg_base r) (reg_size r) then (Inl e2, mem)
      else if unat (reg_size r) < length (case seg of None \<Rightarrow> [] | Some s \<Rightarrow> s) then (Inl e1, mem)
      else (Inr (), overlay r (case seg of None \<Rightarrow> [] | Some s \<Rightarrow> s) mem))"
  by (auto simp: load_optional_def load_region_eq load_region_zero_only_def zero_fill_overlay split: option.split)

lemma load_stack_eq:
  "load_stack r mem = (if is_safe_load_dst (reg_base r) (reg_size r) then overlay r [] mem else mem)"
  by (simp add: load_stack_def zero_fill_overlay)

text \<open>The kernel's address range.\<close>

definition kernel_range :: "usize \<Rightarrow> bool" where
  "kernel_range a \<longleftrightarrow> unat KERNEL_BASE \<le> unat a \<and> unat a < unat KERNEL_BASE + unat KERNEL_SIZE"

lemma overlay_kernel: "is_safe_load_dst (reg_base r) (reg_size r) \<Longrightarrow> kernel_range a \<Longrightarrow> overlay r src mem a = mem a"
  by (auto simp: overlay_def in_region_def is_safe_load_dst_iff kernel_range_def)

lemma then_load_kernel:
  assumes "\<And>m. kernel_range a \<Longrightarrow> snd (f m) a = m a" "kernel_range a"
  shows "snd (then_load r f) a = snd r a"
  using assms by (cases "(r, f)" rule: then_load.cases) auto

section \<open>Properties\<close>



text \<open>The segments in region order, with an absent one and the stack empty.\<close>

definition segment_list :: "NativeTaskSegments \<Rightarrow> u8 list list" where
  "segment_list s = [seg_text s, case seg_rodata s of None \<Rightarrow> [] | Some x \<Rightarrow> x,
     case seg_data s of None \<Rightarrow> [] | Some x \<Rightarrow> x, []]"

definition segments_fit :: "NativeTaskSegments \<Rightarrow> bool" where
  "segments_fit s \<longleftrightarrow> length (seg_text s) \<le> 0x4000
     \<and> (\<forall>x. seg_rodata s = Some x \<longrightarrow> length x \<le> 0x1000) \<and> (\<forall>x. seg_data s = Some x \<longrightarrow> length x \<le> 0x1000)"

lemma native_regions:
  assumes "p = TASK_HELLO_PROFILE \<or> p = TASK_WORLD_PROFILE"
  shows "length (active_regions p) = 4"
    and "\<And>k. k < 4 \<Longrightarrow> is_safe_load_dst (reg_base (active_regions p ! k)) (reg_size (active_regions p ! k))"
    and "unat (reg_size (active_regions p ! 0)) = 0x4000" "unat (reg_size (active_regions p ! Suc 0)) = 0x1000"
        "unat (reg_size (active_regions p ! 2)) = 0x1000"
    and "\<And>j k a. j < 4 \<Longrightarrow> k < 4 \<Longrightarrow> j \<noteq> k \<Longrightarrow> in_region a (active_regions p ! j) \<Longrightarrow> \<not> in_region a (active_regions p ! k)"
proof -
  have four: "k < 4 \<Longrightarrow> k = 0 \<or> k = Suc 0 \<or> k = 2 \<or> k = 3" for k :: nat by auto
  show "length (active_regions p) = 4" "unat (reg_size (active_regions p ! 0)) = 0x4000"
    "unat (reg_size (active_regions p ! Suc 0)) = 0x1000" "unat (reg_size (active_regions p ! 2)) = 0x1000"
    using assms by (auto simp: active_generated) (auto simp: generated_defs)
  show "is_safe_load_dst (reg_base (active_regions p ! k)) (reg_size (active_regions p ! k))" if "k < 4" for k
    using four [OF that] assms by (auto simp: active_generated) (auto simp: generated_defs is_safe_load_dst_iff)
  show "\<not> in_region a (active_regions p ! k)"
    if "j < 4" "k < 4" "j \<noteq> k" "in_region a (active_regions p ! j)" for j k a
    using four [OF that(1)] four [OF that(2)] that(3,4) assms
    by (auto simp: active_generated) (auto simp: generated_defs in_region_def)
qed

lemma native_profile:
  assumes "t = 2 \<or> t = 3"
  obtains p where "get_pmp_profile t = Some p" "p = TASK_HELLO_PROFILE \<or> p = TASK_WORLD_PROFILE"
    "region_count p \<noteq> 0"
  using assms that [of TASK_HELLO_PROFILE] that [of TASK_WORLD_PROFILE]
  by (auto simp: get_pmp_profile_def PMP_PROFILES_def) (auto simp: generated_defs)

text \<open>
  C23. A native task is loaded completely and exactly: for both tasks of the manifest and segments
  that fit their regions the loader succeeds, and afterwards every byte of each region is the
  corresponding byte of its segment, or zero past the segment's end and in the whole stack; memory
  outside the task's four regions is unchanged.
\<close>
theorem load_native_task_exact:
  assumes t: "t = 2 \<or> t = 3" and fit: "segments_fit s"
  shows "\<exists>mem' p. load_native_task t s mem = (Inr (), mem') \<and> get_pmp_profile t = Some p
     \<and> (\<forall>k<4. \<forall>a. in_region a (active_regions p ! k) \<longrightarrow>
          mem' a = (let i = unat a - unat (reg_base (active_regions p ! k)); seg = segment_list s ! k
                    in if i < length seg then seg ! i else 0))
     \<and> (\<forall>a. (\<forall>r \<in> set (active_regions p). \<not> in_region a r) \<longrightarrow> mem' a = mem a)"
proof -
  obtain p where p: "get_pmp_profile t = Some p" "p = TASK_HELLO_PROFILE \<or> p = TASK_WORLD_PROFILE"
    "region_count p \<noteq> 0" using native_profile [OF t] .
  note nr = native_regions [OF p(2)]
  let ?r = "\<lambda>k. active_regions p ! k" and ?g = "\<lambda>k. segment_list s ! k"
  let ?m = "overlay (?r 3) (?g 3) (overlay (?r 2) (?g 2) (overlay (?r 1) (?g 1) (overlay (?r 0) (?g 0) mem)))"
  have lens: "length (seg_text s) \<le> 0x4000" "length (?g 1) \<le> 0x1000" "length (?g 2) \<le> 0x1000"
    using fit by (auto simp: segments_fit_def segment_list_def split: option.split)
  then have run: "load_native_task t s mem = (Inr (), ?m)"
    using p nr by (simp add: load_native_task_def load_region_eq load_optional_eq load_stack_eq segment_list_def Let_def)
  have inside: "?m a = (let i = unat a - unat (reg_base (?r k)); seg = ?g k in if i < length seg then seg ! i else 0)"
    if "k < 4" "in_region a (?r k)" for k a
  proof -
    have "k = 0 \<or> k = 1 \<or> k = 2 \<or> k = 3" using that(1) by auto
    then show ?thesis using nr(6) [OF that(1) _ _ that(2)] that(2) by (elim disjE) (simp_all add: overlay_def Let_def)
  qed
  have outside: "?m a = mem a" if "\<forall>r \<in> set (active_regions p). \<not> in_region a r" for a
    using that nr(1) by (simp add: overlay_def)
  show ?thesis using run p(1) inside outside by (intro exI [of _ ?m] exI [of _ p]) blast
qed

theorem load_native_task_exact_witness:
  "\<exists>mem'. load_native_task 2 \<lparr>seg_text = [7, 8], seg_rodata = None, seg_data = Some [5]\<rparr> (\<lambda>a. 9) = (Inr (), mem')
     \<and> mem' 0x80600001 = 8"
proof -
  let ?s = "\<lparr>seg_text = [7, 8], seg_rodata = None, seg_data = Some [5]\<rparr>"
  have fit: "segments_fit ?s" by (simp add: segments_fit_def)
  have p: "get_pmp_profile 2 = Some TASK_HELLO_PROFILE" by (simp add: get_pmp_profile_def PMP_PROFILES_def)
  have r: "active_regions TASK_HELLO_PROFILE ! 0 =
      \<lparr>reg_base = 0x80600000, reg_size = 0x4000, reg_encoding = Napot 0x201807ff 14, reg_perm = PERM_RX\<rparr>"
    unfolding active_generated by (simp add: TASK_HELLO_PROFILE_def)
  obtain mem' where m: "load_native_task 2 ?s (\<lambda>a. 9) = (Inr (), mem')"
    "\<forall>k<4. \<forall>a. in_region a (active_regions TASK_HELLO_PROFILE ! k) \<longrightarrow>
          mem' a = (let i = unat a - unat (reg_base (active_regions TASK_HELLO_PROFILE ! k)); seg = segment_list ?s ! k
                    in if i < length seg then seg ! i else 0)"
    using load_native_task_exact [OF disjI1 [OF refl] fit, of "\<lambda>a. 9"] p by auto
  from m(2) [rule_format, of 0 "0x80600001"] r have "mem' 0x80600001 = 8"
    by (simp add: in_region_def segment_list_def Let_def)
  with m(1) show ?thesis by blast
qed

end
