(* ===== verification/Ipc.thy ===== *)
theory Ipc
  imports Config
begin

text \<open>
  Inter-process communication, \<open>src/ipc/mod.rs\<close>: the CRC32 of messages, the single-producer
  single-consumer ring buffers, the static pool of eight channels and the ownership table that is
  sealed at the end of boot. The locale \<open>bounded_fifo\<close> is the contract a ring buffer offers to
  the system calls; it is interpreted on the ring buffer of the source.
\<close>

section \<open>CRC32 (ipc/mod.rs, crc32)\<close>

text \<open>One iteration of the inner loop, then the byte loop. Shifts are on 32-bit values.\<close>

definition crc32_bit :: "u32 \<Rightarrow> u32" where
  "crc32_bit crc =
     (if crc AND 1 \<noteq> 0 then drop_bit 1 crc XOR 0xEDB88320 else drop_bit 1 crc)"

definition crc32_byte :: "u32 \<Rightarrow> u8 \<Rightarrow> u32" where
  "crc32_byte crc b = (crc32_bit ^^ 8) (crc XOR ucast b)"

fun crc32_loop :: "u32 \<Rightarrow> u8 list \<Rightarrow> u32" where
  "crc32_loop crc [] = crc"
| "crc32_loop crc (b # bs) = crc32_loop (crc32_byte crc b) bs"

definition crc32 :: "u8 list \<Rightarrow> u32" where
  "crc32 data = NOT (crc32_loop 0xFFFFFFFF data)"

section \<open>Messages\<close>

record IpcMessage =
  msg_data :: "u8 list"

definition msg_zeroed :: IpcMessage where
  "msg_zeroed = \<lparr>msg_data = replicate IPC_MSG_SIZE 0\<rparr>"

text \<open>The type \<open>[u8; 64]\<close> of the field: 64 bytes.\<close>

definition msg_wf :: "IpcMessage \<Rightarrow> bool" where
  "msg_wf m \<longleftrightarrow> length (msg_data m) = IPC_MSG_SIZE"

definition set_crc :: "IpcMessage \<Rightarrow> IpcMessage" where
  "set_crc m =
     (let crc = crc32 (take 60 (msg_data m))
      in m\<lparr>msg_data := (msg_data m)
             [60 := ucast crc, 61 := ucast (drop_bit 8 crc),
              62 := ucast (drop_bit 16 crc), 63 := ucast (drop_bit 24 crc)]\<rparr>)"

definition verify_crc :: "IpcMessage \<Rightarrow> bool" where
  "verify_crc m =
     (let stored = from_le_bytes32 (msg_data m ! 60) (msg_data m ! 61)
                                   (msg_data m ! 62) (msg_data m ! 63);
          computed = crc32 (take 60 (msg_data m))
      in stored = computed)"

section \<open>SPSC ring buffer\<close>

record SpscChannel =
  sp_head :: u16
  sp_tail :: u16
  sp_slots :: "IpcMessage list"

definition spsc_new :: SpscChannel where
  "spsc_new = \<lparr>sp_head = 0, sp_tail = 0, sp_slots = replicate IPC_CHANNEL_SLOTS msg_zeroed\<rparr>"

text \<open>
  \<open>send\<close> and \<open>recv\<close> index the slot array without a check of their own: \<open>None\<close> is the
  panic of an index out of range. Atomics are read and written once each, on one hart.
\<close>

definition spsc_send :: "SpscChannel \<Rightarrow> IpcMessage \<Rightarrow> ((SipahiError + unit) \<times> SpscChannel) option" where
  "spsc_send ch msg =
     (let next_head = (sp_head ch + 1) mod 16
      in if next_head = sp_tail ch then Some (Inl BufferFull, ch)
         else if unat (sp_head ch) < length (sp_slots ch)
         then Some (Inr (), ch\<lparr>sp_slots := (sp_slots ch)[unat (sp_head ch) := msg],
                              sp_head := next_head\<rparr>)
         else None)"

definition spsc_recv :: "SpscChannel \<Rightarrow> (IpcMessage option \<times> SpscChannel) option" where
  "spsc_recv ch =
     (if sp_tail ch = sp_head ch then Some (None, ch)
      else if unat (sp_tail ch) < length (sp_slots ch)
      then Some (Some (sp_slots ch ! unat (sp_tail ch)), ch\<lparr>sp_tail := (sp_tail ch + 1) mod 16\<rparr>)
      else None)"

definition spsc_is_full :: "SpscChannel \<Rightarrow> bool" where
  "spsc_is_full ch \<longleftrightarrow> (sp_head ch + 1) mod 16 = sp_tail ch"

definition spsc_is_empty :: "SpscChannel \<Rightarrow> bool" where
  "spsc_is_empty ch \<longleftrightarrow> sp_tail ch = sp_head ch"

definition spsc_len :: "SpscChannel \<Rightarrow> nat" where
  "spsc_len ch =
     (let head = unat (sp_head ch); tail = unat (sp_tail ch)
      in if tail \<le> head then head - tail else IPC_CHANNEL_SLOTS - tail + head)"

section \<open>Channel pool and ownership\<close>

record ipc_state =
  IPC_CHANNELS :: "SpscChannel list"
  CHANNEL_OWNERS :: "(u8 \<times> u8) list"
  CHANNELS_SEALED :: bool

definition ipc_init :: ipc_state where
  "ipc_init = \<lparr>IPC_CHANNELS = replicate MAX_IPC_CHANNELS spsc_new,
               CHANNEL_OWNERS = replicate MAX_IPC_CHANNELS (CHANNEL_UNASSIGNED, CHANNEL_UNASSIGNED),
               CHANNELS_SEALED = False\<rparr>"

text \<open>\<open>get_channel\<close> returns a reference: the model returns the index of the channel.\<close>

definition get_channel :: "usize \<Rightarrow> nat option" where
  "get_channel ch = (if MAX_IPC_CHANNELS \<le> unat ch then None else Some (unat ch))"

definition assign_channel :: "ipc_state \<Rightarrow> usize \<Rightarrow> u8 \<Rightarrow> u8 \<Rightarrow> bool \<times> ipc_state" where
  "assign_channel st ch producer consumer =
     (if CHANNELS_SEALED st then (False, st)
      else if MAX_IPC_CHANNELS \<le> unat ch then (False, st)
      else if MAX_TASKS \<le> unat producer \<or> MAX_TASKS \<le> unat consumer then (False, st)
      else (True, st\<lparr>CHANNEL_OWNERS := (CHANNEL_OWNERS st)[unat ch := (producer, consumer)]\<rparr>))"

definition seal_channels :: "ipc_state \<Rightarrow> ipc_state" where
  "seal_channels st = st\<lparr>CHANNELS_SEALED := True\<rparr>"

definition can_send :: "ipc_state \<Rightarrow> usize \<Rightarrow> u8 \<Rightarrow> bool" where
  "can_send st ch caller =
     (if MAX_IPC_CHANNELS \<le> unat ch then False
      else fst (CHANNEL_OWNERS st ! unat ch) = caller)"

definition can_recv :: "ipc_state \<Rightarrow> usize \<Rightarrow> u8 \<Rightarrow> bool" where
  "can_recv st ch caller =
     (if MAX_IPC_CHANNELS \<le> unat ch then False
      else snd (CHANNEL_OWNERS st ! unat ch) = caller)"

section \<open>CRC32: every error burst of up to four bytes is detected\<close>

text \<open>
  The register step is linear over XOR and injective; so are runs of it. Feeding four bytes is
  feeding the little-endian word of them and 32 register steps, so two data that differ in at most
  four consecutive bytes have different checksums.
\<close>

lemma crc32_bit_alt:
  "crc32_bit c = (if bit c 0 then drop_bit 1 c XOR 0xEDB88320 else drop_bit 1 c)"
  by (simp add: crc32_bit_def and_one_eq mod2_eq_if bit_0)

lemma crc32_bit_xor: "crc32_bit (a XOR b) = crc32_bit a XOR crc32_bit b"
proof -
  have "p XOR (q XOR (p XOR r)) = q XOR r" for p q r :: u32
    by (simp add: xor.left_commute flip: xor.assoc)
  then show ?thesis
    by (simp add: crc32_bit_alt bit_xor_iff drop_bit_xor xor.assoc xor.left_commute xor.commute)
qed

lemma crc32_bit_eq_0: "crc32_bit c = 0 \<longleftrightarrow> c = 0"
proof
  assume z: "crc32_bit c = 0"
  have b0: "\<not> bit c 0"
  proof
    assume "bit c 0"
    then have "drop_bit 1 c XOR 0xEDB88320 = 0" using z by (simp add: crc32_bit_alt)
    moreover have "bit (drop_bit 1 c XOR (0xEDB88320 :: u32)) 31"
      using bit_imp_le_length [of c 32] by (auto simp: bit_simps)
    ultimately show False by simp
  qed
  with z have "drop_bit 1 c = 0" by (simp add: crc32_bit_alt)
  then have "bit (drop_bit 1 c) n = False" for n by simp
  then have bS: "\<not> bit c (Suc n)" for n by (simp add: bit_drop_bit_eq)
  have "\<not> bit c n" for n using b0 bS by (cases n) auto
  then show "c = 0" by (intro bit_word_eqI) simp
qed (simp add: crc32_bit_def)

lemma crc32_steps_xor: "(crc32_bit ^^ n) (a XOR b) = (crc32_bit ^^ n) a XOR (crc32_bit ^^ n) b"
  by (induction n) (simp_all add: crc32_bit_xor)

lemma crc32_steps_eq_0: "(crc32_bit ^^ n) c = 0 \<longleftrightarrow> c = 0"
  by (induction n) (simp_all add: crc32_bit_eq_0)

lemma xor_eq_0_iff: "a XOR b = 0 \<longleftrightarrow> a = b" for a b :: "'a::len word"
proof
  assume "a XOR b = 0"
  then have "a XOR (a XOR b) = a" by simp
  then show "a = b" by (simp flip: xor.assoc)
qed simp

lemma xor_right_cancel: "a XOR c = b XOR c \<longleftrightarrow> a = b" for a b c :: "'a::len word"
  by (metis xor.assoc xor_self_eq xor.right_neutral)

lemma xor_left_cancel: "c XOR a = c XOR b \<longleftrightarrow> a = b" for a b c :: "'a::len word"
  by (metis xor.commute xor_right_cancel)

lemma crc32_steps_inj: "(crc32_bit ^^ n) a = (crc32_bit ^^ n) b \<longleftrightarrow> a = b"
  by (metis crc32_steps_xor crc32_steps_eq_0 xor_eq_0_iff)

lemma crc32_byte_inj: "crc32_byte c b = crc32_byte d b \<longleftrightarrow> c = d"
  unfolding crc32_byte_def crc32_steps_inj by (simp add: xor_right_cancel)

text \<open>The word that a run of at most four bytes feeds into the register, from bit \<open>k\<close> on.\<close>

fun fed_word :: "nat \<Rightarrow> u8 list \<Rightarrow> u32" where
  "fed_word k [] = 0"
| "fed_word k (b # bs) = push_bit k (ucast b) XOR fed_word (k + 8) bs"

lemma fed_word_low: "n < k \<Longrightarrow> \<not> bit (fed_word k bs) n"
  by (induction k bs arbitrary: n rule: fed_word.induct) (auto simp: bit_simps)

lemma fed_word_inj:
  "length xs = length ys \<Longrightarrow> k + 8 * length xs \<le> 32 \<Longrightarrow> fed_word k xs = fed_word k ys \<Longrightarrow> xs = ys"
proof (induction xs ys arbitrary: k rule: list_induct2)
  case (Cons x xs y ys)
  have "bit x n = bit y n" if "n < 8" for n
  proof -
    have "bit (fed_word k (z # zs)) (k + n) = bit z n" if "k + 8 \<le> 32" for z zs
      using that \<open>n < 8\<close> by (simp add: fed_word_low bit_simps)
    from this [of x xs] this [of y ys] show ?thesis using Cons.prems by simp
  qed
  then have "x = y" by (intro bit_word_eqI) simp
  moreover from this have "fed_word (k + 8) xs = fed_word (k + 8) ys"
    using Cons.prems(2) by (simp add: xor_left_cancel)
  ultimately show ?case using Cons.IH [of "k + 8"] Cons.prems(1) by simp
qed simp

lemma crc32_bit_push: "k \<le> 23 \<Longrightarrow> crc32_bit (push_bit (Suc k) (ucast (b :: u8))) = push_bit k (ucast b)"
proof -
  assume k: "k \<le> 23"
  have "\<not> bit (push_bit (Suc k) (ucast b :: u32)) 0" by (simp add: bit_push_bit_iff del: push_bit_Suc)
  then have "crc32_bit (push_bit (Suc k) (ucast b)) = drop_bit 1 (push_bit (Suc k) (ucast b))"
    unfolding crc32_bit_alt by simp
  also have "\<dots> = push_bit k (ucast b)"
    using k by (intro bit_word_eqI) (auto simp: bit_simps dest: bit_imp_le_length simp del: push_bit_Suc)
  finally show ?thesis .
qed

lemma crc32_steps_push: "k \<le> 24 \<Longrightarrow> (crc32_bit ^^ k) (push_bit k (ucast (b :: u8))) = ucast b"
proof (induction k)
  case (Suc k)
  then have "crc32_bit (push_bit (Suc k) (ucast b)) = push_bit k (ucast b)"
    by (intro crc32_bit_push) simp
  with Suc show ?case
    by (simp add: funpow_Suc_right del: funpow.simps(2) push_bit_Suc)
qed simp

lemma crc32_loop_fed_word:
  "k + 8 * length bs \<le> 32 \<Longrightarrow>
   crc32_loop ((crc32_bit ^^ k) c) bs = (crc32_bit ^^ (k + 8 * length bs)) (c XOR fed_word k bs)"
proof (induction bs arbitrary: k c)
  case (Cons b bs)
  have "crc32_byte ((crc32_bit ^^ k) c) b
      = (crc32_bit ^^ (k + 8)) (c XOR push_bit k (ucast b))"
    unfolding crc32_byte_def crc32_steps_xor add.commute [of k 8] funpow_add comp_apply
    using Cons.prems crc32_steps_push [of k b] by simp
  then show ?case
    using Cons.IH [of "k + 8" "c XOR push_bit k (ucast b)"] Cons.prems
    by (simp add: xor.assoc add.assoc)
qed simp

lemma crc32_loop_append: "crc32_loop c (xs @ ys) = crc32_loop (crc32_loop c xs) ys"
  by (induction xs arbitrary: c) auto

lemma crc32_loop_inj: "crc32_loop c bs = crc32_loop d bs \<longleftrightarrow> c = d"
  by (induction bs arbitrary: c d) (auto simp: crc32_byte_inj)

lemma crc32_loop_burst:
  assumes "length xs = length ys" "length xs \<le> 4" "xs \<noteq> ys"
  shows "crc32_loop c (ps @ xs @ ss) \<noteq> crc32_loop c (ps @ ys @ ss)"
proof
  assume "crc32_loop c (ps @ xs @ ss) = crc32_loop c (ps @ ys @ ss)"
  then have "crc32_loop (crc32_loop c ps) xs = crc32_loop (crc32_loop c ps) ys"
    by (simp add: crc32_loop_append crc32_loop_inj)
  then have "fed_word 0 xs = fed_word 0 ys"
    using assms(1,2) crc32_loop_fed_word [of 0 xs "crc32_loop c ps"]
      crc32_loop_fed_word [of 0 ys "crc32_loop c ps"]
    by (simp add: crc32_steps_inj xor_left_cancel)
  with assms fed_word_inj [of xs ys 0] show False by simp
qed

text \<open>A message passes its check exactly when the register ends in one fixed residue.\<close>

lemma from_le_bytes32_fed_word: "from_le_bytes32 a b c d = fed_word 0 [a, b, c, d]"
proof (unfold from_le_bytes32_def, rule bit_word_eqI, goal_cases)
  case (1 n)
  then consider "n < 8" | "8 \<le> n" "n < 16" | "16 \<le> n" "n < 24" | "24 \<le> n" "n < 32"
    by fastforce
  then show ?case by cases (auto simp: bit_simps dest: bit_imp_le_length)
qed

lemma msg_data_split:
  "msg_wf m \<Longrightarrow>
   msg_data m = take 60 (msg_data m) @ [msg_data m ! 60, msg_data m ! 61, msg_data m ! 62, msg_data m ! 63]"
proof -
  assume "msg_wf m"
  then have "length (drop 60 (msg_data m)) = 4" by (simp add: msg_wf_def)
  from list4_conv [OF this]
  have "drop 60 (msg_data m) = [msg_data m ! 60, msg_data m ! 61, msg_data m ! 62, msg_data m ! 63]"
    using \<open>msg_wf m\<close> by (simp add: msg_wf_def)
  then show ?thesis by (metis append_take_drop_id)
qed

lemma verify_crc_residue:
  assumes "msg_wf m"
  shows "verify_crc m \<longleftrightarrow> crc32_loop 0xFFFFFFFF (msg_data m) = (crc32_bit ^^ 32) (- 1)"
proof -
  let ?c = "crc32_loop 0xFFFFFFFF (take 60 (msg_data m))"
  let ?bs = "[msg_data m ! 60, msg_data m ! 61, msg_data m ! 62, msg_data m ! 63]"
  have "crc32_loop 0xFFFFFFFF (msg_data m) = crc32_loop ?c ?bs"
    by (subst msg_data_split [OF assms]) (simp only: crc32_loop_append)
  also have "\<dots> = (crc32_bit ^^ 32) (?c XOR fed_word 0 ?bs)"
    using crc32_loop_fed_word [of 0 ?bs ?c] by simp
  finally have "crc32_loop 0xFFFFFFFF (msg_data m) = (crc32_bit ^^ 32) (- 1)
      \<longleftrightarrow> ?c XOR fed_word 0 ?bs = - 1"
    by (simp only: crc32_steps_inj)
  also have "\<dots> \<longleftrightarrow> fed_word 0 ?bs = NOT ?c"
    by (metis bit.xor_cancel_right xor_left_cancel)
  finally show ?thesis
    by (simp only: verify_crc_def crc32_def Let_def from_le_bytes32_fed_word)
qed

section \<open>The contract of a bounded queue\<close>

text \<open>
  What a client of a queue may rely on: an invariant, the content as a list, a capacity, and the
  effect of the two operations in terms of them. \<open>None\<close> is a panic.
\<close>

datatype 'a queue_op = Send 'a | Recv

text \<open>
  Any interleaving of sends and receives, with the lists of the messages that were accepted and of
  those that were delivered.
\<close>

fun queue_run ::
  "('q \<Rightarrow> 'a \<Rightarrow> (('e + unit) \<times> 'q) option) \<Rightarrow> ('q \<Rightarrow> ('a option \<times> 'q) option) \<Rightarrow>
   'q \<Rightarrow> 'a queue_op list \<Rightarrow> ('a list \<times> 'a list \<times> 'q) option" where
  "queue_run enq deq q [] = Some ([], [], q)"
| "queue_run enq deq q (Send x # ops) =
     (case enq q x of None \<Rightarrow> None
      | Some (r, q') \<Rightarrow>
          (case queue_run enq deq q' ops of None \<Rightarrow> None
           | Some (acc, del, q'') \<Rightarrow>
               Some (case r of Inl e \<Rightarrow> acc | Inr u \<Rightarrow> x # acc, del, q'')))"
| "queue_run enq deq q (Recv # ops) =
     (case deq q of None \<Rightarrow> None
      | Some (r, q') \<Rightarrow>
          (case queue_run enq deq q' ops of None \<Rightarrow> None
           | Some (acc, del, q'') \<Rightarrow>
               Some (acc, case r of None \<Rightarrow> del | Some x \<Rightarrow> x # del, q'')))"

locale bounded_fifo =
  fixes inv :: "'q \<Rightarrow> bool"
    and content :: "'q \<Rightarrow> 'a list"
    and capacity :: nat
    and full :: 'e
    and enq :: "'q \<Rightarrow> 'a \<Rightarrow> (('e + unit) \<times> 'q) option"
    and deq :: "'q \<Rightarrow> ('a option \<times> 'q) option"
    and ok :: "'a \<Rightarrow> bool"
  assumes content_bound: "inv q \<Longrightarrow> length (content q) \<le> capacity"
    and enq_full: "inv q \<Longrightarrow> length (content q) = capacity \<Longrightarrow> enq q x = Some (Inl full, q)"
    and enq_accept: "inv q \<Longrightarrow> ok x \<Longrightarrow> length (content q) < capacity \<Longrightarrow>
      \<exists>q'. enq q x = Some (Inr (), q') \<and> inv q' \<and> content q' = content q @ [x]"
    and deq_empty: "inv q \<Longrightarrow> content q = [] \<Longrightarrow> deq q = Some (None, q)"
    and deq_first: "inv q \<Longrightarrow> content q = x # xs \<Longrightarrow>
      \<exists>q'. deq q = Some (Some x, q') \<and> inv q' \<and> content q' = xs"
begin

lemma enq_cases:
  assumes "inv q" and "ok x"
  obtains "length (content q) = capacity" and "enq q x = Some (Inl full, q)"
  | q' where "length (content q) < capacity" and "enq q x = Some (Inr (), q')" and "inv q'"
      and "content q' = content q @ [x]"
  using content_bound [OF assms(1)] enq_full [OF assms(1)] enq_accept [OF assms]
  by (meson le_neq_implies_less)

lemma deq_cases:
  assumes "inv q"
  obtains "content q = []" and "deq q = Some (None, q)"
  | x q' where "content q = x # content q'" and "deq q = Some (Some x, q')" and "inv q'"
  using deq_empty [OF assms] deq_first [OF assms] by (cases "content q") blast+

text \<open>No interleaving loses, duplicates or reorders a message, and none panics.\<close>

lemma run_fifo:
  assumes "inv q" and "\<And>x. Send x \<in> set ops \<Longrightarrow> ok x"
  shows "\<exists>acc del q'. queue_run enq deq q ops = Some (acc, del, q') \<and> inv q'
           \<and> content q @ acc = del @ content q'"
  using assms
proof (induction ops arbitrary: q)
  case Nil
  then show ?case by simp
next
  case (Cons op ops)
  note IH = Cons.IH
  have oks: "\<And>x. Send x \<in> set ops \<Longrightarrow> ok x" using Cons.prems(2) by simp
  show ?case
  proof (cases op)
    case (Send x)
    then have "ok x" using Cons.prems(2) by simp
    with \<open>inv q\<close> show ?thesis
    proof (cases rule: enq_cases)
      case 1
      then show ?thesis using IH [OF \<open>inv q\<close> oks] Send by auto
    next
      case (2 q')
      obtain acc del q'' where run: "queue_run enq deq q' ops = Some (acc, del, q'')"
        and "inv q''" and eq: "content q' @ acc = del @ content q''"
        using IH [OF \<open>inv q'\<close> oks] by blast
      have "content q @ (x # acc) = del @ content q''" using eq 2(4) by simp
      with run \<open>inv q''\<close> Send 2(2) show ?thesis by auto
    qed
  next
    case Recv
    from \<open>inv q\<close> show ?thesis
    proof (cases rule: deq_cases)
      case 1
      then show ?thesis using IH [OF \<open>inv q\<close> oks] Recv by auto
    next
      case (2 x q')
      obtain acc del q'' where run: "queue_run enq deq q' ops = Some (acc, del, q'')"
        and "inv q''" and eq: "content q' @ acc = del @ content q''"
        using IH [OF \<open>inv q'\<close> oks] by blast
      have "content q @ acc = (x # del) @ content q''" using eq 2(1) by simp
      with run \<open>inv q''\<close> Recv 2(2) show ?thesis by auto
    qed
  qed
qed

lemma send_recv_roundtrip:
  assumes "inv q" and "ok x" and "content q = []" and "0 < capacity"
  shows "\<exists>q'. enq q x = Some (Inr (), q') \<and> (\<exists>q''. deq q' = Some (Some x, q'') \<and> content q'' = [])"
  using enq_accept [OF assms(1,2)] deq_first assms(3,4) by (metis append_Nil list.size(3))

end

section \<open>The ring buffer implements the contract\<close>

definition spsc_inv :: "SpscChannel \<Rightarrow> bool" where
  "spsc_inv ch \<longleftrightarrow> unat (sp_head ch) < 16 \<and> unat (sp_tail ch) < 16
     \<and> length (sp_slots ch) = 16 \<and> list_all msg_wf (sp_slots ch)"

definition spsc_content :: "SpscChannel \<Rightarrow> IpcMessage list" where
  "spsc_content ch =
     map (\<lambda>i. sp_slots ch ! ((unat (sp_tail ch) + i) mod 16)) [0..<spsc_len ch]"

lemma unat_ring_next: "unat w < 16 \<Longrightarrow> unat ((w + 1) mod 16) = Suc (unat w) mod 16" for w :: u16
  by (simp add: unat_mod unat_word_ariths)

lemma spsc_len_lt: "spsc_inv ch \<Longrightarrow> spsc_len ch < 16"
  by (auto simp: spsc_inv_def spsc_len_def Let_def)

text \<open>Arithmetic modulo the sixteen slots.\<close>

lemma ring_mod: "a < 16 \<Longrightarrow> b < 16 \<Longrightarrow> (a + b) mod 16 = (if a + b < 16 then a + b else a + b - 16)"
  for a b :: nat
  by (simp add: mod_if)

lemma ring_distance:
  fixes h t :: nat
  assumes "h < 16" and "t < 16"
  shows "(t + (if t \<le> h then h - t else 16 - t + h)) mod 16 = h"
  using assms by (auto simp: ring_mod)

lemma ring_distance_unique:
  fixes h t n :: nat
  assumes "t < 16" and "n < 16" and "h = (t + n) mod 16"
  shows "(if t \<le> h then h - t else 16 - t + h) = n"
  using assms by (simp add: ring_mod split: if_splits)

lemma ring_last:
  fixes h t n :: nat
  assumes "t < 16" and "n < 16" and "h = (t + n) mod 16"
  shows "Suc h mod 16 = t \<longleftrightarrow> n = 15"
  using assms by (auto simp: ring_mod mod_Suc split: if_splits)

lemma ring_slot_unique:
  fixes t n i :: nat
  assumes "t < 16" and "i < 16" and "n < 16"
  shows "(t + i) mod 16 = (t + n) mod 16 \<longleftrightarrow> i = n"
  using assms by (auto simp: ring_mod split: if_splits)

lemma spsc_len_unique:
  assumes "spsc_inv ch" and "unat (sp_head ch) = (unat (sp_tail ch) + n) mod 16" and "n < 16"
  shows "spsc_len ch = n"
  using assms by (simp add: spsc_inv_def spsc_len_def Let_def ring_distance_unique del: One_nat_def)

lemma spsc_head_eq:
  "spsc_inv ch \<Longrightarrow> unat (sp_head ch) = (unat (sp_tail ch) + spsc_len ch) mod 16"
  using ring_distance by (simp add: spsc_inv_def spsc_len_def Let_def)

lemma spsc_len_content [simp]: "length (spsc_content ch) = spsc_len ch"
  by (simp add: spsc_content_def)

lemma nth_spsc_content:
  "i < spsc_len ch \<Longrightarrow> spsc_content ch ! i = sp_slots ch ! ((unat (sp_tail ch) + i) mod 16)"
  by (simp add: spsc_content_def)

lemma spsc_full_iff: "spsc_inv ch \<Longrightarrow> (sp_head ch + 1) mod 16 = sp_tail ch \<longleftrightarrow> spsc_len ch = 15"
proof -
  assume inv: "spsc_inv ch"
  then have lt: "unat (sp_head ch) < 16" "unat (sp_tail ch) < 16" by (auto simp: spsc_inv_def)
  have "(sp_head ch + 1) mod 16 = sp_tail ch \<longleftrightarrow> Suc (unat (sp_head ch)) mod 16 = unat (sp_tail ch)"
    using unat_ring_next [OF lt(1)] by (metis unsigned_word_eqI)
  also have "\<dots> \<longleftrightarrow> spsc_len ch = 15"
    by (rule ring_last [OF lt(2) spsc_len_lt [OF inv] spsc_head_eq [OF inv]])
  finally show ?thesis .
qed

lemma spsc_send_full:
  "spsc_inv ch \<Longrightarrow> length (spsc_content ch) = 15 \<Longrightarrow> spsc_send ch m = Some (Inl BufferFull, ch)"
  by (simp add: spsc_send_def spsc_full_iff)

lemma spsc_send_accept:
  assumes inv: "spsc_inv ch" and m: "msg_wf m" and room: "length (spsc_content ch) < 15"
  shows "\<exists>ch'. spsc_send ch m = Some (Inr (), ch') \<and> spsc_inv ch'
           \<and> spsc_content ch' = spsc_content ch @ [m]"
proof -
  let ?h = "unat (sp_head ch)" and ?t = "unat (sp_tail ch)" and ?n = "spsc_len ch"
  define ch' where "ch' = ch\<lparr>sp_slots := (sp_slots ch)[?h := m], sp_head := (sp_head ch + 1) mod 16\<rparr>"
  have lt: "?h < 16" "?t < 16" and len: "length (sp_slots ch) = 16"
    using inv by (auto simp: spsc_inv_def)
  have inv': "spsc_inv ch'"
    using inv m by (simp add: ch'_def spsc_inv_def unat_ring_next list_all_update)
  have head: "?h = (?t + ?n) mod 16" by (rule spsc_head_eq [OF inv])
  have len': "spsc_len ch' = Suc ?n"
    using inv' lt head room
    by (intro spsc_len_unique) (auto simp: ch'_def unat_ring_next mod_Suc_eq)
  have "spsc_content ch' = spsc_content ch @ [m]"
  proof (rule nth_equalityI)
    fix i assume "i < length (spsc_content ch')"
    then have i: "i < Suc ?n" by (simp add: len')
    have "(?t + i) mod 16 = ?h \<longleftrightarrow> i = ?n"
      using i room ring_slot_unique [of ?t i ?n] lt by (simp add: head)
    then show "spsc_content ch' ! i = (spsc_content ch @ [m]) ! i"
      using i len lt nth_spsc_content [of i ch'] nth_spsc_content [of i ch]
      by (auto simp: len' nth_append) (auto simp: ch'_def nth_list_update)
  qed (simp add: len')
  moreover have "spsc_send ch m = Some (Inr (), ch')"
    using room lt len by (simp add: spsc_send_def spsc_full_iff [OF inv] ch'_def)
  ultimately show ?thesis using inv' by blast
qed

lemma spsc_empty_iff: "spsc_inv ch \<Longrightarrow> sp_tail ch = sp_head ch \<longleftrightarrow> spsc_len ch = 0"
  by (auto simp: spsc_len_def Let_def spsc_inv_def dest!: unsigned_word_eqI split: if_splits)

lemma spsc_recv_empty:
  "spsc_inv ch \<Longrightarrow> spsc_content ch = [] \<Longrightarrow> spsc_recv ch = Some (None, ch)"
  using spsc_len_content [of ch] by (simp add: spsc_recv_def spsc_empty_iff)

lemma spsc_recv_first:
  assumes inv: "spsc_inv ch" and c: "spsc_content ch = m # ms"
  shows "\<exists>ch'. spsc_recv ch = Some (Some m, ch') \<and> spsc_inv ch' \<and> spsc_content ch' = ms"
proof -
  let ?h = "unat (sp_head ch)" and ?t = "unat (sp_tail ch)" and ?n = "spsc_len ch"
  define ch' where "ch' = ch\<lparr>sp_tail := (sp_tail ch + 1) mod 16\<rparr>"
  have lt: "?h < 16" "?t < 16" and len: "length (sp_slots ch) = 16"
    using inv by (auto simp: spsc_inv_def)
  have n: "?n = Suc (length ms)" using spsc_len_content [of ch] c by simp
  have inv': "spsc_inv ch'" using inv by (simp add: ch'_def spsc_inv_def unat_ring_next)
  have tail': "(unat (sp_tail ch') + k) mod 16 = (?t + Suc k) mod 16" for k
    using lt by (simp add: ch'_def unat_ring_next mod_add_left_eq)
  have len': "spsc_len ch' = length ms"
    using inv' spsc_head_eq [OF inv] spsc_len_lt [OF inv] tail' [of "length ms"]
    by (intro spsc_len_unique) (auto simp: ch'_def n)
  have "spsc_content ch' = ms"
  proof (rule nth_equalityI)
    fix i assume "i < length (spsc_content ch')"
    then have i: "i < length ms" by (simp add: len')
    then have "spsc_content ch' ! i = sp_slots ch ! ((?t + Suc i) mod 16)"
      using nth_spsc_content [of i ch'] tail' [of i] by (simp add: len') (simp add: ch'_def)
    also have "\<dots> = spsc_content ch ! Suc i"
      using i n nth_spsc_content [of "Suc i" ch] by simp
    finally show "spsc_content ch' ! i = ms ! i" by (simp add: c)
  qed (simp add: len')
  moreover have "sp_slots ch ! ?t = m"
    using nth_spsc_content [of 0 ch] n c lt by simp
  then have "spsc_recv ch = Some (Some m, ch')"
    using lt len n by (simp add: spsc_recv_def spsc_empty_iff [OF inv] ch'_def)
  ultimately show ?thesis using inv' by blast
qed

interpretation spsc: bounded_fifo spsc_inv spsc_content 15 BufferFull spsc_send spsc_recv msg_wf
proof
  show "length (spsc_content q) \<le> 15" if "spsc_inv q" for q
    using spsc_len_lt [OF that] by simp
qed (simp_all add: spsc_send_full spsc_send_accept spsc_recv_empty spsc_recv_first)

lemma spsc_new_inv [simp]: "spsc_inv spsc_new"
  by (simp add: spsc_inv_def spsc_new_def msg_zeroed_def msg_wf_def list_all_length)

lemma spsc_new_content [simp]: "spsc_content spsc_new = []"
  by (simp add: spsc_content_def spsc_new_def spsc_len_def)

section \<open>Message integrity\<close>

lemma msg_wf_set_crc [simp]: "msg_wf (set_crc m) = msg_wf m"
  by (simp add: msg_wf_def set_crc_def Let_def)

text \<open>
  A message stamped by \<open>set_crc\<close> passes \<open>verify_crc\<close>, and the stamp leaves the 60 payload
  bytes as they were.
\<close>

theorem set_crc_verify_crc:
  assumes "msg_wf m"
  shows "verify_crc (set_crc m) \<and> take 60 (msg_data (set_crc m)) = take 60 (msg_data m)"
  using assms
  by (simp add: verify_crc_def set_crc_def Let_def msg_wf_def from_le_bytes32_split
      nth_list_update)

theorem set_crc_verify_crc_witness:
  "msg_wf (msg_zeroed\<lparr>msg_data := (msg_data msg_zeroed)[0 := 0x42, 1 := 0xAB]\<rparr>) \<and>
   verify_crc (set_crc (msg_zeroed\<lparr>msg_data := (msg_data msg_zeroed)[0 := 0x42, 1 := 0xAB]\<rparr>))"
proof -
  have "msg_wf (msg_zeroed\<lparr>msg_data := (msg_data msg_zeroed)[0 := 0x42, 1 := 0xAB]\<rparr>)"
    by (simp add: msg_wf_def msg_zeroed_def)
  with set_crc_verify_crc [OF this] show ?thesis by blast
qed

text \<open>
  C30. Corruption of a message is detected: when a message that passes \<open>verify_crc\<close> is changed
  anywhere inside one window of four consecutive bytes (payload, checksum field or across the
  boundary), the changed message fails \<open>verify_crc\<close>.
\<close>

theorem verify_crc_detects_burst:
  assumes "msg_wf m" and "verify_crc m"
    and "msg_data m' = take i (msg_data m) @ xs @ drop (i + length xs) (msg_data m)"
    and "length xs \<le> 4" and "i + length xs \<le> IPC_MSG_SIZE"
    and "xs \<noteq> take (length xs) (drop i (msg_data m))"
  shows "\<not> verify_crc m'"
proof -
  let ?d = "msg_data m" and ?n = "length xs"
  let ?ys = "take ?n (drop i ?d)"
  have len: "length ?d = 64" using assms(1) by (simp add: msg_wf_def)
  have d: "?d = take i ?d @ ?ys @ drop (i + ?n) ?d"
    by (metis append_take_drop_id add.commute drop_drop)
  have wf': "msg_wf m'" using assms(3,5) len by (simp add: msg_wf_def)
  have "crc32_loop 0xFFFFFFFF (take i ?d @ xs @ drop (i + ?n) ?d)
      \<noteq> crc32_loop 0xFFFFFFFF (take i ?d @ ?ys @ drop (i + ?n) ?d)"
    using assms(4,5,6) len by (intro crc32_loop_burst) auto
  then have "crc32_loop 0xFFFFFFFF (msg_data m') \<noteq> crc32_loop 0xFFFFFFFF ?d"
    using assms(3) d by simp
  then show ?thesis
    using assms(1,2) by (simp add: verify_crc_residue wf')
qed

text \<open>The hypotheses hold for a stamped message of which the byte at offset 59 is inverted.\<close>

definition stamped_message :: IpcMessage where
  "stamped_message = set_crc (msg_zeroed\<lparr>msg_data := (msg_data msg_zeroed)[0 := 0x42]\<rparr>)"

lemma stamped_message_ok: "msg_wf stamped_message" "verify_crc stamped_message"
proof -
  have "msg_wf (msg_zeroed\<lparr>msg_data := (msg_data msg_zeroed)[0 := 0x42]\<rparr>)"
    by (simp add: msg_wf_def msg_zeroed_def)
  then show "msg_wf stamped_message" "verify_crc stamped_message"
    by (simp_all add: stamped_message_def verify_crc_def set_crc_def Let_def msg_wf_def
        from_le_bytes32_split nth_list_update)
qed

theorem verify_crc_detects_burst_witness:
  "\<not> verify_crc (stamped_message\<lparr>msg_data :=
       take 59 (msg_data stamped_message) @ [NOT (msg_data stamped_message ! 59)]
         @ drop 60 (msg_data stamped_message)\<rparr>)"
proof -
  have "take 1 (drop 59 (msg_data stamped_message)) = [msg_data stamped_message ! 59]"
    using stamped_message_ok(1) by (simp add: msg_wf_def take_Suc hd_drop_conv_nth)
  moreover have "bit (NOT b) 0 \<noteq> bit b 0" for b :: u8
    by (simp add: bit_not_iff)
  then have "NOT b \<noteq> b" for b :: u8 by metis
  ultimately show ?thesis
    using verify_crc_detects_burst [OF stamped_message_ok, of _ 59 "[NOT (msg_data stamped_message ! 59)]"]
    by simp
qed

section \<open>Channels\<close>



text \<open>
  Backpressure is exact: a send on a channel in a valid state is refused with \<open>BufferFull\<close>,
  leaving the channel untouched, precisely when \<open>is_full\<close> holds, and that is when 15 messages wait.
\<close>

theorem spsc_send_refused_iff:
  assumes "spsc_inv ch" and "msg_wf m"
  shows "(spsc_send ch m = Some (Inl BufferFull, ch) \<longleftrightarrow> spsc_is_full ch)
       \<and> (spsc_is_full ch \<longleftrightarrow> spsc_len ch = 15)"
proof -
  from assms show ?thesis
    by (cases rule: spsc.enq_cases) (auto simp: spsc_is_full_def spsc_full_iff [OF assms(1)])
qed

theorem spsc_send_refused_iff_witness:
  "(spsc_send spsc_new msg_zeroed = Some (Inl BufferFull, spsc_new) \<longleftrightarrow> spsc_is_full spsc_new)
     \<and> (spsc_is_full spsc_new \<longleftrightarrow> spsc_len spsc_new = 15)"
  by (rule spsc_send_refused_iff) (simp_all add: msg_zeroed_def msg_wf_def)

section \<open>Ownership\<close>

definition ipc_inv :: "ipc_state \<Rightarrow> bool" where
  "ipc_inv st \<longleftrightarrow> length (IPC_CHANNELS st) = MAX_IPC_CHANNELS \<and> list_all spsc_inv (IPC_CHANNELS st)
     \<and> length (CHANNEL_OWNERS st) = MAX_IPC_CHANNELS"

lemma ipc_init_inv [simp]: "ipc_inv ipc_init"
  by (simp add: ipc_inv_def ipc_init_def list_all_length)

lemma assign_channel_inv: "ipc_inv st \<Longrightarrow> ipc_inv (snd (assign_channel st ch p c))"
  by (simp add: ipc_inv_def assign_channel_def)

lemma seal_channels_inv: "ipc_inv st \<Longrightarrow> ipc_inv (seal_channels st)"
  by (simp add: ipc_inv_def seal_channels_def)

lemma assign_channel_sealed: "CHANNELS_SEALED st \<Longrightarrow> assign_channel st ch p c = (False, st)"
  by (simp add: assign_channel_def)

fun assign_all :: "ipc_state \<Rightarrow> (usize \<times> u8 \<times> u8) list \<Rightarrow> ipc_state" where
  "assign_all st [] = st"
| "assign_all st ((ch, p, c) # as) = assign_all (snd (assign_channel st ch p c)) as"

lemma assign_all_sealed: "CHANNELS_SEALED st \<Longrightarrow> assign_all st as = st"
  by (induction as) (auto simp: assign_channel_sealed)

text \<open>
  Sealing is final: after \<open>seal_channels\<close>, no sequence of assignments changes any owner, so the
  set of tasks that may send or receive on a channel is fixed.
\<close>

lemma sealed_ownership_fixed:
  "can_send (assign_all (seal_channels st) as) ch t = can_send st ch t \<and>
   can_recv (assign_all (seal_channels st) as) ch t = can_recv st ch t"
  by (simp add: assign_all_sealed seal_channels_def can_send_def can_recv_def)

text \<open>
  Single producer, single consumer, default deny: on a channel that was never assigned no task
  may send or receive; on an assigned channel exactly the named producer may send and exactly the
  named consumer may receive.
\<close>

theorem channel_access_exact:
  assumes "unat ch < MAX_IPC_CHANNELS" and "unat t < MAX_TASKS"
  shows "\<not> can_send ipc_init ch t \<and> \<not> can_recv ipc_init ch t
     \<and> (length (CHANNEL_OWNERS st) = MAX_IPC_CHANNELS \<longrightarrow> assign_channel st ch p c = (True, st')
        \<longrightarrow> (can_send st' ch t \<longleftrightarrow> t = p) \<and> (can_recv st' ch t \<longleftrightarrow> t = c))"
proof -
  have "t \<noteq> 0xFF" using assms(2) by auto
  then show ?thesis
    using assms(1)
    by (auto simp: can_send_def can_recv_def ipc_init_def assign_channel_def split: if_splits)
qed

theorem channel_access_exact_witness:
  "\<not> can_send ipc_init 2 3 \<and> \<not> can_recv ipc_init 2 3
     \<and> \<not> can_send (snd (assign_channel ipc_init 2 2 3)) 2 3
     \<and> can_recv (snd (assign_channel ipc_init 2 2 3)) 2 3"
proof -
  have "length (CHANNEL_OWNERS ipc_init) = MAX_IPC_CHANNELS"
    by (simp add: ipc_init_def)
  moreover have "assign_channel ipc_init 2 2 3 = (True, snd (assign_channel ipc_init 2 2 3))"
    by (simp add: assign_channel_def ipc_init_def)
  ultimately show ?thesis
    using channel_access_exact [of 2 3 ipc_init 2 3 "snd (assign_channel ipc_init 2 2 3)"] by simp
qed

end
