(* ===== verification/Blackbox.thy ===== *)
theory Blackbox
  imports Ipc
begin

text \<open>
  The flight recorder, \<open>src/ipc/blackbox.rs\<close>: 64-byte records protected by CRC32 in a circular
  buffer of 128 slots, the tick counter and the boot epoch. The locale \<open>ring_log\<close> is the contract
  of a log that keeps its most recent entries.
\<close>

section \<open>Records\<close>

datatype BlackboxEvent =
    KernelBoot | TaskStart | TaskSuspend | TaskRestart | BudgetExhaustedEv | PolicyIsolate
  | PolicyDegrade | PolicyFailover | PolicyShutdown | CapViolationEv | IopmpViolationEv
  | DeadlineMissEv | WatchdogTimeoutEv | PmpFail | LockstepFail

fun event_code :: "BlackboxEvent \<Rightarrow> u8" where
  "event_code KernelBoot = 0"
| "event_code TaskStart = 1"
| "event_code TaskSuspend = 2"
| "event_code TaskRestart = 3"
| "event_code BudgetExhaustedEv = 4"
| "event_code PolicyIsolate = 5"
| "event_code PolicyDegrade = 6"
| "event_code PolicyFailover = 7"
| "event_code PolicyShutdown = 8"
| "event_code CapViolationEv = 9"
| "event_code IopmpViolationEv = 10"
| "event_code DeadlineMissEv = 11"
| "event_code WatchdogTimeoutEv = 12"
| "event_code PmpFail = 13"
| "event_code LockstepFail = 14"

record BlackboxRecord =
  rec_magic :: "u8 list"
  rec_version :: u16
  rec_pad :: "u8 list"
  rec_seq :: u32
  rec_timestamp :: u32
  rec_task_id :: u8
  rec_event :: u8
  rec_data :: "u8 list"
  rec_crc :: u32

definition BB_MAGIC :: "u8 list" where
  "BB_MAGIC = [0x53, 0x50, 0x48, 0x49]"

definition RECORD_VERSION :: u16 where
  "RECORD_VERSION = 1"

definition rec_zeroed :: BlackboxRecord where
  "rec_zeroed = \<lparr>rec_magic = [0, 0, 0, 0], rec_version = 0, rec_pad = [0, 0], rec_seq = 0,
     rec_timestamp = 0, rec_task_id = 0, rec_event = 0,
     rec_data = replicate BLACKBOX_DATA_SIZE 0, rec_crc = 0\<rparr>"

text \<open>
  The first 60 bytes of the \<open>repr(C)\<close> layout on the little-endian target, at the offsets the
  source documents.
\<close>

definition rec_bytes :: "BlackboxRecord \<Rightarrow> u8 list" where
  "rec_bytes r = rec_magic r @ le_bytes16 (rec_version r) @ rec_pad r @ le_bytes32 (rec_seq r)
     @ le_bytes32 (rec_timestamp r) @ [rec_task_id r, rec_event r] @ rec_data r"

definition rec_set_crc :: "BlackboxRecord \<Rightarrow> BlackboxRecord" where
  "rec_set_crc r = r\<lparr>rec_crc := crc32 (take 60 (rec_bytes r))\<rparr>"

definition rec_verify_crc :: "BlackboxRecord \<Rightarrow> bool" where
  "rec_verify_crc r \<longleftrightarrow> rec_crc r = crc32 (take 60 (rec_bytes r))"

definition rec_is_valid :: "BlackboxRecord \<Rightarrow> bool" where
  "rec_is_valid r \<longleftrightarrow> rec_magic r = BB_MAGIC \<and> rec_version r = RECORD_VERSION \<and> rec_verify_crc r"

section \<open>State and operations\<close>

record blackbox =
  BB_BUFFER :: "BlackboxRecord list"
  BB_WRITE_POS :: u8
  BB_NEXT_SEQ :: u32
  BB_TICK :: u32
  BB_BOOT_EPOCH :: u16
  BB_COUNT :: u8

text \<open>\<open>log\<close>: copies at most 42 bytes of data, zero-padded, stamps the CRC last.\<close>

definition bb_record :: "blackbox \<Rightarrow> BlackboxEvent \<Rightarrow> u8 \<Rightarrow> u8 list \<Rightarrow> BlackboxRecord" where
  "bb_record bb ev task data =
     (let n = min (length data) BLACKBOX_DATA_SIZE
      in rec_set_crc (rec_zeroed\<lparr>rec_magic := BB_MAGIC, rec_version := RECORD_VERSION,
           rec_seq := BB_NEXT_SEQ bb, rec_timestamp := BB_TICK bb, rec_task_id := task,
           rec_event := event_code ev,
           rec_data := take n data @ drop n (rec_data rec_zeroed)\<rparr>))"

definition bb_log :: "blackbox \<Rightarrow> BlackboxEvent \<Rightarrow> u8 \<Rightarrow> u8 list \<Rightarrow> blackbox" where
  "bb_log bb ev task data =
     (let pos = unat (BB_WRITE_POS bb)
      in if BLACKBOX_MAX_RECORDS \<le> pos then bb\<lparr>BB_WRITE_POS := 0\<rparr>
         else bb\<lparr>BB_BUFFER := (BB_BUFFER bb)[pos := bb_record bb ev task data],
                 BB_WRITE_POS := (if BLACKBOX_MAX_RECORDS \<le> pos + 1 then 0 else of_nat (pos + 1)),
                 BB_NEXT_SEQ := BB_NEXT_SEQ bb + 1,
                 BB_COUNT := (if unat (BB_COUNT bb) < BLACKBOX_MAX_RECORDS
                              then BB_COUNT bb + 1 else BB_COUNT bb)\<rparr>)"

definition bb_init :: "blackbox \<Rightarrow> blackbox" where
  "bb_init bb =
     bb_log (bb\<lparr>BB_BUFFER := replicate BLACKBOX_MAX_RECORDS rec_zeroed, BB_COUNT := 0,
               BB_WRITE_POS := 0, BB_NEXT_SEQ := 0, BB_TICK := 0, BB_BOOT_EPOCH := 0\<rparr>)
            KernelBoot SYSTEM_TASK_ID []"

definition bb_advance_tick :: "blackbox \<Rightarrow> blackbox" where
  "bb_advance_tick bb =
     (let t = BB_TICK bb; next = t + 1
      in if next < t then bb\<lparr>BB_BOOT_EPOCH := BB_BOOT_EPOCH bb + 1, BB_TICK := next\<rparr>
         else bb\<lparr>BB_TICK := next\<rparr>)"

definition bb_read :: "blackbox \<Rightarrow> nat \<Rightarrow> BlackboxRecord option" where
  "bb_read bb index =
     (let c = unat (BB_COUNT bb)
      in if c \<le> index then None
         else let wp = unat (BB_WRITE_POS bb);
                  start = (if c < BLACKBOX_MAX_RECORDS then 0 else wp);
                  actual = (start + index) mod BLACKBOX_MAX_RECORDS;
                  r = BB_BUFFER bb ! actual
              in if rec_is_valid r then Some r else None)"

definition bb_count :: "blackbox \<Rightarrow> nat" where
  "bb_count bb = unat (BB_COUNT bb)"

definition bb_get_tick :: "blackbox \<Rightarrow> u64" where
  "bb_get_tick bb = push_bit 32 (ucast (BB_BOOT_EPOCH bb)) OR ucast (BB_TICK bb)"

definition bb_current_tick :: "blackbox \<Rightarrow> u32" where
  "bb_current_tick bb = BB_TICK bb"

text \<open>The statics before \<open>init\<close> runs.\<close>

definition bb_zero :: blackbox where
  "bb_zero = \<lparr>BB_BUFFER = replicate BLACKBOX_MAX_RECORDS rec_zeroed, BB_WRITE_POS = 0,
     BB_NEXT_SEQ = 0, BB_TICK = 0, BB_BOOT_EPOCH = 0, BB_COUNT = 0\<rparr>"

section \<open>The contract of a log that keeps its latest entries\<close>

fun append_all :: "('l \<Rightarrow> 'e \<Rightarrow> 'l) \<Rightarrow> 'l \<Rightarrow> 'e list \<Rightarrow> 'l" where
  "append_all app l [] = l"
| "append_all app l (e # es) = append_all app (app l e) es"

fun history :: "('l \<Rightarrow> 'e \<Rightarrow> 'l) \<Rightarrow> ('l \<Rightarrow> 'e \<Rightarrow> 'r) \<Rightarrow> 'l \<Rightarrow> 'e list \<Rightarrow> 'r list" where
  "history app rcd l [] = []"
| "history app rcd l (e # es) = rcd l e # history app rcd (app l e) es"

definition last_n :: "nat \<Rightarrow> 'a list \<Rightarrow> 'a list" where
  "last_n n xs = drop (length xs - n) xs"

lemma last_n_short: "length xs \<le> n \<Longrightarrow> last_n n xs = xs"
  by (simp add: last_n_def)

lemma last_n_step: "last_n n (last_n n (xs @ [y]) @ zs) = last_n n (xs @ y # zs)"
  by (auto simp: last_n_def drop_Cons' split: nat_diff_split)

lemma length_history [simp]: "length (history app rcd l es) = length es"
  by (induction es arbitrary: l) auto

locale ring_log =
  fixes inv :: "'l \<Rightarrow> bool"
    and entries :: "'l \<Rightarrow> 'r list"
    and capacity :: nat
    and app :: "'l \<Rightarrow> 'e \<Rightarrow> 'l"
    and rcd :: "'l \<Rightarrow> 'e \<Rightarrow> 'r"
  assumes entries_bound: "inv l \<Longrightarrow> length (entries l) \<le> capacity"
    and app_inv: "inv l \<Longrightarrow> inv (app l e)"
    and app_entries: "inv l \<Longrightarrow> entries (app l e) = last_n capacity (entries l @ [rcd l e])"
begin

lemma append_all_inv: "inv l \<Longrightarrow> inv (append_all app l es)"
  by (induction es arbitrary: l) (auto simp: app_inv)

lemma append_all_entries:
  "inv l \<Longrightarrow> entries (append_all app l es) = last_n capacity (entries l @ history app rcd l es)"
proof (induction es arbitrary: l)
  case Nil
  then show ?case by (simp add: last_n_short entries_bound)
next
  case (Cons e es)
  then show ?case by (simp add: app_inv app_entries last_n_step)
qed

end

section \<open>The recorder implements it\<close>

definition bb_inv :: "blackbox \<Rightarrow> bool" where
  "bb_inv bb \<longleftrightarrow> length (BB_BUFFER bb) = 128 \<and> unat (BB_WRITE_POS bb) < 128
     \<and> unat (BB_COUNT bb) \<le> 128
     \<and> (unat (BB_COUNT bb) < 128 \<longrightarrow> BB_WRITE_POS bb = BB_COUNT bb)"

definition bb_start :: "blackbox \<Rightarrow> nat" where
  "bb_start bb = (if unat (BB_COUNT bb) < 128 then 0 else unat (BB_WRITE_POS bb))"

text \<open>The records from the oldest to the newest.\<close>

definition bb_entries :: "blackbox \<Rightarrow> BlackboxRecord list" where
  "bb_entries bb = map (\<lambda>i. BB_BUFFER bb ! ((bb_start bb + i) mod 128)) [0..<bb_count bb]"

type_synonym bb_entry = "BlackboxEvent \<times> u8 \<times> u8 list"

fun bb_app :: "blackbox \<Rightarrow> bb_entry \<Rightarrow> blackbox" where
  "bb_app bb (ev, task, data) = bb_log bb ev task data"

fun bb_rcd :: "blackbox \<Rightarrow> bb_entry \<Rightarrow> BlackboxRecord" where
  "bb_rcd bb (ev, task, data) = bb_record bb ev task data"

lemma bb_inv_zero [simp]: "bb_inv bb_zero"
  by (simp add: bb_inv_def bb_zero_def)

lemma bb_log_inv: "bb_inv bb \<Longrightarrow> bb_inv (bb_log bb ev t d)"
  by (auto simp: bb_inv_def bb_log_def Let_def unat_word_ariths unat_of_nat word_unat_eq_iff)

lemma bb_advance_tick_inv: "bb_inv (bb_advance_tick bb) = bb_inv bb"
  by (simp add: bb_inv_def bb_advance_tick_def Let_def)

lemma nth_bb_entries:
  "i < bb_count bb \<Longrightarrow> bb_entries bb ! i = BB_BUFFER bb ! ((bb_start bb + i) mod 128)"
  by (simp add: bb_entries_def)

lemma length_bb_entries [simp]: "length (bb_entries bb) = bb_count bb"
  by (simp add: bb_entries_def)

lemma bb_log_fields:
  assumes "bb_inv bb"
  shows "BB_BUFFER (bb_log bb ev t d) = (BB_BUFFER bb)[unat (BB_WRITE_POS bb) := bb_record bb ev t d]"
    and "unat (BB_WRITE_POS (bb_log bb ev t d)) = Suc (unat (BB_WRITE_POS bb)) mod 128"
    and "bb_count (bb_log bb ev t d) = min 128 (Suc (bb_count bb))"
    and "BB_NEXT_SEQ (bb_log bb ev t d) = BB_NEXT_SEQ bb + 1"
    and "BB_TICK (bb_log bb ev t d) = BB_TICK bb"
    and "BB_BOOT_EPOCH (bb_log bb ev t d) = BB_BOOT_EPOCH bb"
proof -
  have "unat (BB_COUNT bb + 1) = Suc (unat (BB_COUNT bb))" if "unat (BB_COUNT bb) < 128"
    using that by (simp add: unat_word_ariths)
  then show "bb_count (bb_log bb ev t d) = min 128 (Suc (bb_count bb))"
    using assms by (auto simp: bb_inv_def bb_log_def bb_count_def Let_def)
  have "unat (of_nat (Suc n) :: u8) = Suc n" if "Suc n < 128" for n
    using that by (simp add: unat_of_nat del: of_nat_Suc)
  then show "unat (BB_WRITE_POS (bb_log bb ev t d)) = Suc (unat (BB_WRITE_POS bb)) mod 128"
    using assms by (auto simp: bb_inv_def bb_log_def Let_def mod_Suc simp del: of_nat_Suc)
qed (use assms in \<open>auto simp: bb_inv_def bb_log_def Let_def\<close>)

lemma ring_slot_unique128:
  fixes t i n :: nat
  assumes "t < 128" and "i < 128" and "n < 128"
  shows "(t + i) mod 128 = (t + n) mod 128 \<longleftrightarrow> i = n"
  using assms by (auto simp: mod_if split: if_splits)

lemma bb_log_entries:
  assumes inv: "bb_inv bb"
  shows "bb_entries (bb_log bb ev t d) = last_n 128 (bb_entries bb @ [bb_record bb ev t d])"
proof (cases "bb_count bb < 128")
  case True
  let ?bb = "bb_log bb ev t d" and ?n = "bb_count bb"
  have pos: "unat (BB_WRITE_POS bb) = ?n" and len: "length (BB_BUFFER bb) = 128"
    using inv True by (auto simp: bb_inv_def bb_count_def)
  have n': "bb_count ?bb = Suc ?n" using True by (simp add: bb_log_fields [OF inv])
  have start: "bb_start ?bb = 0" "bb_start bb = 0"
    using True bb_log_fields(2) [OF inv, of ev t d] n' pos
    by (auto simp: bb_start_def bb_count_def mod_Suc)
  have "bb_entries ?bb = bb_entries bb @ [bb_record bb ev t d]"
  proof (rule nth_equalityI)
    fix i assume "i < length (bb_entries ?bb)"
    then have i: "i < Suc ?n" by (simp add: n')
    then show "bb_entries ?bb ! i = (bb_entries bb @ [bb_record bb ev t d]) ! i"
      using True len pos
      by (auto simp: nth_bb_entries n' start bb_log_fields [OF inv] nth_append less_Suc_eq)
  qed (simp add: n')
  then show ?thesis using True by (simp add: last_n_short)
next
  case False
  let ?bb = "bb_log bb ev t d" and ?p = "unat (BB_WRITE_POS bb)"
  have n: "bb_count bb = 128" and p: "?p < 128" and len: "length (BB_BUFFER bb) = 128"
    using inv False by (auto simp: bb_inv_def bb_count_def)
  have n': "bb_count ?bb = 128" by (simp add: bb_log_fields [OF inv] n)
  have start: "bb_start ?bb = Suc ?p mod 128" "bb_start bb = ?p"
    using n n' by (simp_all add: bb_start_def bb_count_def bb_log_fields [OF inv])
  have "bb_entries ?bb = tl (bb_entries bb) @ [bb_record bb ev t d]"
  proof (rule nth_equalityI)
    fix i assume "i < length (bb_entries ?bb)"
    then have i: "i < 128" by (simp add: n')
    have "(Suc ?p mod 128 + i) mod 128 = (?p + Suc i) mod 128"
      by (simp add: mod_add_left_eq)
    moreover have "(?p + Suc i) mod 128 = ?p \<longleftrightarrow> i = 127"
      using i p ring_slot_unique128 [of ?p "Suc i mod 128" 0] by (auto simp: mod_if split: if_splits)
    ultimately show "bb_entries ?bb ! i = (tl (bb_entries bb) @ [bb_record bb ev t d]) ! i"
      using i len p
      by (auto simp: nth_bb_entries n' n start bb_log_fields [OF inv] nth_append nth_tl nth_list_update)
  qed (simp add: n' n)
  then show ?thesis by (simp add: last_n_def n drop_Suc)
qed

interpretation recorder: ring_log bb_inv bb_entries 128 bb_app bb_rcd
proof
  show "length (bb_entries l) \<le> 128" if "bb_inv l" for l
    using that by (simp add: bb_inv_def bb_count_def)
  show "bb_inv (bb_app l e)" if "bb_inv l" for l e
    using that by (cases e) (simp add: bb_log_inv)
  show "bb_entries (bb_app l e) = last_n 128 (bb_entries l @ [bb_rcd l e])" if "bb_inv l" for l e
    using that by (cases e) (simp add: bb_log_entries)
qed

lemma bb_record_valid: "rec_is_valid (bb_record bb ev t d)"
  by (simp add: bb_record_def rec_is_valid_def rec_set_crc_def rec_verify_crc_def rec_bytes_def Let_def)

lemma history_valid: "list_all rec_is_valid (history bb_app bb_rcd bb es)"
proof (induction es arbitrary: bb)
  case (Cons e es)
  then show ?case by (cases e) (simp add: bb_record_valid)
qed simp

lemma bb_read_entries:
  assumes "bb_inv bb" and "list_all rec_is_valid (bb_entries bb)"
  shows "bb_read bb i = (if i < bb_count bb then Some (bb_entries bb ! i) else None)"
proof (cases "i < bb_count bb")
  case True
  then have "rec_is_valid (bb_entries bb ! i)"
    using assms(2) by (simp add: list_all_length)
  then show ?thesis
    using True nth_bb_entries [OF True]
    by (simp add: bb_read_def bb_count_def bb_start_def Let_def)
qed (simp add: bb_read_def bb_count_def)

lemma list_all_last_n: "list_all P xs \<Longrightarrow> list_all P (last_n n xs)"
  by (auto simp: last_n_def list_all_iff dest: in_set_dropD)

lemma last_n_nth: "i < min n (length xs) \<Longrightarrow> last_n n xs ! i = xs ! (length xs - min n (length xs) + i)"
  by (auto simp: last_n_def min_def)

lemma length_last_n [simp]: "length (last_n n xs) = min n (length xs)"
  by (auto simp: last_n_def)

text \<open>
  C29. The flight recorder keeps the latest 128 events: starting from the empty recorder, after any
  sequence of logged events \<open>read(i)\<close> returns, for each \<open>i\<close> below the count, the record of the
  \<open>i\<close>-th oldest of the last 128 events, intact (magic, version and CRC valid), and nothing beyond.
\<close>

theorem blackbox_reads_last_events:
  defines "h \<equiv> \<lambda>es. history bb_app bb_rcd bb_zero es"
  shows "bb_read (append_all bb_app bb_zero es) i =
           (if i < min 128 (length es)
            then Some (h es ! (length es - min 128 (length es) + i)) else None)"
proof -
  let ?bb = "append_all bb_app bb_zero es"
  have zero: "bb_entries bb_zero = []" by (simp add: bb_entries_def bb_count_def bb_zero_def)
  have inv: "bb_inv ?bb" by (rule recorder.append_all_inv) simp
  have ent: "bb_entries ?bb = last_n 128 (h es)"
    using recorder.append_all_entries [of bb_zero es] zero by (simp add: h_def)
  have "list_all rec_is_valid (bb_entries ?bb)"
    unfolding ent h_def by (intro list_all_last_n history_valid)
  note rd = bb_read_entries [OF inv this, of i]
  have cnt: "bb_count ?bb = min 128 (length es)"
    using length_bb_entries [of ?bb] ent by (simp add: h_def)
  show ?thesis
    using last_n_nth [of i 128 "h es"] by (simp add: rd cnt ent) (simp add: h_def)
qed

section \<open>Sequence numbers and time\<close>

lemma history_seq:
  "bb_inv bb \<Longrightarrow> i < length es \<Longrightarrow> rec_seq (history bb_app bb_rcd bb es ! i) = BB_NEXT_SEQ bb + of_nat i"
proof (induction es arbitrary: bb i)
  case (Cons e es)
  obtain ev t d where e: "e = (ev, t, d)" by (cases e)
  show ?case
  proof (cases i)
    case 0
    then show ?thesis by (simp add: e bb_record_def rec_set_crc_def Let_def)
  next
    case (Suc j)
    then show ?thesis
      using Cons.IH [of "bb_log bb ev t d" j] Cons.prems
      by (simp add: e bb_log_inv bb_log_fields)
  qed
qed simp

text \<open>
  Sequence numbers have no gap: the records an event sequence produces carry consecutive 32-bit
  sequence numbers, starting from the recorder's next number (wrapping after \<open>u32::MAX\<close>).
\<close>

lemma blackbox_seq_consecutive:
  assumes "bb_inv bb" and "Suc i < length es"
  shows "rec_seq (history bb_app bb_rcd bb es ! Suc i) = rec_seq (history bb_app bb_rcd bb es ! i) + 1"
  using history_seq [OF assms(1), of "Suc i" es] history_seq [OF assms(1), of i es] assms(2)
  by (simp add: ac_simps)

lemma blackbox_seq_consecutive_witness:
  "rec_seq (history bb_app bb_rcd bb_zero [(KernelBoot, 255, []), (PmpFail, 2, [1])] ! Suc 0)
     = rec_seq (history bb_app bb_rcd bb_zero [(KernelBoot, 255, []), (PmpFail, 2, [1])] ! 0) + 1"
  by (rule blackbox_seq_consecutive) simp_all

lemma unat_bb_get_tick:
  "unat (bb_get_tick bb) = unat (BB_BOOT_EPOCH bb) * 2 ^ 32 + unat (BB_TICK bb)"
proof -
  have "push_bit 32 (ucast (BB_BOOT_EPOCH bb) :: u64) AND ucast (BB_TICK bb) = 0"
    by (rule bit_word_eqI) (auto simp: bit_simps dest: bit_imp_le_length)
  then have "bb_get_tick bb = push_bit 32 (ucast (BB_BOOT_EPOCH bb)) + ucast (BB_TICK bb)"
    by (simp add: bb_get_tick_def disjunctive_add_eq_or)
  moreover have "unat (push_bit 32 (ucast (BB_BOOT_EPOCH bb) :: u64)) = unat (BB_BOOT_EPOCH bb) * 2 ^ 32"
    using unat_less [of "BB_BOOT_EPOCH bb"]
    by (simp add: push_bit_eq_mult unat_word_ariths unsigned_ucast_eq take_bit_nat_eq_self)
  ultimately show ?thesis
    using unat_less [of "BB_BOOT_EPOCH bb"] unat_less [of "BB_TICK bb"]
    by (simp add: unat_word_ariths unsigned_ucast_eq take_bit_nat_eq_self)
qed

text \<open>
  The kernel clock never jumps: \<open>advance_tick\<close> adds one to the composite time \<open>get_tick\<close> reads,
  across the wrap-around of the 32-bit tick into the epoch; only after \<open>2 ^ 48\<close> ticks does it restart.
\<close>

lemma advance_tick_increments:
  "unat (bb_get_tick (bb_advance_tick bb)) = Suc (unat (bb_get_tick bb)) mod 2 ^ 48"
proof -
  let ?t = "BB_TICK bb" and ?e = "BB_BOOT_EPOCH bb"
  have t: "unat ?t < 2 ^ 32" and e: "unat ?e < 2 ^ 16"
    using unat_less [of ?t] unat_less [of ?e] by simp_all
  have t1: "unat (?t + 1) = Suc (unat ?t) mod 2 ^ 32" and e1: "unat (?e + 1) = Suc (unat ?e) mod 2 ^ 16"
    by (simp_all add: unat_Suc_mod)
  show ?thesis
  proof (cases "unat ?t = 2 ^ 32 - 1")
    case True
    then have "unat (?t + 1) = 0" using t1 by simp
    then have "bb_advance_tick bb = bb\<lparr>BB_BOOT_EPOCH := ?e + 1, BB_TICK := ?t + 1\<rparr>"
      using True by (simp add: bb_advance_tick_def Let_def word_less_nat_alt)
    then have "unat (bb_get_tick (bb_advance_tick bb)) = unat (?e + 1) * 2 ^ 32"
      using \<open>unat (?t + 1) = 0\<close> by (simp add: unat_bb_get_tick)
    also have "\<dots> = Suc (unat ?e * 2 ^ 32 + unat ?t) mod 2 ^ 48"
      using e True unfolding e1 by (simp add: mod_if)
    finally show ?thesis by (simp add: unat_bb_get_tick)
  next
    case False
    then have "unat (?t + 1) = Suc (unat ?t)" using t t1 by simp
    then have "bb_advance_tick bb = bb\<lparr>BB_TICK := ?t + 1\<rparr>"
      by (simp add: bb_advance_tick_def Let_def word_less_nat_alt)
    then show ?thesis
      using \<open>unat (?t + 1) = Suc (unat ?t)\<close> False t e by (simp add: unat_bb_get_tick)
  qed
qed

end
