(* ===== verification/Capability.thy ===== *)
theory Capability
  imports Blackbox
begin

text \<open>
  Capabilities, \<open>src/kernel/capability/\<close>: the 32-byte token and its authenticated header, the
  four-slot token cache, the broker that validates tokens against a keyed hash, and the static
  local capability table generated from the manifest. The keyed hash (BLAKE3, an external crate) is
  an argument of the definitions that call it.
\<close>

section \<open>Tokens (token.rs)\<close>

abbreviation (input) ACTION_READ :: u8 where "ACTION_READ \<equiv> 0x01"
abbreviation (input) ACTION_WRITE :: u8 where "ACTION_WRITE \<equiv> 0x02"
abbreviation (input) ACTION_EXECUTE :: u8 where "ACTION_EXECUTE \<equiv> 0x04"
abbreviation (input) ACTION_ALL :: u8 where "ACTION_ALL \<equiv> 0x07"

record Token =
  tok_id :: u8
  tok_task_id :: u8
  tok_resource :: u16
  tok_action :: u8
  tok_dal :: u8
  tok_pad :: "u8 list"
  tok_expires :: u32
  tok_nonce :: u32
  tok_mac :: "u8 list"

definition tok_zeroed :: Token where
  "tok_zeroed = \<lparr>tok_id = 0, tok_task_id = 0, tok_resource = 0, tok_action = 0, tok_dal = 0,
     tok_pad = [0, 0], tok_expires = 0, tok_nonce = 0, tok_mac = replicate 16 0\<rparr>"

definition header_bytes :: "Token \<Rightarrow> u8 list" where
  "header_bytes t =
     [tok_id t, tok_task_id t, ucast (tok_resource t), ucast (drop_bit 8 (tok_resource t)),
      tok_action t, tok_dal t, 0, 0,
      ucast (tok_expires t), ucast (drop_bit 8 (tok_expires t)),
      ucast (drop_bit 16 (tok_expires t)), ucast (drop_bit 24 (tok_expires t)),
      ucast (tok_nonce t), ucast (drop_bit 8 (tok_nonce t)),
      ucast (drop_bit 16 (tok_nonce t)), ucast (drop_bit 24 (tok_nonce t))]"

section \<open>Token cache (cache.rs)\<close>

abbreviation (input) CACHE_SLOTS :: nat where "CACHE_SLOTS \<equiv> 4"

record CacheEntry =
  ce_valid :: bool
  ce_owner_task_id :: u8
  ce_token_id :: u8
  ce_resource :: u16
  ce_action :: u8
  ce_expires :: u32

definition ce_empty :: CacheEntry where
  "ce_empty = \<lparr>ce_valid = False, ce_owner_task_id = 0, ce_token_id = 0, ce_resource = 0,
     ce_action = 0, ce_expires = 0\<rparr>"

record TokenCache =
  tc_entries :: "CacheEntry list"
  tc_next_slot :: u8

definition cache_new :: TokenCache where
  "cache_new = \<lparr>tc_entries = replicate CACHE_SLOTS ce_empty, tc_next_slot = 0\<rparr>"

text \<open>
  The lookup is branch-free: every slot contributes a 0/1 byte, accumulated by bitwise or. \<open>now\<close>
  is the value of \<open>blackbox::get_tick\<close>, read once before the loop.
\<close>

definition cache_hit :: "u64 \<Rightarrow> u8 \<Rightarrow> u8 \<Rightarrow> u16 \<Rightarrow> u8 \<Rightarrow> CacheEntry \<Rightarrow> u8" where
  "cache_hit now task_id token_id resource action e =
     (let expires = (ucast (ce_expires e) :: u64);
          is_infinite = (of_bool (expires = 0) :: u8);
          not_expired = (of_bool (now \<le> expires) :: u8);
          expiry_ok = is_infinite OR not_expired
      in of_bool (ce_valid e) AND of_bool (ce_owner_task_id e = task_id)
         AND of_bool (ce_token_id e = token_id) AND of_bool (ce_resource e = resource)
         AND of_bool (ce_action e = action) AND expiry_ok)"

definition cache_lookup :: "TokenCache \<Rightarrow> u64 \<Rightarrow> u8 \<Rightarrow> u8 \<Rightarrow> u16 \<Rightarrow> u8 \<Rightarrow> bool" where
  "cache_lookup c now task_id token_id resource action \<longleftrightarrow>
     fold (\<lambda>e found. found OR cache_hit now task_id token_id resource action e) (tc_entries c) 0 \<noteq> 0"

definition cache_insert :: "TokenCache \<Rightarrow> u8 \<Rightarrow> u8 \<Rightarrow> u16 \<Rightarrow> u8 \<Rightarrow> u32 \<Rightarrow> TokenCache" where
  "cache_insert c task_id token_id resource action expires =
     (let slot = unat (tc_next_slot c) mod CACHE_SLOTS
      in c\<lparr>tc_entries := (tc_entries c)[slot :=
              \<lparr>ce_valid = True, ce_owner_task_id = task_id, ce_token_id = token_id,
               ce_resource = resource, ce_action = action, ce_expires = expires\<rparr>],
           tc_next_slot := tc_next_slot c + 1\<rparr>)"

definition invalidate_by_token :: "TokenCache \<Rightarrow> u8 \<Rightarrow> TokenCache" where
  "invalidate_by_token c token_id =
     c\<lparr>tc_entries := map (\<lambda>e. if ce_token_id e = token_id then ce_empty else e) (tc_entries c)\<rparr>"

definition invalidate_all :: "TokenCache \<Rightarrow> TokenCache" where
  "invalidate_all c = c\<lparr>tc_entries := map (\<lambda>e. ce_empty) (tc_entries c)\<rparr>"

definition invalidate_by_owner :: "TokenCache \<Rightarrow> u8 \<Rightarrow> TokenCache" where
  "invalidate_by_owner c owner =
     c\<lparr>tc_entries := map (\<lambda>e. if ce_owner_task_id e = owner then ce_empty else e) (tc_entries c)\<rparr>"

section \<open>Broker (broker.rs)\<close>

record broker =
  MAC_KEY :: "u8 list"
  KEY_READY :: bool
  LAST_NONCE :: "u32 list"
  TOKEN_CACHE :: TokenCache

definition broker_init :: broker where
  "broker_init = \<lparr>MAC_KEY = replicate 32 0, KEY_READY = False, LAST_NONCE = replicate MAX_TASKS 0,
     TOKEN_CACHE = cache_new\<rparr>"

text \<open>The number of distinct bytes of a key, as the production build counts them.\<close>

definition distinct_bytes :: "u8 list \<Rightarrow> u8" where
  "distinct_bytes key =
     (let seen = fold (\<lambda>b s. s[unat b := True]) key (replicate 256 False)
      in fold (\<lambda>x d. if x then saturating_add d 1 else d) seen 0)"

text \<open>\<open>otp\<close> is the cargo feature \<open>production-otp\<close>, which adds the entropy check.\<close>

definition provision_key :: "bool \<Rightarrow> u8 list \<Rightarrow> broker \<Rightarrow> broker" where
  "provision_key otp key b =
     (if list_all (\<lambda>x. x = 0) key then b
      else if otp \<and> distinct_bytes key < 8 then b
      else if \<not> KEY_READY b
      then b\<lparr>MAC_KEY := key, TOKEN_CACHE := invalidate_all (TOKEN_CACHE b), KEY_READY := True\<rparr>
      else b)"

definition is_nonce_valid :: "u32 \<Rightarrow> u32 \<Rightarrow> bool" where
  "is_nonce_valid token_nonce last_nonce \<longleftrightarrow> last_nonce < token_nonce"

definition is_not_expired :: "u32 \<Rightarrow> u64 \<Rightarrow> bool" where
  "is_not_expired token_expires current_tick =
     (if token_expires = 0 then True else current_tick \<le> ucast token_expires)"

definition is_task_id_valid :: "u8 \<Rightarrow> nat \<Rightarrow> bool" where
  "is_task_id_valid task_id max_tasks \<longleftrightarrow> unat task_id < max_tasks"

definition token_owner_matches :: "u8 \<Rightarrow> u8 \<Rightarrow> bool" where
  "token_owner_matches token_task caller \<longleftrightarrow> token_task = caller"

definition ct_eq_16 :: "u8 list \<Rightarrow> u8 list \<Rightarrow> bool" where
  "ct_eq_16 a b \<longleftrightarrow> fold (\<lambda>i diff. diff OR (a ! i XOR b ! i)) [0..<16] 0 = 0"

definition validate_cached :: "broker \<Rightarrow> u64 \<Rightarrow> u8 \<Rightarrow> u8 \<Rightarrow> u16 \<Rightarrow> u8 \<Rightarrow> bool" where
  "validate_cached b now caller token_id resource action =
     cache_lookup (TOKEN_CACHE b) now caller token_id resource action"

type_synonym keyed_hash = "u8 list \<Rightarrow> u8 list \<Rightarrow> u8 list"

text \<open>\<open>Blake3Provider\<close>: the first 16 bytes of the keyed BLAKE3 hash, whose function is the argument.\<close>

definition blake3_keyed_hash :: "(u8 list \<Rightarrow> u8 list \<Rightarrow> u8 list) \<Rightarrow> keyed_hash" where
  "blake3_keyed_hash blake3 key data =
     (let bytes = blake3 key data in fold (\<lambda>i result. result[i := bytes ! i]) [0..<16] (replicate 16 0))"

definition validate_full :: "keyed_hash \<Rightarrow> u64 \<Rightarrow> Token \<Rightarrow> u8 \<Rightarrow> broker \<Rightarrow> bool \<times> broker" where
  "validate_full H now token caller b =
     (if cache_lookup (TOKEN_CACHE b) now caller (tok_id token) (tok_resource token) (tok_action token)
      then (True, b)
      else if \<not> KEY_READY b then (False, b)
      else if \<not> token_owner_matches (tok_task_id token) caller then (False, b)
      else let task_id = unat (tok_task_id token)
      in if MAX_TASKS \<le> task_id then (False, b)
      else if tok_nonce token \<le> LAST_NONCE b ! task_id then (False, b)
      else if 0 < tok_expires token \<and> ucast (tok_expires token) < now then (False, b)
      else let expected = H (MAC_KEY b) (header_bytes token)
      in if ct_eq_16 (tok_mac token) expected
         then (True, b\<lparr>LAST_NONCE := (LAST_NONCE b)[task_id := tok_nonce token],
                       TOKEN_CACHE := cache_insert (TOKEN_CACHE b) caller (tok_id token)
                         (tok_resource token) (tok_action token) (tok_expires token)\<rparr>)
         else (False, b))"

definition sign_token :: "keyed_hash \<Rightarrow> broker \<Rightarrow> Token \<Rightarrow> Token" where
  "sign_token H b token =
     (if \<not> KEY_READY b then token
      else token\<lparr>tok_mac := H (MAC_KEY b) (header_bytes token)\<rparr>)"

definition invalidate_task_capabilities :: "u8 \<Rightarrow> broker \<Rightarrow> broker" where
  "invalidate_task_capabilities task_id b =
     b\<lparr>TOKEN_CACHE := invalidate_by_owner (TOKEN_CACHE b) task_id\<rparr>"

section \<open>Static local capabilities (cap_action.rs, local_cap.rs, cap_generated.rs)\<close>

datatype CapAction = CapNone | CapRead | CapWrite | CapReadWrite | CapExecute | CapAll

fun cap_code :: "CapAction \<Rightarrow> u8" where
  "cap_code CapNone = 0x00"
| "cap_code CapRead = 0x01"
| "cap_code CapWrite = 0x02"
| "cap_code CapReadWrite = 0x03"
| "cap_code CapExecute = 0x04"
| "cap_code CapAll = 0x07"

definition cap_from_u8 :: "u8 \<Rightarrow> CapAction option" where
  "cap_from_u8 b =
     (if b = 0x00 then Some CapNone else if b = 0x01 then Some CapRead
      else if b = 0x02 then Some CapWrite else if b = 0x03 then Some CapReadWrite
      else if b = 0x04 then Some CapExecute else if b = 0x07 then Some CapAll
      else None)"

definition cap_allows :: "CapAction \<Rightarrow> CapAction \<Rightarrow> bool" where
  "cap_allows self requested \<longleftrightarrow>
     cap_code self AND cap_code requested = cap_code requested \<and> cap_code requested \<noteq> 0"

definition LOCAL_CAP_TABLE :: "CapAction list list" where
  "LOCAL_CAP_TABLE =
     [[CapNone, CapNone, CapNone, CapNone],
      [CapNone, CapNone, CapNone, CapNone],
      [CapWrite, CapNone, CapWrite, CapNone],
      [CapNone, CapWrite, CapRead, CapNone],
      [CapNone, CapNone, CapNone, CapNone],
      [CapNone, CapNone, CapNone, CapNone],
      [CapNone, CapNone, CapNone, CapNone],
      [CapNone, CapNone, CapNone, CapNone]]"

definition BOOT_CHANNELS :: "(u8 \<times> u8 \<times> u8) list" where
  "BOOT_CHANNELS = [(2, 2, 3)]"

definition local_cap_check :: "u8 \<Rightarrow> u8 \<Rightarrow> u8 \<Rightarrow> bool" where
  "local_cap_check caller resource_id action_bits =
     (if MAX_TASKS \<le> unat caller then False
      else if MAX_RESOURCES \<le> unat resource_id then False
      else case cap_from_u8 action_bits of None \<Rightarrow> False
        | Some requested \<Rightarrow> cap_allows (LOCAL_CAP_TABLE ! unat caller ! unat resource_id) requested)"

section \<open>The branch-free routines against their plain meaning\<close>

lemma of_bool_and: "(of_bool p AND of_bool q :: 'a::len word) = of_bool (p \<and> q)"
  by (cases p; cases q) simp_all

lemma of_bool_or: "(of_bool p OR of_bool q :: 'a::len word) = of_bool (p \<or> q)"
  by (cases p; cases q) simp_all

lemma ucast_u32_eq_0: "(ucast w :: u64) = 0 \<longleftrightarrow> w = 0" for w :: u32
proof
  assume "(ucast w :: u64) = 0"
  then have "unat (ucast w :: u64) = 0" by simp
  then have "unat w = unat (0 :: u32)"
    using unat_less [of w] by (simp add: unsigned_ucast_eq take_bit_nat_eq_self)
  then show "w = 0" by (rule unsigned_word_eqI)
qed simp

lemma fold_or_eq_0:
  "fold (\<lambda>e f. f OR g e) es f0 = 0 \<longleftrightarrow> f0 = 0 \<and> (\<forall>e \<in> set es. g e = 0)" for f0 :: "'a::len word"
  by (induction es arbitrary: f0) (auto simp: or_eq_0_iff)

definition entry_matches :: "u64 \<Rightarrow> u8 \<Rightarrow> u8 \<Rightarrow> u16 \<Rightarrow> u8 \<Rightarrow> CacheEntry \<Rightarrow> bool" where
  "entry_matches now task_id token_id resource action e \<longleftrightarrow>
     ce_valid e \<and> ce_owner_task_id e = task_id \<and> ce_token_id e = token_id
     \<and> ce_resource e = resource \<and> ce_action e = action \<and> is_not_expired (ce_expires e) now"

lemma cache_hit_matches: "cache_hit now t k r a e = of_bool (entry_matches now t k r a e)"
  by (simp add: cache_hit_def entry_matches_def is_not_expired_def of_bool_and of_bool_or
      ucast_u32_eq_0)

lemma cache_lookup_iff:
  "cache_lookup c now t k r a \<longleftrightarrow> (\<exists>e \<in> set (tc_entries c). entry_matches now t k r a e)"
  by (auto simp: cache_lookup_def fold_or_eq_0 cache_hit_matches)

lemma ct_eq_16_iff: "length a = 16 \<Longrightarrow> length b = 16 \<Longrightarrow> ct_eq_16 a b \<longleftrightarrow> a = b"
  by (auto simp: ct_eq_16_def fold_or_eq_0 xor_eq_0_iff list_eq_iff_nth_eq)

section \<open>The contract of a capability cache\<close>

type_synonym grant = "u8 \<times> u8 \<times> u16 \<times> u8 \<times> u32"

text \<open>
  A cache holds a set of grants (owner, token, resource, action, expiry). The broker relies on
  these laws only.
\<close>

locale capability_cache =
  fixes inv :: "'c \<Rightarrow> bool"
    and grants :: "'c \<Rightarrow> grant set"
    and lookup :: "'c \<Rightarrow> u64 \<Rightarrow> u8 \<Rightarrow> u8 \<Rightarrow> u16 \<Rightarrow> u8 \<Rightarrow> bool"
    and ins :: "'c \<Rightarrow> u8 \<Rightarrow> u8 \<Rightarrow> u16 \<Rightarrow> u8 \<Rightarrow> u32 \<Rightarrow> 'c"
    and revoke :: "'c \<Rightarrow> u8 \<Rightarrow> 'c"
    and flush :: "'c \<Rightarrow> 'c"
  assumes lookup_iff: "lookup c now t k r a \<longleftrightarrow> (\<exists>ex. (t, k, r, a, ex) \<in> grants c \<and> is_not_expired ex now)"
    and ins_inv: "inv c \<Longrightarrow> inv (ins c t k r a ex)"
    and ins_mem: "inv c \<Longrightarrow> (t, k, r, a, ex) \<in> grants (ins c t k r a ex)"
    and ins_sub: "inv c \<Longrightarrow> grants (ins c t k r a ex) \<subseteq> insert (t, k, r, a, ex) (grants c)"
    and revoke_inv: "inv c \<Longrightarrow> inv (revoke c t)"
    and revoke_grants: "grants (revoke c t) = {g \<in> grants c. fst g \<noteq> t}"
    and flush_inv: "inv c \<Longrightarrow> inv (flush c)"
    and flush_grants: "grants (flush c) = {}"
begin

lemma lookup_after_revoke: "lookup (revoke c t) now u k r a \<longleftrightarrow> u \<noteq> t \<and> lookup c now u k r a"
  by (auto simp: lookup_iff revoke_grants)

lemma lookup_after_ins: "inv c \<Longrightarrow> lookup (ins c t k r a ex) now t k r a" if "is_not_expired ex now"
  using that ins_mem [of c t k r a ex] by (auto simp: lookup_iff)

lemma lookup_ins_other:
  "inv c \<Longrightarrow> lookup (ins c t k r a ex) now u k' r' a' \<Longrightarrow> u = t \<and> k' = k \<and> r' = r \<and> a' = a \<or> lookup c now u k' r' a'"
  using ins_sub [of c t k r a ex] by (auto simp: lookup_iff)

lemma lookup_after_flush: "\<not> lookup (flush c) now t k r a"
  by (simp add: lookup_iff flush_grants)

end

definition cache_inv :: "TokenCache \<Rightarrow> bool" where
  "cache_inv c \<longleftrightarrow> length (tc_entries c) = CACHE_SLOTS"

definition entry_grant :: "CacheEntry \<Rightarrow> grant" where
  "entry_grant e = (ce_owner_task_id e, ce_token_id e, ce_resource e, ce_action e, ce_expires e)"

definition cache_grants :: "TokenCache \<Rightarrow> grant set" where
  "cache_grants c = entry_grant ` {e \<in> set (tc_entries c). ce_valid e}"

interpretation token_cache:
  capability_cache cache_inv cache_grants cache_lookup cache_insert invalidate_by_owner invalidate_all
proof
  fix c :: TokenCache and now t k r a ex
  show "cache_lookup c now t k r a \<longleftrightarrow>
      (\<exists>ex. (t, k, r, a, ex) \<in> cache_grants c \<and> is_not_expired ex now)"
    by (auto simp: cache_lookup_iff entry_matches_def cache_grants_def entry_grant_def image_iff)
  show "cache_grants (invalidate_by_owner c t) = {g \<in> cache_grants c. fst g \<noteq> t}"
    by (auto simp: cache_grants_def invalidate_by_owner_def entry_grant_def ce_empty_def split: if_splits)
  show "cache_grants (invalidate_all c) = {}"
    by (auto simp: cache_grants_def invalidate_all_def ce_empty_def)
  assume inv: "cache_inv c"
  then have slot: "unat (tc_next_slot c) mod 4 < length (tc_entries c)" by (simp add: cache_inv_def)
  show "cache_inv (cache_insert c t k r a ex)" "cache_inv (invalidate_by_owner c t)"
    "cache_inv (invalidate_all c)"
    using inv by (simp_all add: cache_inv_def cache_insert_def invalidate_by_owner_def invalidate_all_def Let_def)
  show "(t, k, r, a, ex) \<in> cache_grants (cache_insert c t k r a ex)"
    using slot by (auto simp: cache_grants_def cache_insert_def entry_grant_def Let_def image_iff
        intro!: exI [of _ "\<lparr>ce_valid = True, ce_owner_task_id = t, ce_token_id = k, ce_resource = r,
          ce_action = a, ce_expires = ex\<rparr>"] set_update_memI)
  show "cache_grants (cache_insert c t k r a ex) \<subseteq> insert (t, k, r, a, ex) (cache_grants c)"
    by (auto simp: cache_grants_def cache_insert_def entry_grant_def Let_def
        dest!: set_update_subset_insert [THEN subsetD])
qed


section \<open>The broker over a history of requests\<close>

text \<open>The calls that change the broker: key provisioning, a presented token, a revocation.\<close>

datatype broker_event = Provision "u8 list" | Present u64 Token u8 | Revoke u8

fun broker_step :: "bool \<Rightarrow> keyed_hash \<Rightarrow> broker_event \<Rightarrow> broker \<Rightarrow> broker" where
  "broker_step otp H (Provision key) b = provision_key otp key b"
| "broker_step otp H (Present now token caller) b = snd (validate_full H now token caller b)"
| "broker_step otp H (Revoke t) b = invalidate_task_capabilities t b"

definition broker_run :: "bool \<Rightarrow> keyed_hash \<Rightarrow> broker_event list \<Rightarrow> broker \<Rightarrow> broker" where
  "broker_run otp H evs b = fold (broker_step otp H) evs b"

lemma broker_run_simps [simp]:
  "broker_run otp H [] b = b"
  "broker_run otp H (ev # evs) b = broker_run otp H evs (broker_step otp H ev b)"
  "broker_run otp H (evs @ fvs) b = broker_run otp H fvs (broker_run otp H evs b)"
  by (simp_all add: broker_run_def)

definition broker_inv :: "broker \<Rightarrow> bool" where
  "broker_inv b \<longleftrightarrow> length (LAST_NONCE b) = MAX_TASKS \<and> cache_inv (TOKEN_CACHE b)
     \<and> (\<not> KEY_READY b \<longrightarrow> cache_grants (TOKEN_CACHE b) = {})"

lemma cache_new_facts: "cache_inv cache_new" "cache_grants cache_new = {}"
  by (auto simp: cache_inv_def cache_new_def cache_grants_def ce_empty_def)

lemma broker_init_inv: "broker_inv broker_init"
  by (simp add: broker_inv_def broker_init_def cache_new_facts)

text \<open>The acceptance of a token outside the cache.\<close>

definition fresh_accept :: "keyed_hash \<Rightarrow> u64 \<Rightarrow> Token \<Rightarrow> u8 \<Rightarrow> broker \<Rightarrow> bool" where
  "fresh_accept H now token caller b \<longleftrightarrow>
     KEY_READY b \<and> tok_task_id token = caller \<and> unat caller < MAX_TASKS
     \<and> is_nonce_valid (tok_nonce token) (LAST_NONCE b ! unat caller)
     \<and> is_not_expired (tok_expires token) now
     \<and> ct_eq_16 (tok_mac token) (H (MAC_KEY b) (header_bytes token))"

definition enrol :: "Token \<Rightarrow> broker \<Rightarrow> broker" where
  "enrol token b = b\<lparr>LAST_NONCE := (LAST_NONCE b)[unat (tok_task_id token) := tok_nonce token],
     TOKEN_CACHE := cache_insert (TOKEN_CACHE b) (tok_task_id token) (tok_id token)
       (tok_resource token) (tok_action token) (tok_expires token)\<rparr>"

lemma validate_full_split:
  "validate_full H now token caller b =
     (if cache_lookup (TOKEN_CACHE b) now caller (tok_id token) (tok_resource token) (tok_action token)
      then (True, b)
      else if fresh_accept H now token caller b then (True, enrol token b) else (False, b))"
  by (auto simp: validate_full_def fresh_accept_def enrol_def token_owner_matches_def Let_def
      is_nonce_valid_def is_not_expired_def not_le not_less word_neq_0_conv)

lemma broker_step_cases:
  obtains (same) "broker_step otp H ev b = b"
  | (key) k where "ev = Provision k" "\<not> KEY_READY b"
      "broker_step otp H ev b =
         b\<lparr>MAC_KEY := k, TOKEN_CACHE := invalidate_all (TOKEN_CACHE b), KEY_READY := True\<rparr>"
  | (enrol) now token where "ev = Present now token (tok_task_id token)"
      "fresh_accept H now token (tok_task_id token) b" "broker_step otp H ev b = enrol token b"
  | (revoke) t where "ev = Revoke t" "broker_step otp H ev b = invalidate_task_capabilities t b"
proof (cases ev)
  case (Provision k)
  show ?thesis
  proof (cases "broker_step otp H ev b = b")
    case False
    with Provision key [of k] show ?thesis by (auto simp: provision_key_def split: if_splits)
  qed (rule same)
next
  case (Present now token caller)
  show ?thesis
  proof (cases "broker_step otp H ev b = b")
    case False
    with Present have acc: "fresh_accept H now token caller b" "broker_step otp H ev b = enrol token b"
      by (auto simp: validate_full_split split: if_splits)
    then have "caller = tok_task_id token" by (simp add: fresh_accept_def)
    with acc Present enrol [of now token] show ?thesis by simp
  qed (rule same)
next
  case (Revoke t)
  then show ?thesis using revoke by simp
qed

lemma broker_step_inv: "broker_inv b \<Longrightarrow> broker_inv (broker_step otp H ev b)"
  by (cases otp H ev b rule: broker_step_cases)
    (auto simp: broker_inv_def enrol_def invalidate_task_capabilities_def fresh_accept_def
      token_cache.ins_inv token_cache.revoke_inv token_cache.flush_inv token_cache.revoke_grants)

lemma broker_run_inv: "broker_inv b \<Longrightarrow> broker_inv (broker_run otp H evs b)"
  by (induction evs rule: rev_induct) (simp_all add: broker_step_inv)

text \<open>Once a key is installed it never changes, and nonces only grow.\<close>

lemma key_step: "KEY_READY b \<Longrightarrow>
   KEY_READY (broker_step otp H ev b) \<and> MAC_KEY (broker_step otp H ev b) = MAC_KEY b"
  by (cases otp H ev b rule: broker_step_cases) (auto simp: enrol_def invalidate_task_capabilities_def)

lemma nonce_step: "LAST_NONCE b ! i \<le> LAST_NONCE (broker_step otp H ev b) ! i"
  by (cases otp H ev b rule: broker_step_cases)
    (auto simp: enrol_def invalidate_task_capabilities_def fresh_accept_def is_nonce_valid_def
      nth_update_any dest: less_imp_le)

lemma nonce_run: "LAST_NONCE b ! i \<le> LAST_NONCE (broker_run otp H evs b) ! i"
  by (induction evs rule: rev_induct) (auto intro: order_trans nonce_step)

lemma enrol_nonce: "broker_inv b \<Longrightarrow> fresh_accept H now token (tok_task_id token) b \<Longrightarrow>
   LAST_NONCE (enrol token b) ! unat (tok_task_id token) = tok_nonce token"
  by (simp add: enrol_def broker_inv_def fresh_accept_def)

text \<open>
  What a history grants: a token presented by its own task, with the tag the installed key gives
  its header, and no revocation of that task since.
\<close>

definition granted_by :: "keyed_hash \<Rightarrow> u8 list \<Rightarrow> broker_event list \<Rightarrow> grant \<Rightarrow> bool" where
  "granted_by H key evs g \<longleftrightarrow>
     (\<exists>pre now token post. evs = pre @ Present now token (tok_task_id token) # post
        \<and> g = (tok_task_id token, tok_id token, tok_resource token, tok_action token, tok_expires token)
        \<and> ct_eq_16 (tok_mac token) (H key (header_bytes token))
        \<and> is_not_expired (tok_expires token) now
        \<and> Revoke (tok_task_id token) \<notin> set post)"

lemma granted_by_snoc:
  assumes "granted_by H key evs g" and "ev \<noteq> Revoke (fst g)"
  shows "granted_by H key (evs @ [ev]) g"
proof -
  from assms(1) obtain pre now token post where g: "evs = pre @ Present now token (tok_task_id token) # post"
    "g = (tok_task_id token, tok_id token, tok_resource token, tok_action token, tok_expires token)"
    "ct_eq_16 (tok_mac token) (H key (header_bytes token))" "is_not_expired (tok_expires token) now"
    "Revoke (tok_task_id token) \<notin> set post"
    unfolding granted_by_def by blast
  with assms(2) have "evs @ [ev] = pre @ Present now token (tok_task_id token) # (post @ [ev])"
    "Revoke (tok_task_id token) \<notin> set (post @ [ev])" by auto
  with g show ?thesis unfolding granted_by_def by blast
qed

lemma cache_grants_authentic:
  "cache_grants (TOKEN_CACHE (broker_run otp H evs broker_init))
     \<subseteq> Collect (granted_by H (MAC_KEY (broker_run otp H evs broker_init)) evs)"
proof (induction evs rule: rev_induct)
  case Nil
  then show ?case by (simp add: broker_init_def cache_new_facts)
next
  case (snoc ev evs)
  let ?b = "broker_run otp H evs broker_init"
  have inv: "broker_inv ?b" by (simp add: broker_run_inv broker_init_inv)
  show ?case
  proof (cases otp H ev ?b rule: broker_step_cases)
    case same
    have "granted_by H (MAC_KEY ?b) (evs @ [ev]) g" if g: "g \<in> cache_grants (TOKEN_CACHE ?b)" for g
    proof (cases "ev = Revoke (fst g)")
      case True
      with same have "invalidate_task_capabilities (fst g) ?b = ?b" by simp
      then have "invalidate_by_owner (TOKEN_CACHE ?b) (fst g) = TOKEN_CACHE ?b"
        by (metis invalidate_task_capabilities_def broker.select_convs(4) broker.surjective
            broker.update_convs(4))
      with g show ?thesis using token_cache.revoke_grants [of "TOKEN_CACHE ?b" "fst g"] by auto
    next
      case False
      then show ?thesis using g snoc.IH by (auto intro: granted_by_snoc)
    qed
    with same show ?thesis by auto
  next
    case (key k)
    then show ?thesis by (simp add: token_cache.flush_grants)
  next
    case (enrol now token)
    have new: "granted_by H (MAC_KEY ?b) (evs @ [ev])
        (tok_task_id token, tok_id token, tok_resource token, tok_action token, tok_expires token)"
      unfolding granted_by_def using enrol by (intro exI [of _ evs]) (auto simp: fresh_accept_def)
    have old: "granted_by H (MAC_KEY ?b) (evs @ [ev]) g" if "g \<in> cache_grants (TOKEN_CACHE ?b)" for g
      using that snoc.IH enrol(1) by (auto intro: granted_by_snoc)
    have "cache_grants (TOKEN_CACHE (enrol token ?b)) \<subseteq> insert
        (tok_task_id token, tok_id token, tok_resource token, tok_action token, tok_expires token)
        (cache_grants (TOKEN_CACHE ?b))"
      using inv unfolding enrol_def by (simp add: token_cache.ins_sub broker_inv_def)
    with new old enrol(3) show ?thesis by (auto simp: enrol_def)
  next
    case (revoke t)
    have "granted_by H (MAC_KEY ?b) (evs @ [ev]) g"
      if "g \<in> cache_grants (TOKEN_CACHE ?b)" "fst g \<noteq> t" for g
      using that snoc.IH revoke(1) by (auto intro: granted_by_snoc)
    with revoke(2) show ?thesis
      by (auto simp: invalidate_task_capabilities_def token_cache.revoke_grants)
  qed
qed


section \<open>Properties of the capability system\<close>

lemma ucast_u16_split:
  assumes "(ucast (v :: u16) :: u8) = ucast w" and "(ucast (drop_bit 8 v) :: u8) = ucast (drop_bit 8 w)"
  shows "v = w"
  using assms le_bytes16_inj [of v w] by (simp add: le_bytes16_def)

lemma ucast_u32_split:
  assumes "(ucast (v :: u32) :: u8) = ucast w" and "(ucast (drop_bit 8 v) :: u8) = ucast (drop_bit 8 w)"
    and "(ucast (drop_bit 16 v) :: u8) = ucast (drop_bit 16 w)"
    and "(ucast (drop_bit 24 v) :: u8) = ucast (drop_bit 24 w)"
  shows "v = w"
  using assms le_bytes32_inj [of v w] by (simp add: le_bytes32_def)

lemma header_bytes_inj:
  "header_bytes t = header_bytes u \<longleftrightarrow>
     tok_id t = tok_id u \<and> tok_task_id t = tok_task_id u \<and> tok_resource t = tok_resource u
     \<and> tok_action t = tok_action u \<and> tok_dal t = tok_dal u \<and> tok_expires t = tok_expires u
     \<and> tok_nonce t = tok_nonce u"
  by (auto simp: header_bytes_def intro: ucast_u16_split ucast_u32_split)

lemma length_header_bytes: "length (header_bytes t) = 16"
  by (simp add: header_bytes_def)

text \<open>
  C33. The branch-free cache lookup (bitwise and/or over 0/1 bytes, every slot visited) answers
  exactly whether some valid slot carries the caller, token, resource and action and is not expired,
  where an expiry of zero means it never expires.
\<close>
theorem cache_lookup_correct:
  "cache_lookup c now t k r a \<longleftrightarrow>
     (\<exists>e \<in> set (tc_entries c). ce_valid e \<and> ce_owner_task_id e = t \<and> ce_token_id e = k
        \<and> ce_resource e = r \<and> ce_action e = a \<and> (ce_expires e = 0 \<or> unat now \<le> unat (ce_expires e)))"
proof -
  have "now \<le> ucast e \<longleftrightarrow> unat now \<le> unat e" for e :: u32
    using unat_less [of e] by (simp add: word_le_nat_alt unsigned_ucast_eq take_bit_nat_eq_self)
  then show ?thesis by (auto simp: cache_lookup_iff entry_matches_def is_not_expired_def)
qed

text \<open>
  C4. No capability without an authentic token: whatever requests the broker has served since
  boot, if the cache grants a task an access, then that task itself has earlier presented a token
  naming it as the owner, for exactly this token id, resource and action, whose tag is the keyed hash
  of its header under the installed key, that was not expired then and is not expired now, and the task
  has not been revoked since.
\<close>
theorem cached_access_authentic:
  assumes "validate_cached (broker_run otp H evs broker_init) now caller k r a"
  shows "\<exists>pre now0 token post.
     evs = pre @ Present now0 token caller # post
     \<and> tok_task_id token = caller \<and> tok_id token = k \<and> tok_resource token = r \<and> tok_action token = a
     \<and> ct_eq_16 (tok_mac token) (H (MAC_KEY (broker_run otp H evs broker_init)) (header_bytes token))
     \<and> is_not_expired (tok_expires token) now0 \<and> is_not_expired (tok_expires token) now
     \<and> Revoke caller \<notin> set post"
proof -
  from assms obtain ex where "(caller, k, r, a, ex) \<in> cache_grants (TOKEN_CACHE (broker_run otp H evs broker_init))"
    and now: "is_not_expired ex now"
    by (auto simp: validate_cached_def token_cache.lookup_iff)
  with cache_grants_authentic [of otp H evs]
  have "granted_by H (MAC_KEY (broker_run otp H evs broker_init)) evs (caller, k, r, a, ex)" by blast
  with now show ?thesis unfolding granted_by_def by blast
qed

definition demo_token :: Token where
  "demo_token = tok_zeroed\<lparr>tok_id := 7, tok_task_id := 2, tok_resource := 1, tok_action := ACTION_READ,
     tok_nonce := 1\<rparr>"

definition demo_history :: "broker_event list" where
  "demo_history = [Provision (replicate 32 1),
     Present 5 (demo_token\<lparr>tok_mac := header_bytes demo_token\<rparr>) 2]"

definition demo_broker :: broker where
  "demo_broker = broker_run False (\<lambda>key h. h) demo_history broker_init"

lemma demo_broker_eval:
  "validate_cached demo_broker 9 2 7 1 ACTION_READ \<and> LAST_NONCE demo_broker ! 2 = 1 \<and> KEY_READY demo_broker"
  by code_simp

theorem cached_access_authentic_witness:
  "\<exists>pre now0 token post. demo_history = pre @ Present now0 token 2 # post
     \<and> tok_resource token = 1 \<and> Revoke 2 \<notin> set post"
  using cached_access_authentic [of False "\<lambda>key h. h" demo_history 9 2 7 1 1] demo_broker_eval
  unfolding demo_broker_def by blast

text \<open>
  C25. Revocation is immediate and final for old tokens: after a task is revoked, its cached
  capabilities are gone, and a token whose nonce the broker has already seen for that task is
  rejected, whatever requests were served in between.
\<close>
theorem revoked_token_not_replayable:
  assumes "tok_nonce token \<le> LAST_NONCE b ! unat (tok_task_id token)"
    and b': "b' = invalidate_task_capabilities caller (broker_run otp H evs b)"
  shows "\<not> validate_cached b' now caller k r a \<and> validate_full H now token caller b' = (False, b')"
proof -
  have no: "\<not> validate_cached b' now caller k r a" for k r a
    by (simp add: b' validate_cached_def invalidate_task_capabilities_def token_cache.lookup_after_revoke)
  have "LAST_NONCE b' ! unat (tok_task_id token) = LAST_NONCE (broker_run otp H evs b) ! unat (tok_task_id token)"
    by (simp add: b' invalidate_task_capabilities_def)
  then have "\<not> fresh_accept H now token caller b'"
    using assms(1) nonce_run [of b "unat (tok_task_id token)" otp H evs]
    by (auto simp: fresh_accept_def is_nonce_valid_def)
  with no show ?thesis
    by (simp add: validate_full_split validate_cached_def)
qed

theorem revoked_token_not_replayable_witness:
  "validate_cached demo_broker 9 2 7 1 ACTION_READ
   \<and> \<not> fst (validate_full (\<lambda>key h. h) 9 (demo_token\<lparr>tok_mac := header_bytes demo_token\<rparr>) 2
          (invalidate_task_capabilities 2 demo_broker))"
proof -
  have "tok_nonce (demo_token\<lparr>tok_mac := header_bytes demo_token\<rparr>)
      \<le> LAST_NONCE demo_broker ! unat (tok_task_id (demo_token\<lparr>tok_mac := header_bytes demo_token\<rparr>))"
    using demo_broker_eval by (simp add: demo_token_def tok_zeroed_def)
  from revoked_token_not_replayable [OF this, where caller = 2 and evs = "[]" and now = 9]
  show ?thesis using demo_broker_eval by simp
qed


definition toy_hash :: keyed_hash where
  "toy_hash key h = take 16 (h @ replicate 16 0)"


text \<open>
  The static local capability table grants exactly the accesses of the manifest: task 2 may
  write resource 0 and channel 2, task 3 may write resource 1 and read channel 2; every other
  caller, resource or action byte is denied.
\<close>
lemma local_cap_check_exact:
  "local_cap_check caller resource action \<longleftrightarrow>
     (caller, resource, action) \<in> {(2, 0, 2), (2, 2, 2), (3, 1, 2), (3, 2, 1)}"
proof -
  have nat8: "n < 8 \<Longrightarrow> n \<in> {0, 1, 2, 3, 4, 5, 6, 7 :: nat}"
    and nat4: "n < 4 \<Longrightarrow> n \<in> {0, 1, 2, 3 :: nat}" for n by auto
  have "local_cap_check caller resource action \<longleftrightarrow>
     (unat caller, unat resource, unat action) \<in> {(2, 0, 2), (2, 2, 2), (3, 1, 2), (3, 2, 1)}"
    using nat8 [of "unat caller"] nat4 [of "unat resource"]
    by (auto simp: local_cap_check_def cap_from_u8_def LOCAL_CAP_TABLE_def cap_allows_def
        word_unat_eq_iff [of action] split: if_splits)
  then show ?thesis by (auto simp: word_unat_eq_iff)
qed

text \<open>The provider's loop takes a prefix, so its tags have the length the broker compares.\<close>

lemma blake3_keyed_hash_take:
  assumes "length (blake3 key data) = 32"
  shows "blake3_keyed_hash blake3 key data = take 16 (blake3 key data)"
proof -
  let ?b = "blake3 key data"
  have "fold (\<lambda>i result. result[i := ?b ! i]) [0..<n] (replicate 16 0) = take n ?b @ replicate (16 - n) 0" if "n \<le> 16" for n
    using that
  proof (induction n)
    case (Suc n)
    then have n: "n < length ?b" "16 - n = Suc (16 - Suc n)" using assms by auto
    have "fold (\<lambda>i result. result[i := ?b ! i]) [0..<Suc n] (replicate 16 0) = (take n ?b @ replicate (16 - n) 0)[n := ?b ! n]"
      using Suc by simp
    also have "\<dots> = take (Suc n) ?b @ replicate (16 - Suc n) 0"
      using n by (simp add: list_update_append take_Suc_conv_app_nth)
    finally show ?case .
  qed simp
  from this [of 16] show ?thesis by (simp add: blake3_keyed_hash_def Let_def)
qed

end
