(* ===== verification/Policy.thy ===== *)
theory Policy
  imports Blackbox
begin

text \<open>
  The failure policy engine, \<open>src/kernel/policy/mod.rs\<close>: the pure decision table
  \<open>decide_action\<close>, and \<open>apply_policy\<close>, which evaluates the table twice in lockstep and keeps the
  per-task restart counters that drive escalation.
\<close>

section \<open>Types and the decision table\<close>

datatype FailureMode = Restart | Isolate | Degrade | Failover | Alert | Shutdown

fun mode_code :: "FailureMode \<Rightarrow> u8" where
  "mode_code Restart = 0"
| "mode_code Isolate = 1"
| "mode_code Degrade = 2"
| "mode_code Failover = 3"
| "mode_code Alert = 4"
| "mode_code Shutdown = 5"

datatype PolicyEvent =
    BudgetExhausted | StackOverflow | TaskFault | CapViolation | IopmpViolation | PmpIntegrityFail
  | WatchdogTimeout | DeadlineMiss | MultiModuleCrash

fun policy_code :: "PolicyEvent \<Rightarrow> u8" where
  "policy_code BudgetExhausted = 0"
| "policy_code StackOverflow = 1"
| "policy_code TaskFault = 2"
| "policy_code CapViolation = 3"
| "policy_code IopmpViolation = 4"
| "policy_code PmpIntegrityFail = 5"
| "policy_code WatchdogTimeout = 6"
| "policy_code DeadlineMiss = 7"
| "policy_code MultiModuleCrash = 8"

abbreviation (input) MAX_RESTART_BUDGET :: u8 where "MAX_RESTART_BUDGET \<equiv> 1"
abbreviation (input) MAX_RESTART_FAULT :: u8 where "MAX_RESTART_FAULT \<equiv> 3"
abbreviation (input) MAX_RESTART_WATCHDOG :: u8 where "MAX_RESTART_WATCHDOG \<equiv> 1"

definition decide_action :: "u8 \<Rightarrow> u8 \<Rightarrow> u8 \<Rightarrow> FailureMode" where
  "decide_action event restart_count dal =
     (if event = 0 then (if restart_count < MAX_RESTART_BUDGET then Restart else Degrade)
      else if event = 1 then (if restart_count < MAX_RESTART_FAULT then Restart else Isolate)
      else if event = 2 then (if restart_count < MAX_RESTART_FAULT then Restart else Isolate)
      else if event = 3 then Isolate
      else if event = 4 then Isolate
      else if event = 5 then Shutdown
      else if event = 6 then (if restart_count < MAX_RESTART_WATCHDOG then Failover else Degrade)
      else if event = 7 then
        (if dal = 0 then Failover else if dal = 1 then Alert else if dal = 2 then Alert else Isolate)
      else if event = 8 then Shutdown
      else Isolate)"

section \<open>Restart counters and the policy call\<close>

text \<open>
  \<open>RESTART_COUNTS\<close> is an array of bytes, one for each task. \<open>apply_policy\<close> also writes the
  black box, on a lockstep mismatch, so it maps both.
\<close>

type_synonym restart_counts = "u8 list"

definition restart_counts_init :: restart_counts where
  "restart_counts_init = replicate MAX_TASKS 0"

definition reset_restart_count :: "u8 \<Rightarrow> restart_counts \<Rightarrow> restart_counts" where
  "reset_restart_count task_id rc = (if unat task_id < MAX_TASKS then rc[unat task_id := 0] else rc)"

definition get_restart_count :: "u8 \<Rightarrow> restart_counts \<Rightarrow> u8" where
  "get_restart_count task_id rc = (if unat task_id < MAX_TASKS then rc ! unat task_id else 0)"

text \<open>
  The two evaluations of the table are the arguments \<open>first\<close> and \<open>second\<close>: without a hardware
  fault both are \<open>decide_action\<close>; the code compares them because a fault may make them differ.
\<close>

type_synonym decision = "u8 \<Rightarrow> u8 \<Rightarrow> u8 \<Rightarrow> FailureMode"

definition apply_policy_lockstep ::
  "decision \<Rightarrow> decision \<Rightarrow> u8 \<Rightarrow> PolicyEvent \<Rightarrow> u8 \<Rightarrow> restart_counts \<Rightarrow> blackbox
     \<Rightarrow> FailureMode \<times> restart_counts \<times> blackbox" where
  "apply_policy_lockstep first second task_id event dal rc bb =
     (let id = unat task_id;
          count = (if id < MAX_TASKS then rc ! id else 0);
          action1 = first (policy_code event) count dal;
          action2 = second (policy_code event) count dal;
          (action, bb') =
            (if action1 \<noteq> action2
             then (Shutdown, bb_log bb LockstepFail task_id
                     [policy_code event, mode_code action1, mode_code action2])
             else (action1, bb));
          rc' = (if action = Restart \<and> id < MAX_TASKS
                 then rc[id := saturating_add (rc ! id) 1] else rc)
      in (action, rc', bb'))"

definition apply_policy ::
  "u8 \<Rightarrow> PolicyEvent \<Rightarrow> u8 \<Rightarrow> restart_counts \<Rightarrow> blackbox \<Rightarrow> FailureMode \<times> restart_counts \<times> blackbox" where
  "apply_policy = apply_policy_lockstep decide_action decide_action"

section \<open>Facts about a single call\<close>

lemma length_apply_policy:
  "apply_policy_lockstep d1 d2 t ev dal rc bb = (m, rc', bb') \<Longrightarrow> length rc' = length rc"
  by (auto simp: apply_policy_lockstep_def Let_def split: if_splits)

lemma apply_policy_mode:
  "fst (apply_policy t ev dal rc bb) = decide_action (policy_code ev) (get_restart_count t rc) dal"
  by (simp add: apply_policy_def apply_policy_lockstep_def get_restart_count_def Let_def)

lemma apply_policy_blackbox: "snd (snd (apply_policy t ev dal rc bb)) = bb"
  by (simp add: apply_policy_def apply_policy_lockstep_def Let_def)

lemma apply_policy_counts:
  "fst (snd (apply_policy t ev dal rc bb)) =
     (if fst (apply_policy t ev dal rc bb) = Restart \<and> unat t < MAX_TASKS
      then rc[unat t := saturating_add (rc ! unat t) 1] else rc)"
  by (simp add: apply_policy_def apply_policy_lockstep_def Let_def)

text \<open>A restart is decided only while the counter is below three.\<close>

lemma decide_Restart_count: "decide_action ev c dal = Restart \<Longrightarrow> c < MAX_RESTART_FAULT"
  by (auto simp: decide_action_def split: if_splits intro: order.strict_trans1)

section \<open>Histories of policy calls\<close>

text \<open>A history is the list of (task, event, level) the kernel reports; \<open>policy_run\<close> gives the modes.\<close>

type_synonym policy_call = "u8 \<times> PolicyEvent \<times> u8"

fun policy_run :: "policy_call list \<Rightarrow> restart_counts \<Rightarrow> blackbox \<Rightarrow> (u8 \<times> FailureMode) list \<times> restart_counts" where
  "policy_run [] rc bb = ([], rc)"
| "policy_run ((t, ev, dal) # calls) rc bb =
     (let (m, rc', bb') = apply_policy t ev dal rc bb;
          (ms, rc'') = policy_run calls rc' bb'
      in ((t, m) # ms, rc''))"

declare policy_run.simps(2) [simp del]

definition restarts_of :: "u8 \<Rightarrow> (u8 \<times> FailureMode) list \<Rightarrow> nat" where
  "restarts_of t ms = length (filter (\<lambda>x. x = (t, Restart)) ms)"

lemma policy_run_Cons:
  "policy_run ((t, ev, dal) # calls) rc bb =
     (let m = decide_action (policy_code ev) (get_restart_count t rc) dal;
          rc' = (if m = Restart \<and> unat t < MAX_TASKS then rc[unat t := saturating_add (rc ! unat t) 1] else rc)
      in ((t, m) # fst (policy_run calls rc' bb), snd (policy_run calls rc' bb)))"
proof -
  obtain m rc' bb' where "apply_policy t ev dal rc bb = (m, rc', bb')" by (metis prod_cases3)
  then show ?thesis
    using apply_policy_mode [of t ev dal rc bb] apply_policy_blackbox [of t ev dal rc bb]
      apply_policy_counts [of t ev dal rc bb]
    by (simp add: policy_run.simps Let_def case_prod_beta)
qed

lemma restarts_of_Cons:
  "restarts_of t ((u, m) # ms) = (if u = t \<and> m = Restart then Suc (restarts_of t ms) else restarts_of t ms)"
  by (simp add: restarts_of_def)

lemma saturating_Suc_u8: "c < 3 \<Longrightarrow> saturating_add c 1 = c + 1 \<and> unat (c + 1) = Suc (unat c)" for c :: u8
  by (auto simp: saturating_add_def word_less_nat_alt unat_word_ariths)

lemma restarts_of_bound:
  "length rc = MAX_TASKS \<Longrightarrow> unat t < MAX_TASKS \<Longrightarrow> unat (rc ! unat t) \<le> 3 \<Longrightarrow>
   restarts_of t (fst (policy_run calls rc bb)) + unat (rc ! unat t) \<le> 3"
proof (induction calls arbitrary: rc)
  case Nil
  then show ?case by (simp add: restarts_of_def)
next
  case (Cons call calls)
  obtain u ev dal where call: "call = (u, ev, dal)" by (metis prod_cases3)
  let ?m = "decide_action (policy_code ev) (get_restart_count u rc) dal"
  show ?case
  proof (cases "?m = Restart \<and> u = t")
    case True
    then have lt: "rc ! unat t < 3"
      using decide_Restart_count Cons.prems(2) by (fastforce simp: get_restart_count_def)
    let ?rc = "rc[unat t := saturating_add (rc ! unat t) 1]"
    from lt have c: "unat (?rc ! unat t) = Suc (unat (rc ! unat t))" "unat (rc ! unat t) < 3"
      using Cons.prems by (simp_all add: saturating_Suc_u8 word_less_nat_alt)
    then have "restarts_of t (fst (policy_run calls ?rc bb)) + unat (?rc ! unat t) \<le> 3"
      using Cons.prems by (intro Cons.IH) auto
    with True c Cons.prems show ?thesis
      by (auto simp add: call policy_run_Cons restarts_of_Cons Let_def)
  next
    case False
    let ?rc = "if ?m = Restart \<and> unat u < MAX_TASKS then rc[unat u := saturating_add (rc ! unat u) 1] else rc"
    have "?rc ! unat t = rc ! unat t"
      using False by (auto simp: nth_update_any word_unat_eq_iff)
    then have "restarts_of t (fst (policy_run calls ?rc bb)) + unat (rc ! unat t) \<le> 3"
      using Cons.IH [of ?rc] Cons.prems by simp
    with False show ?thesis by (auto simp: call policy_run_Cons restarts_of_Cons Let_def)
  qed
qed

section \<open>Properties\<close>

text \<open>
  C27. Escalation is bounded: in any history of failures since boot, of whatever kinds, no task
  is restarted more than three times, so a persistently failing task ends in degradation, isolation
  or shutdown.
\<close>
theorem restarts_bounded:
  assumes "unat t < MAX_TASKS"
  shows "restarts_of t (fst (policy_run calls restart_counts_init bb)) \<le> 3"
  using restarts_of_bound [of restart_counts_init t calls bb] assms by (simp add: restart_counts_init_def)

definition demo_failures :: "policy_call list" where
  "demo_failures = [(2, BudgetExhausted, 3), (2, TaskFault, 3), (2, TaskFault, 3), (2, TaskFault, 3)]"

theorem restarts_bounded_witness:
  "unat (2 :: u8) < MAX_TASKS \<and> restarts_of 2 (fst (policy_run demo_failures restart_counts_init bb_zero)) \<le> 3
   \<and> fst (policy_run demo_failures restart_counts_init bb_zero)
       = [(2, Restart), (2, Restart), (2, Restart), (2, Isolate)]"
proof (intro conjI)
  show "restarts_of 2 (fst (policy_run demo_failures restart_counts_init bb_zero)) \<le> 3"
    by (rule restarts_bounded) simp
qed (simp_all add: demo_failures_def restart_counts_init_def policy_run_Cons decide_action_def
    get_restart_count_def saturating_add_def Let_def)

text \<open>
  Lockstep tolerates one corrupted evaluation: if at least one of the two evaluations of the
  decision table is sound, the outcome is the sound decision or a shutdown, a restart is counted
  only if the sound decision is a restart, and a corrupted answer always shuts the system down and
  leaves a record with both answers in the black box.
\<close>
theorem lockstep_single_fault:
  assumes sound: "d1 = decide_action \<or> d2 = decide_action"
    and run: "apply_policy_lockstep d1 d2 t ev dal rc bb = (m, rc', bb')"
  defines "good \<equiv> decide_action (policy_code ev) (get_restart_count t rc) dal"
    and "a1 \<equiv> d1 (policy_code ev) (get_restart_count t rc) dal"
    and "a2 \<equiv> d2 (policy_code ev) (get_restart_count t rc) dal"
  shows "(m = good \<or> m = Shutdown) \<and> (rc' \<noteq> rc \<longrightarrow> good = Restart)
     \<and> (a1 \<noteq> good \<or> a2 \<noteq> good \<longrightarrow> m = Shutdown \<and> rc' = rc
          \<and> bb' = bb_log bb LockstepFail t [policy_code ev, mode_code a1, mode_code a2])"
  using sound run
  by (auto simp: apply_policy_lockstep_def get_restart_count_def good_def a1_def a2_def Let_def
      split: if_splits)

theorem lockstep_single_fault_witness:
  "\<exists>rc' bb'. apply_policy_lockstep decide_action (\<lambda>ev c dal. Alert) 2 CapViolation 0 restart_counts_init bb_zero
      = (Shutdown, rc', bb') \<and> rc' = restart_counts_init"
proof -
  obtain m rc' bb' where
    run: "apply_policy_lockstep decide_action (\<lambda>ev c dal. Alert) 2 CapViolation 0 restart_counts_init bb_zero
      = (m, rc', bb')"
    by (metis prod_cases3)
  from lockstep_single_fault [OF disjI1 [OF refl] run] run show ?thesis by (auto simp: decide_action_def)
qed

text \<open>
  A watchdog timeout alone never escalates past a failover: the failover branch does not
  count, so a task whose only failures are watchdog timeouts is failed over every time, however
  often it happens.
\<close>
theorem watchdog_failover_never_escalates:
  "fst (policy_run (replicate n (t, WatchdogTimeout, dal)) restart_counts_init bb) = replicate n (t, Failover)"
proof -
  have "get_restart_count t restart_counts_init = 0"
    by (simp add: get_restart_count_def restart_counts_init_def)
  then show ?thesis
    by (induction n) (simp_all add: policy_run_Cons decide_action_def Let_def)
qed

end
