(* ===== verification/Kernel_State.thy ===== *)
theory Kernel_State
  imports Loader Capability Policy
begin

text \<open>
  The state the kernel keeps in statics: the task table and the scheduler's cells
  (\<open>src/kernel/scheduler/mod.rs\<close>), the restart counters, black box, broker, channels, PMP unit and
  syscall statistics, with the part of the processor that a context switch exchanges
  (\<open>src/arch/context.S\<close>) and memory. Every array access of the sources that Rust checks at run time
  is a branch here: out of range it panics.
\<close>

section \<open>Contexts and tasks\<close>

record TaskContext =
  ctx_ra :: usize
  ctx_sp :: usize
  ctx_s0 :: usize
  ctx_s1 :: usize
  ctx_s2 :: usize
  ctx_s3 :: usize
  ctx_s4 :: usize
  ctx_s5 :: usize
  ctx_s6 :: usize
  ctx_s7 :: usize
  ctx_s8 :: usize
  ctx_s9 :: usize
  ctx_s10 :: usize
  ctx_s11 :: usize
  ctx_mepc :: usize
  ctx_mstatus :: usize

definition ctx_zero :: TaskContext where
  "ctx_zero = \<lparr>ctx_ra = 0, ctx_sp = 0, ctx_s0 = 0, ctx_s1 = 0, ctx_s2 = 0, ctx_s3 = 0, ctx_s4 = 0,
     ctx_s5 = 0, ctx_s6 = 0, ctx_s7 = 0, ctx_s8 = 0, ctx_s9 = 0, ctx_s10 = 0, ctx_s11 = 0,
     ctx_mepc = 0, ctx_mstatus = 0\<rparr>"

abbreviation (input) MSTATUS_MPP_U :: usize where "MSTATUS_MPP_U \<equiv> 0"
abbreviation (input) MSTATUS_MPIE :: usize where "MSTATUS_MPIE \<equiv> 0x80"

record Task =
  t_id :: u8
  t_state :: TaskState
  t_context :: TaskContext
  t_entry :: usize
  t_stack_top :: usize
  t_priority :: u8
  t_dal :: u8
  t_budget_cycles :: u32
  t_remaining_cycles :: u32
  t_period_ticks :: u32
  t_period_counter :: u32
  t_watchdog_counter :: u32
  t_watchdog_limit :: u32
  t_syscall_count :: u32
  t_ipc_send_count :: u32
  t_watchdog_window_min :: u32
  t_original_budget :: u32
  t_pmp_addr_napot :: usize
  t_is_sntm_native :: bool

definition task_empty :: Task where
  "task_empty = \<lparr>t_id = 0, t_state = Dead, t_context = ctx_zero, t_entry = 0, t_stack_top = 0,
     t_priority = 15, t_dal = 3, t_budget_cycles = 0, t_remaining_cycles = 0, t_period_ticks = 0,
     t_period_counter = 0, t_watchdog_counter = 0, t_watchdog_limit = 0, t_syscall_count = 0,
     t_ipc_send_count = 0, t_watchdog_window_min = 0, t_original_budget = 0, t_pmp_addr_napot = 0,
     t_is_sntm_native = False\<rparr>"

section \<open>The kernel\<close>

text \<open>
  What the build and the link fix: the symbols of the linker script, the address of
  \<open>task_trampoline\<close>, the return address of the one call of \<open>switch_context\<close>, the address of
  \<open>TASK_STACKS\<close> and the end of the kernel image.
\<close>

record platform =
  linker :: linker_symbols
  task_trampoline :: usize
  resume_address :: usize
  TASK_STACKS :: usize
  kernel_end :: usize

text \<open>
  The registers a context switch exchanges: \<open>live\<close> holds the callee-saved registers, the CSRs
  \<open>mepc\<close> and \<open>mstatus\<close>, and as stack pointer the user stack pointer saved in the trap frame;
  \<open>frame_mepc\<close> is the \<open>mepc\<close> slot of the trap frame, from which the trap exit restores the CSR.
\<close>

record kernel =
  TASKS :: "Task list"
  TASK_COUNT :: nat
  DEGRADE_LOGGED :: bool
  DEGRADED :: bool
  DEGRADE_TICK :: u32
  CURRENT_TASK :: nat
  RESTART_COUNTS :: restart_counts
  BLACKBOX :: blackbox
  BROKER :: broker
  IPC :: ipc_state
  PMP :: pmp_unit
  CAP_FAIL_COUNT :: "u8 list"
  WCET_MAX :: "u64 list"
  WCET_LAST :: "u64 list"
  TICK_COUNT :: u64
  mtimecmp :: u64
  live :: TaskContext
  frame_mepc :: usize
  MEM :: memory

type_synonym 'a kernel_op = "kernel \<Rightarrow> (kernel, 'a) outcome"

section \<open>Accesses to the task table\<close>

definition get_task :: "nat \<Rightarrow> Task kernel_op" where
  "get_task i k = (if i < MAX_TASKS then Returned (TASKS k ! i) k else Halted Panic k)"

definition map_task :: "nat \<Rightarrow> (Task \<Rightarrow> Task) \<Rightarrow> unit kernel_op" where
  "map_task i f k =
     (if i < MAX_TASKS then Returned () (k\<lparr>TASKS := (TASKS k)[i := f (TASKS k ! i)]\<rparr>) else Halted Panic k)"

definition log_event :: "BlackboxEvent \<Rightarrow> u8 \<Rightarrow> u8 list \<Rightarrow> kernel \<Rightarrow> kernel" where
  "log_event ev task data k = k\<lparr>BLACKBOX := bb_log (BLACKBOX k) ev task data\<rparr>"

definition call_policy :: "u8 \<Rightarrow> PolicyEvent \<Rightarrow> u8 \<Rightarrow> kernel \<Rightarrow> FailureMode \<times> kernel" where
  "call_policy task_id event dal k =
     (case apply_policy task_id event dal (RESTART_COUNTS k) (BLACKBOX k) of
        (m, rc, bb) \<Rightarrow> (m, k\<lparr>RESTART_COUNTS := rc, BLACKBOX := bb\<rparr>))"

definition halt_system :: "string \<Rightarrow> 'a kernel_op" where
  "halt_system reason k = Halted (Fatal reason) k"

definition shutdown_system :: "'a kernel_op" where
  "shutdown_system k = Halted Policy_Shutdown k"

section \<open>Context switch (arch/context.S)\<close>

text \<open>
  Saves the live registers into the context of \<open>old\<close> and loads those of \<open>new\<close>. A context that was
  saved here resumes after this call; a fresh one enters user mode through the trampoline.
\<close>

definition switch_context :: "platform \<Rightarrow> nat \<Rightarrow> nat \<Rightarrow> unit kernel_op" where
  "switch_context pf old new k =
     (let ts = (TASKS k)[old := (TASKS k ! old)\<lparr>t_context := (live k)\<lparr>ctx_ra := resume_address pf\<rparr>\<rparr>];
          ctx = t_context (ts ! new);
          k' = k\<lparr>TASKS := ts, live := ctx, frame_mepc := ctx_mepc ctx\<rparr>
      in if ctx_ra ctx = task_trampoline pf then Entered k' else Returned () k')"

end
