(* ===== verification/Scheduler.thy ===== *)
theory Scheduler
  imports Kernel_State
begin

text \<open>
  The fixed-priority scheduler, \<open>src/kernel/scheduler/mod.rs\<close>: task creation, the timer tick with
  its phases (integrity check, periods, recovery, watchdog, budget, selection and switch), the yield
  path, the start of the first task, and the actions the policy engine decides.
\<close>

section \<open>Pure helpers\<close>

definition is_selectable_by_scheduler :: "TaskState \<Rightarrow> bool" where
  "is_selectable_by_scheduler st \<longleftrightarrow> st = Ready \<or> st = Running"

definition is_period_reset_eligible :: "TaskState \<Rightarrow> bool" where
  "is_period_reset_eligible st \<longleftrightarrow> st = Suspended"

definition should_watchdog_timeout :: "u32 \<Rightarrow> u32 \<Rightarrow> bool" where
  "should_watchdog_timeout limit counter \<longleftrightarrow> 0 < limit \<and> limit \<le> counter"

definition select_step ::
  "TaskState list \<Rightarrow> u8 list \<Rightarrow> nat \<Rightarrow> nat option \<times> u8 \<Rightarrow> nat option \<times> u8" where
  "select_step states priorities i acc =
     (if is_selectable_by_scheduler (states ! i) \<and> priorities ! i < snd acc
      then (Some i, priorities ! i) else acc)"

definition select_highest_priority :: "TaskState list \<Rightarrow> u8 list \<Rightarrow> nat \<Rightarrow> nat option" where
  "select_highest_priority states priorities count =
     fst (fold (select_step states priorities)
           [0..<min count (min (length states) (length priorities))] (None, - 1))"

section \<open>Task creation\<close>

definition fresh_context :: "platform \<Rightarrow> usize \<Rightarrow> usize \<Rightarrow> TaskContext" where
  "fresh_context pf entry sp = ctx_zero\<lparr>ctx_ra := task_trampoline pf, ctx_sp := sp, ctx_mepc := entry,
     ctx_mstatus := MSTATUS_MPP_U OR MSTATUS_MPIE\<rparr>"

definition create_task :: "platform \<Rightarrow> TaskConfig \<Rightarrow> u8 option kernel_op" where
  "create_task pf cfg k =
     (let count = TASK_COUNT k
      in if MAX_TASKS \<le> count then Returned None k
         else if cfg_budget_cycles cfg = 0 then Returned None k
         else let stack_base = TASK_STACKS pf + of_nat count * TASK_STACK_SIZE;
                  stack_top_aligned = (stack_base + TASK_STACK_SIZE) AND NOT 0xF;
                  t = (TASKS k ! count)
                    \<lparr>t_id := of_nat count, t_state := Ready,
                     t_context := fresh_context pf (cfg_entry cfg) stack_top_aligned,
                     t_entry := cfg_entry cfg, t_stack_top := stack_top_aligned,
                     t_priority := cfg_priority cfg, t_dal := cfg_dal cfg,
                     t_budget_cycles := cfg_budget_cycles cfg, t_remaining_cycles := cfg_budget_cycles cfg,
                     t_period_ticks := cfg_period_ticks cfg, t_period_counter := 0,
                     t_watchdog_counter := 0, t_watchdog_limit := WATCHDOG_LIMIT,
                     t_watchdog_window_min := WATCHDOG_WINDOW_MIN,
                     t_original_budget := cfg_budget_cycles cfg,
                     t_pmp_addr_napot := drop_bit 2 stack_base OR PMP_NAPOT_MASK_8KB,
                     t_is_sntm_native := cfg_is_sntm_native cfg\<rparr>
         in Returned (Some (of_nat count)) (k\<lparr>TASKS := (TASKS k)[count := t], TASK_COUNT := count + 1\<rparr>))"

definition is_task_sntm_native :: "u8 \<Rightarrow> kernel \<Rightarrow> bool" where
  "is_task_sntm_native task_id k =
     (let idx = unat task_id
      in if MAX_TASKS \<le> idx then False
         else if t_state (TASKS k ! idx) = Dead \<or> t_state (TASKS k ! idx) = Isolated then False
         else t_is_sntm_native (TASKS k ! idx))"

definition native_create_task :: "platform \<Rightarrow> NativeTaskConfig \<Rightarrow> u8 option kernel_op" where
  "native_create_task pf cfg k =
     (let task_id = ncfg_task_id cfg; idx = unat task_id
      in if MAX_TASKS \<le> idx then Returned None k
         else if ncfg_budget_cycles cfg = 0 then Returned None k
         else case get_pmp_profile task_id of
             None \<Rightarrow> Returned None k
           | Some profile \<Rightarrow>
               if region_count profile < 1 then Returned None k
               else if t_state (TASKS k ! idx) = Ready \<or> t_state (TASKS k ! idx) = Running then Returned None k
               else let regions = active_regions profile;
                        text_region = regions ! 0;
                        stack_region = regions ! (length regions - 1);
                        entry = reg_base text_region;
                        stack_top_aligned = (reg_base stack_region + reg_size stack_region) AND NOT 0xF;
                        t = (TASKS k ! idx)
                          \<lparr>t_id := task_id, t_state := Ready,
                           t_context := fresh_context pf entry stack_top_aligned,
                           t_entry := entry, t_stack_top := stack_top_aligned,
                           t_priority := ncfg_priority cfg, t_dal := ncfg_dal cfg,
                           t_budget_cycles := ncfg_budget_cycles cfg,
                           t_remaining_cycles := ncfg_budget_cycles cfg,
                           t_period_ticks := ncfg_period_ticks cfg, t_period_counter := 0,
                           t_watchdog_counter := 0, t_watchdog_limit := WATCHDOG_LIMIT,
                           t_watchdog_window_min := 0, t_original_budget := ncfg_budget_cycles cfg,
                           t_pmp_addr_napot := 0, t_is_sntm_native := True\<rparr>
               in Returned (Some task_id)
                    (k\<lparr>TASKS := (TASKS k)[idx := t],
                       TASK_COUNT := (if TASK_COUNT k \<le> idx then idx + 1 else TASK_COUNT k)\<rparr>))"

section \<open>Policy actions\<close>

text \<open>The branch of \<open>apply_action\<close> for events of the kernel itself: the index is out of range.\<close>

definition apply_kernel_action :: "FailureMode \<Rightarrow> unit kernel_op" where
  "apply_kernel_action mode k = (if mode = Shutdown then shutdown_system k else Returned () k)"

definition restart_task :: "platform \<Rightarrow> nat \<Rightarrow> unit kernel_op" where
  "restart_task pf tid k =
     (if TASK_COUNT k \<le> tid then Returned () k
      else map_task tid (\<lambda>t. t\<lparr>t_context := fresh_context pf (t_entry t) (t_stack_top t)\<rparr>) k)"

definition degrade_task :: "Task \<Rightarrow> Task" where
  "degrade_task t =
     (if 2 \<le> t_dal t \<and> t_state t \<noteq> Dead \<and> t_state t \<noteq> Isolated
      then t\<lparr>t_state := Suspended, t_budget_cycles := t_budget_cycles t div 2\<rparr> else t)"

definition degrade_system :: "unit kernel_op" where
  "degrade_system k =
     (let k1 = k\<lparr>DEGRADED := True, DEGRADE_TICK := bb_current_tick (BLACKBOX k)\<rparr>
      in for_each [0..<TASK_COUNT k1] (\<lambda>i. map_task i degrade_task) k1)"

definition isolate_task :: "nat \<Rightarrow> unit kernel_op" where
  "isolate_task tid k =
     obind (if tid < TASK_COUNT k
            then obind (map_task tid (\<lambda>t. t\<lparr>t_state := Isolated\<rparr>) k)
              (\<lambda>_ k. Returned () (k\<lparr>BROKER := invalidate_task_capabilities (t_id (TASKS k ! tid)) (BROKER k)\<rparr>))
            else Returned () k)
     (\<lambda>_ k. obind (for_each [0..<TASK_COUNT k] (\<lambda>j k. obind (get_task j k) (\<lambda>_. Returned ())) k)
     (\<lambda>_ k. let isolated_count = length (filter (\<lambda>t. t_state t = Isolated) (take (TASK_COUNT k) (TASKS k)))
        in if 2 \<le> isolated_count
           then let k = log_event PolicyShutdown SYSTEM_TASK_ID [] k;
                    (action, k) = call_policy SYSTEM_TASK_ID MultiModuleCrash 0 k
                in apply_kernel_action action k
           else Returned () k))"

definition apply_action :: "platform \<Rightarrow> nat \<Rightarrow> FailureMode \<Rightarrow> unit kernel_op" where
  "apply_action pf task_id mode k =
     (if MAX_TASKS \<le> task_id then apply_kernel_action mode k
      else let tid = t_id (TASKS k ! task_id)
      in case mode of
           Restart \<Rightarrow> restart_task pf task_id (log_event TaskRestart tid [] k)
         | Isolate \<Rightarrow> isolate_task task_id (log_event PolicyIsolate tid [] k)
         | Degrade \<Rightarrow> degrade_system
             (if DEGRADE_LOGGED k then k
              else log_event PolicyDegrade tid [] (k\<lparr>DEGRADE_LOGGED := True\<rparr>))
         | Failover \<Rightarrow> degrade_system (log_event PolicyFailover tid [] k)
         | Alert \<Rightarrow> Returned () k
         | Shutdown \<Rightarrow> shutdown_system (log_event PolicyShutdown tid [] k))"

definition recover_task :: "Task \<Rightarrow> Task" where
  "recover_task t =
     (if 2 \<le> t_dal t \<and> t_state t = Suspended
      then t\<lparr>t_budget_cycles := t_original_budget t, t_remaining_cycles := t_original_budget t,
             t_state := Ready\<rparr> else t)"

abbreviation (input) DEGRADE_COOLDOWN_TICKS :: u32 where "DEGRADE_COOLDOWN_TICKS \<equiv> 100"

definition try_recover_from_degrade :: "unit kernel_op" where
  "try_recover_from_degrade k =
     (if \<not> DEGRADED k then Returned () k
      else if bb_current_tick (BLACKBOX k) - DEGRADE_TICK k < DEGRADE_COOLDOWN_TICKS then Returned () k
      else obind (for_each [0..<TASK_COUNT k] (\<lambda>i k. obind (get_task i k) (\<lambda>_. Returned ())) k)
        (\<lambda>_ k. if \<not> list_all (\<lambda>t. \<not> (t_dal t < 2 \<and> t_state t = Isolated)) (take (TASK_COUNT k) (TASKS k))
           then Returned () k
           else obind (for_each [0..<TASK_COUNT k] (\<lambda>j. map_task j recover_task) k)
             (\<lambda>_ k. Returned () (log_event KernelBoot KERNEL_BOOT_ID []
                (k\<lparr>DEGRADED := False, DEGRADE_LOGGED := False\<rparr>)))))"

definition handle_task_fault :: "platform \<Rightarrow> unit kernel_op" where
  "handle_task_fault pf k =
     (let current = CURRENT_TASK k
      in if current < TASK_COUNT k
         then obind (get_task current k) (\<lambda>t k.
           let (action, k) = call_policy (of_nat current) TaskFault (t_dal t) k
           in apply_action pf current action k)
         else Returned () k)"

section \<open>Selection and switch\<close>

text \<open>The first \<open>n\<close> values, padded to the array length.\<close>

definition padded :: "nat \<Rightarrow> 'a \<Rightarrow> 'a list \<Rightarrow> 'a list" where
  "padded n d xs = take n xs @ replicate (MAX_TASKS - min n (length xs)) d"

definition load_pmp :: "string \<Rightarrow> Task \<Rightarrow> unit kernel_op" where
  "load_pmp reason t k =
     (if t_is_sntm_native t
      then case get_pmp_profile (t_id t) of
          Some profile \<Rightarrow>
            (if 0 < region_count profile
             then Returned () (k\<lparr>PMP := reload_pmp_profile profile (PMP k)\<rparr>)
             else halt_system reason k)
        | None \<Rightarrow> halt_system reason k
      else Returned () (k\<lparr>PMP := update_task_pmp_shadow (t_pmp_addr_napot t) PMP_NAPOT_RW
                           (write_per_task_napot (t_pmp_addr_napot t) PMP_NAPOT_RW (PMP k))\<rparr>))"

definition do_priority_select_and_switch :: "platform \<Rightarrow> nat \<Rightarrow> unit kernel_op" where
  "do_priority_select_and_switch pf old k =
     (if TASK_COUNT k < 2 then Returned () k
      else let count = TASK_COUNT k;
               states = padded count Dead (map t_state (TASKS k));
               priorities = padded count 15 (map t_priority (TASKS k))
      in case select_highest_priority states priorities count of
           None \<Rightarrow> Returned () k
         | Some next \<Rightarrow>
             if next = old \<and> t_state (TASKS k ! old) = Running then Returned () k
             else obind (map_task old (\<lambda>t. if t_state t = Running then t\<lparr>t_state := Ready\<rparr> else t) k)
               (\<lambda>_ k. obind (map_task next (\<lambda>t. t\<lparr>t_state := Running\<rparr>) k)
               (\<lambda>_ k. let k = k\<lparr>CURRENT_TASK := next\<rparr>
                  in obind (load_pmp ''[SCHED] is_sntm_native task with EMPTY PMP_PROFILES'' (TASKS k ! next) k)
               (\<lambda>_. switch_context pf old next))))"

definition schedule_yield :: "platform \<Rightarrow> unit kernel_op" where
  "schedule_yield pf k =
     (if TASK_COUNT k = 0 then Returned () k else do_priority_select_and_switch pf (CURRENT_TASK k) k)"

definition first_step :: "Task list \<Rightarrow> nat \<Rightarrow> nat \<times> u8 \<Rightarrow> nat \<times> u8" where
  "first_step ts i acc =
     (if t_state (ts ! i) = Ready \<and> t_priority (ts ! i) < snd acc then (i, t_priority (ts ! i)) else acc)"

text \<open>Enters the first task; the trap stack pointer and the scrubbed caller-saved registers are not part of the state.\<close>

definition start_first_task :: "unit kernel_op" where
  "start_first_task k =
     (if TASK_COUNT k = 0
      then halt_system ''[POLICY] SHUTDOWN: no tasks'' (log_event PolicyShutdown SYSTEM_TASK_ID [] k)
      else let (best, best_prio) = fold (first_step (TASKS k)) [0..<min (TASK_COUNT k) MAX_TASKS] (0, 255)
      in if best_prio = 255
         then halt_system ''[POLICY] SHUTDOWN: no Ready task at boot'' (log_event PolicyShutdown SYSTEM_TASK_ID [] k)
         else obind (map_task best (\<lambda>t. t\<lparr>t_state := Running\<rparr>) k)
           (\<lambda>_ k. let k = k\<lparr>CURRENT_TASK := best\<rparr>
              in obind (load_pmp ''[BOOT] is_sntm_native task with EMPTY PMP_PROFILES'' (TASKS k ! best) k)
           (\<lambda>_ k. let ctx = t_context (TASKS k ! best)
              in Entered (k\<lparr>live := (live k)\<lparr>ctx_ra := 0, ctx_sp := ctx_sp ctx, ctx_mepc := ctx_mepc ctx,
                   ctx_mstatus := ctx_mstatus ctx\<rparr>\<rparr>))))"

section \<open>The timer tick\<close>

definition check_integrity :: "platform \<Rightarrow> unit kernel_op" where
  "check_integrity pf k =
     (if verify_pmp_integrity (PMP k) then Returned () k
      else let k = log_event PmpFail SYSTEM_TASK_ID [] k;
               (action, k) = call_policy SYSTEM_TASK_ID PmpIntegrityFail 0 k
      in apply_action pf SYSTEM_TASK_INDEX action k)"

text \<open>Phase 1.\<close>

definition period_step :: "Task \<Rightarrow> Task" where
  "period_step t =
     (if 0 < t_period_ticks t
      then let counter = t_period_counter t + 1
      in if t_period_ticks t \<le> counter
         then t\<lparr>t_period_counter := 0, t_remaining_cycles := t_budget_cycles t,
                t_state := (if is_period_reset_eligible (t_state t) then Ready else t_state t)\<rparr>
         else t\<lparr>t_period_counter := counter\<rparr>
      else t)"

text \<open>Phase 1.5.\<close>

definition watchdog_step :: "platform \<Rightarrow> nat \<Rightarrow> unit kernel_op" where
  "watchdog_step pf w k =
     obind (get_task w k) (\<lambda>t0 k.
       let st = t_state t0
       in obind (if st = Running \<or> st = Ready then map_task w (\<lambda>t. t\<lparr>t_ipc_send_count := 0\<rparr>) k else Returned () k)
       (\<lambda>_ k. if st = Running
          then obind (map_task w (\<lambda>t. t\<lparr>t_watchdog_counter := saturating_add (t_watchdog_counter t) 1\<rparr>) k)
            (\<lambda>_ k. let t = TASKS k ! w
               in if should_watchdog_timeout (t_watchdog_limit t) (t_watchdog_counter t)
                  then let k = log_event WatchdogTimeoutEv (t_id t) [] k;
                           (action, k) = call_policy (t_id t) WatchdogTimeout (t_dal t) k
                       in obind (apply_action pf w action k)
                            (\<lambda>_. map_task w (\<lambda>t. t\<lparr>t_watchdog_counter := 0\<rparr>))
                  else Returned () k)
          else Returned () k))"

text \<open>Phase 2.\<close>

definition budget_step :: "platform \<Rightarrow> nat \<Rightarrow> unit kernel_op" where
  "budget_step pf old k =
     obind (get_task old k) (\<lambda>t k.
       if 0 < t_budget_cycles t \<and> t_state t = Running
       then let remaining = saturating_sub (t_remaining_cycles t) CYCLES_PER_TICK
       in obind (map_task old (\<lambda>t. t\<lparr>t_remaining_cycles := remaining,
                   t_state := (if remaining = 0 then Suspended else t_state t)\<rparr>) k)
          (\<lambda>_ k. if remaining = 0
             then let k = log_event BudgetExhaustedEv (t_id t) [t_id t, t_dal t] k;
                      (action, k) = call_policy (t_id t) BudgetExhausted (t_dal t) k
                  in apply_action pf old action k
             else Returned () k)
       else Returned () k)"

definition schedule_timer_tick :: "platform \<Rightarrow> unit kernel_op" where
  "schedule_timer_tick pf k =
     (if TASK_COUNT k = 0 then Returned () k
      else let k = k\<lparr>BLACKBOX := bb_advance_tick (BLACKBOX k)\<rparr>; old = CURRENT_TASK k
      in obind (check_integrity pf k)
         (\<lambda>_ k. obind (try_recover_from_degrade
                   (k\<lparr>TASKS := update_first (min (TASK_COUNT k) MAX_TASKS) period_step (TASKS k)\<rparr>))
         (\<lambda>_ k. obind (for_each [0..<min (TASK_COUNT k) MAX_TASKS] (watchdog_step pf) k)
         (\<lambda>_ k. obind (budget_step pf old k)
         (\<lambda>_. do_priority_select_and_switch pf old)))))"

section \<open>Queries and counters\<close>

definition current_task_id :: "kernel \<Rightarrow> u8" where
  "current_task_id k = of_nat (CURRENT_TASK k)"

definition task_stack_range :: "u8 \<Rightarrow> (usize \<times> usize) option kernel_op" where
  "task_stack_range task_id k =
     (let idx = unat task_id
      in if TASK_COUNT k \<le> idx then Returned None k
         else obind (get_task idx k) (\<lambda>t. Returned
           (if t_state t = Dead \<or> t_state t = Isolated then None
            else if t_stack_top t < TASK_STACK_SIZE then None
            else Some (t_stack_top t - TASK_STACK_SIZE, t_stack_top t))))"

definition watchdog_kick :: "platform \<Rightarrow> unit kernel_op" where
  "watchdog_kick pf k =
     (let current = CURRENT_TASK k
      in if current < TASK_COUNT k
         then obind (get_task current k) (\<lambda>t k.
           obind (if 0 < t_watchdog_window_min t \<and> t_watchdog_counter t < t_watchdog_window_min t
                  then let k = log_event WatchdogTimeoutEv (t_id t) [] k;
                           (action, k) = call_policy (t_id t) WatchdogTimeout (t_dal t) k
                       in apply_action pf current action k
                  else Returned () k)
           (\<lambda>_. map_task current (\<lambda>t. t\<lparr>t_watchdog_counter := 0\<rparr>)))
         else Returned () k)"

definition increment_syscall_count :: "unit kernel_op" where
  "increment_syscall_count k =
     (if CURRENT_TASK k < TASK_COUNT k
      then map_task (CURRENT_TASK k) (\<lambda>t. t\<lparr>t_syscall_count := t_syscall_count t + 1\<rparr>) k
      else Returned () k)"

definition check_ipc_rate :: "bool kernel_op" where
  "check_ipc_rate k =
     (if CURRENT_TASK k < TASK_COUNT k
      then obind (get_task (CURRENT_TASK k) k) (\<lambda>t. Returned (t_ipc_send_count t < MAX_SENDS_PER_TICK))
      else Returned False k)"

definition increment_ipc_send :: "unit kernel_op" where
  "increment_ipc_send k =
     (if CURRENT_TASK k < TASK_COUNT k
      then map_task (CURRENT_TASK k) (\<lambda>t. t\<lparr>t_ipc_send_count := t_ipc_send_count t + 1\<rparr>) k
      else Returned () k)"

definition query_task_info :: "usize \<Rightarrow> usize kernel_op" where
  "query_task_info task_id k =
     (if TASK_COUNT k \<le> unat task_id then Returned 0 k
      else obind (get_task (unat task_id) k) (\<lambda>t. Returned
        (push_bit 8 (state_code (t_state t)) OR push_bit 4 (ucast (t_priority t)) OR ucast (t_dal t))))"

end
