(* ===== verification/Scheduler_Inv.thy ===== *)
theory Scheduler_Inv
  imports Scheduler
begin

text \<open>
  Correctness of the scheduler: the selection loop picks the most urgent task; every operation but
  the switch is quiet (it moves task states only along allowed edges and never panics); the switch
  loads the memory of the task it selects; so every kernel entry keeps the kernel's invariant, and
  after a tick the most urgent task runs within its budget.
\<close>

section \<open>Selection\<close>

text \<open>What the loop has found among the first \<open>n\<close> tasks.\<close>

definition best_upto :: "TaskState list \<Rightarrow> u8 list \<Rightarrow> nat \<Rightarrow> nat option \<times> u8 \<Rightarrow> bool" where
  "best_upto states priorities n acc \<longleftrightarrow>
     (\<forall>i<n. is_selectable_by_scheduler (states ! i) \<longrightarrow> snd acc \<le> priorities ! i)
     \<and> (case fst acc of
          None \<Rightarrow> snd acc = - 1
        | Some b \<Rightarrow> b < n \<and> snd acc = priorities ! b \<and> snd acc \<noteq> - 1
            \<and> is_selectable_by_scheduler (states ! b)
            \<and> (\<forall>i<b. is_selectable_by_scheduler (states ! i) \<longrightarrow> snd acc < priorities ! i))"

lemma best_upto_step:
  assumes "best_upto states priorities n acc"
  shows "best_upto states priorities (Suc n) (select_step states priorities n acc)"
proof (cases "is_selectable_by_scheduler (states ! n) \<and> priorities ! n < snd acc")
  case True
  then have "priorities ! n \<noteq> - 1" using word_order.extremum_strict [of "snd acc"] by auto
  with True assms show ?thesis
    by (auto simp: best_upto_def select_step_def less_Suc_eq intro: order.strict_trans2 less_imp_le)
next
  case False
  with assms show ?thesis
    by (auto simp: best_upto_def select_step_def less_Suc_eq not_less split: option.splits)
qed

lemma best_upto_fold: "best_upto states priorities n (fold (select_step states priorities) [0..<n] (None, - 1))"
proof (induction n)
  case 0
  then show ?case by (simp add: best_upto_def)
next
  case (Suc n)
  then show ?case by (simp add: best_upto_step)
qed

text \<open>
  The scheduler picks the right task: the selected index is a Ready or Running task whose
  priority number no other such task undercuts, the first one among equals; nothing is selected
  exactly if every Ready or Running task has the reserved priority 255.
\<close>
theorem select_highest_priority_correct:
  assumes n: "n = min count (min (length states) (length priorities))"
  shows "case select_highest_priority states priorities count of
      None \<Rightarrow> \<forall>i<n. is_selectable_by_scheduler (states ! i) \<longrightarrow> priorities ! i = - 1
    | Some b \<Rightarrow> b < n \<and> is_selectable_by_scheduler (states ! b) \<and> priorities ! b \<noteq> - 1
        \<and> (\<forall>i<n. is_selectable_by_scheduler (states ! i) \<longrightarrow> priorities ! b \<le> priorities ! i)
        \<and> (\<forall>i<b. is_selectable_by_scheduler (states ! i) \<longrightarrow> priorities ! b < priorities ! i)"
proof -
  have ext: "- 1 \<le> x \<Longrightarrow> x = - 1" for x :: u8 by (simp add: word_order.extremum_unique)
  show ?thesis
    using best_upto_fold [of states priorities n]
    by (auto simp: best_upto_def select_highest_priority_def n split: option.split intro: ext)
qed

theorem select_highest_priority_correct_witness:
  "select_highest_priority [Dead, Ready, Isolated, Running] [0, 6, 1, 6] 4 = Some 1
   \<and> (1 :: nat) < min 4 (min (length [Dead, Ready, Isolated, Running]) (length [0, 6, 1, 6 :: u8]))"
  using select_highest_priority_correct [OF refl, of 4 "[Dead, Ready, Isolated, Running]" "[0, 6, 1, 6]"]
  by (simp add: select_highest_priority_def select_step_def is_selectable_by_scheduler_def upt_rec)

section \<open>What never changes between switches\<close>

definition state_evolves :: "TaskState \<Rightarrow> TaskState \<Rightarrow> bool" where
  "state_evolves s s' \<longleftrightarrow> s' = s \<or> s' = Isolated
     \<or> (s = Ready \<or> s = Running \<or> s = Suspended) \<and> (s' = Ready \<or> s' = Suspended)"

definition task_evolves :: "Task \<Rightarrow> Task \<Rightarrow> bool" where
  "task_evolves t t' \<longleftrightarrow> t_id t' = t_id t \<and> t_is_sntm_native t' = t_is_sntm_native t
     \<and> t_pmp_addr_napot t' = t_pmp_addr_napot t \<and> t_entry t' = t_entry t \<and> t_stack_top t' = t_stack_top t
     \<and> t_priority t' = t_priority t \<and> t_dal t' = t_dal t \<and> t_original_budget t' = t_original_budget t
     \<and> state_evolves (t_state t) (t_state t')"

text \<open>
  A step that does not switch tasks: it changes task states only along \<open>state_evolves\<close> and leaves
  the identity of the tasks, the current task, the PMP unit, the channels, the processor and memory
  alone.
\<close>

definition quiet :: "kernel \<Rightarrow> kernel \<Rightarrow> bool" where
  "quiet k k' \<longleftrightarrow> list_all2 task_evolves (TASKS k) (TASKS k')
     \<and> TASK_COUNT k' = TASK_COUNT k \<and> CURRENT_TASK k' = CURRENT_TASK k \<and> PMP k' = PMP k \<and> IPC k' = IPC k
     \<and> CAP_FAIL_COUNT k' = CAP_FAIL_COUNT k \<and> WCET_MAX k' = WCET_MAX k \<and> WCET_LAST k' = WCET_LAST k
     \<and> live k' = live k \<and> frame_mepc k' = frame_mepc k \<and> MEM k' = MEM k
     \<and> length (RESTART_COUNTS k') = length (RESTART_COUNTS k)
     \<and> (bb_inv (BLACKBOX k) \<longrightarrow> bb_inv (BLACKBOX k')) \<and> (broker_inv (BROKER k) \<longrightarrow> broker_inv (BROKER k'))"

lemma state_evolves_refl [simp]: "state_evolves s s"
  by (simp add: state_evolves_def)

lemma task_evolves_refl [simp]: "task_evolves t t"
  by (simp add: task_evolves_def)

lemma task_evolves_trans: "task_evolves t u \<Longrightarrow> task_evolves u v \<Longrightarrow> task_evolves t v"
  by (auto simp: task_evolves_def state_evolves_def)

lemma tasks_evolve_trans:
  "list_all2 task_evolves xs ys \<Longrightarrow> list_all2 task_evolves ys zs \<Longrightarrow> list_all2 task_evolves xs zs"
  by (rule list_all2_trans [OF task_evolves_trans])

lemma quiet_refl [simp]: "quiet k k"
  by (simp add: quiet_def list.rel_refl)

lemma quiet_trans: "quiet a b \<Longrightarrow> quiet b c \<Longrightarrow> quiet a c"
  unfolding quiet_def by (auto intro: tasks_evolve_trans)

definition isolated_count :: "kernel \<Rightarrow> nat" where
  "isolated_count k = length (filter (\<lambda>t. t_state t = Isolated) (take (TASK_COUNT k) (TASKS k)))"

text \<open>A run of such steps; it halts only when two tasks are isolated.\<close>

fun quiet_run :: "kernel \<Rightarrow> (kernel, 'a) outcome \<Rightarrow> bool" where
  "quiet_run k (Halted r s) = (r = Policy_Shutdown \<and> quiet k s \<and> 2 \<le> isolated_count s)"
| "quiet_run k (Entered s) = False"
| "quiet_run k (Returned x s) = quiet k s"

lemma quiet_run_trans: "quiet k s \<Longrightarrow> quiet_run s m \<Longrightarrow> quiet_run k m"
  by (cases m) (auto intro: quiet_trans)

lemma quiet_run_obind:
  assumes "quiet_run k m" and "\<And>x s. m = Returned x s \<Longrightarrow> quiet k s \<Longrightarrow> quiet_run s (f x s)"
  shows "quiet_run k (obind m f)"
  using assms by (cases m) (auto intro: quiet_run_trans)

lemma quiet_run_for_each:
  assumes "\<And>i s. i \<in> set is \<Longrightarrow> quiet k s \<Longrightarrow> quiet_run s (body i s)"
  shows "quiet_run k (for_each is body k)"
proof -
  have "quiet k s \<Longrightarrow> (\<And>i s. i \<in> set is \<Longrightarrow> quiet k s \<Longrightarrow> quiet_run s (body i s)) \<Longrightarrow>
      quiet_run s (for_each is body s)" for s
    by (induction "is" arbitrary: s) (auto intro!: quiet_run_obind intro: quiet_trans)
  then show ?thesis using assms by simp
qed

text \<open>The sizes of the arrays.\<close>

definition shape :: "kernel \<Rightarrow> bool" where
  "shape k \<longleftrightarrow> length (TASKS k) = MAX_TASKS \<and> TASK_COUNT k \<le> MAX_TASKS \<and> CURRENT_TASK k < MAX_TASKS
     \<and> length (RESTART_COUNTS k) = MAX_TASKS"

lemma quiet_shape: "quiet k k' \<Longrightarrow> shape k' = shape k"
  by (auto simp: quiet_def shape_def dest: list_all2_lengthD)

lemma quiet_nth: "quiet k k' \<Longrightarrow> shape k \<Longrightarrow> i < 8 \<Longrightarrow> task_evolves (TASKS k ! i) (TASKS k' ! i)"
  by (simp add: quiet_def shape_def list_all2_conv_all_nth)

lemma quiet_map_task:
  assumes "shape k" "i < 8" "task_evolves (TASKS k ! i) (f (TASKS k ! i))"
  shows "quiet_run k (map_task i f k)"
  using assms by (auto simp: map_task_def quiet_def shape_def list_all2_conv_all_nth nth_list_update)

lemma quiet_get_task: "shape k \<Longrightarrow> i < 8 \<Longrightarrow> quiet_run k (get_task i k)"
  by (simp add: get_task_def)

lemma quiet_log: "quiet k (log_event ev t d k)"
  by (simp add: quiet_def log_event_def bb_log_inv list.rel_refl)

lemma quiet_policy: "call_policy t ev dal k = (m, k') \<Longrightarrow> quiet k k'"
  using apply_policy_blackbox [of t ev dal "RESTART_COUNTS k" "BLACKBOX k"]
  by (auto simp: call_policy_def quiet_def list.rel_refl apply_policy_def dest: length_apply_policy
      split: prod.splits)

lemma policy_mode: "call_policy t ev dal k = (m, k') \<Longrightarrow>
   m = decide_action (policy_code ev) (get_restart_count t (RESTART_COUNTS k)) dal"
  using apply_policy_mode [of t ev dal "RESTART_COUNTS k" "BLACKBOX k"]
  by (auto simp: call_policy_def split: prod.splits)


section \<open>Every operation but the switch is quiet\<close>

lemma quiet_run_log: "quiet_run (log_event ev t d k) m \<Longrightarrow> quiet_run k m"
  by (rule quiet_run_trans [OF quiet_log])

lemma shape_log [simp]: "shape (log_event ev t d k) = shape k"
  by (simp add: shape_def log_event_def)

lemma quiet_restart_task: "shape k \<Longrightarrow> i < 8 \<Longrightarrow> quiet_run k (restart_task pf i k)"
  by (auto simp: restart_task_def task_evolves_def intro!: quiet_map_task)

lemma quiet_map_tasks:
  assumes "shape k" "\<And>t. task_evolves t (f t)"
  shows "quiet_run k (for_each [0..<TASK_COUNT k] (\<lambda>i. map_task i f) k)"
proof (rule quiet_run_for_each)
  fix i s assume "i \<in> set [0..<TASK_COUNT k]" "quiet k s"
  then show "quiet_run s (map_task i f s)"
    using assms quiet_shape [of k s] by (intro quiet_map_task) (auto simp: shape_def)
qed

lemma quiet_get_tasks:
  assumes "shape k"
  shows "quiet_run k (for_each [0..<TASK_COUNT k] (\<lambda>i k. obind (get_task i k) (\<lambda>_. Returned ())) k)"
proof (rule quiet_run_for_each)
  fix i s assume "i \<in> set [0..<TASK_COUNT k]" "quiet k s"
  then show "quiet_run s (obind (get_task i s) (\<lambda>_. Returned ()))"
    using assms quiet_shape [of k s] by (auto simp: shape_def get_task_def)
qed

lemma get_tasks_state:
  assumes "shape k"
  shows "for_each [0..<TASK_COUNT k] (\<lambda>i k. obind (get_task i k) (\<lambda>_. Returned ())) k = Returned () k"
proof -
  have "(\<And>i. i \<in> set is \<Longrightarrow> i < 8) \<Longrightarrow> for_each is (\<lambda>i k. obind (get_task i k) (\<lambda>_. Returned ())) k = Returned () k" for "is"
    by (induction "is") (auto simp: get_task_def)
  from this [of "[0..<TASK_COUNT k]"] show ?thesis using assms by (simp add: shape_def)
qed

lemma degrade_task_evolves: "task_evolves t (degrade_task t)"
  by (cases "t_state t") (auto simp: degrade_task_def task_evolves_def state_evolves_def)

lemma recover_task_evolves: "task_evolves t (recover_task t)"
  by (auto simp: recover_task_def task_evolves_def state_evolves_def)

lemma period_step_evolves: "task_evolves t (period_step t)"
  by (auto simp: period_step_def task_evolves_def state_evolves_def is_period_reset_eligible_def Let_def)

lemma quiet_degrade_system:
  assumes "shape k"
  shows "quiet_run k (degrade_system k)"
proof -
  let ?k = "k\<lparr>DEGRADED := True, DEGRADE_TICK := bb_current_tick (BLACKBOX k)\<rparr>"
  have q: "quiet k ?k" by (simp add: quiet_def list.rel_refl)
  then have "quiet_run ?k (for_each [0..<TASK_COUNT ?k] (\<lambda>i. map_task i degrade_task) ?k)"
    using assms quiet_shape [OF q]
    by (intro quiet_map_tasks) (auto simp: degrade_task_evolves)
  then show ?thesis using q by (auto simp: degrade_system_def Let_def intro: quiet_run_trans)
qed

lemma policy_shutdown_events:
  assumes "ev \<noteq> PmpIntegrityFail" "ev \<noteq> MultiModuleCrash"
  shows "decide_action (policy_code ev) c dal \<noteq> Shutdown"
  using assms by (cases ev) (auto simp: decide_action_def)

lemma quiet_invalidate:
  "quiet k (k\<lparr>BROKER := invalidate_task_capabilities t (BROKER k)\<rparr>)"
  using broker_step_inv [of "BROKER k" otp H "Revoke t" for otp H] by (simp add: quiet_def list.rel_refl)

lemma quiet_isolate_task:
  assumes "shape k" "i < 8"
  shows "quiet_run k (isolate_task i k)"
  unfolding isolate_task_def
proof (rule quiet_run_obind, goal_cases)
  case 1
  show ?case using assms
    by (auto intro!: quiet_run_obind quiet_map_task quiet_invalidate simp: task_evolves_def state_evolves_def)
next
  case (2 _ s)
  then have s: "shape s" using quiet_shape assms(1) by blast
  obtain m s' where p: "call_policy SYSTEM_TASK_ID MultiModuleCrash 0 (log_event PolicyShutdown SYSTEM_TASK_ID [] s) = (m, s')"
    by (metis surj_pair)
  have q: "quiet s s'" using quiet_trans [OF quiet_log quiet_policy [OF p]] .
  have "m = Shutdown" using policy_mode [OF p] by (simp add: decide_action_def)
  moreover have "TASKS s' = TASKS s" "TASK_COUNT s' = TASK_COUNT s"
    using p by (auto simp: call_policy_def log_event_def split: prod.splits)
  ultimately show ?case
    using p q by (auto simp: get_tasks_state [OF s] Let_def apply_kernel_action_def shutdown_system_def isolated_count_def)
qed

lemma quiet_apply_action:
  assumes "shape k" "i < 8" "mode \<noteq> Shutdown"
  shows "quiet_run k (apply_action pf i mode k)"
proof -
  have sh: "shape (log_event ev t d k)" for ev t d using assms(1) by simp
  have dl: "quiet k (k\<lparr>DEGRADE_LOGGED := True\<rparr>)" by (simp add: quiet_def list.rel_refl)
  have dsh: "shape (log_event ev t d (k\<lparr>DEGRADE_LOGGED := True\<rparr>))" for ev t d
    using assms(1) by simp (simp add: shape_def)
  have "quiet_run k (degrade_system (log_event ev t d (k\<lparr>DEGRADE_LOGGED := True\<rparr>)))" for ev t d
    by (rule quiet_run_trans [OF dl quiet_run_log [OF quiet_degrade_system [OF dsh]]])
  moreover have "quiet_run k (restart_task pf i (log_event ev t d k))" for ev t d
    by (rule quiet_run_log [OF quiet_restart_task [OF sh assms(2)]])
  moreover have "quiet_run k (isolate_task i (log_event ev t d k))" for ev t d
    by (rule quiet_run_log [OF quiet_isolate_task [OF sh assms(2)]])
  moreover have "quiet_run k (degrade_system (log_event ev t d k))" for ev t d
    by (rule quiet_run_log [OF quiet_degrade_system [OF sh]])
  moreover have "quiet_run k (degrade_system k)" by (rule quiet_degrade_system [OF assms(1)])
  ultimately show ?thesis using assms(2,3) by (cases mode) (simp_all add: apply_action_def Let_def)
qed

lemma quiet_policy_action:
  assumes "shape k" "i < 8" "ev \<noteq> PmpIntegrityFail" "ev \<noteq> MultiModuleCrash"
  shows "quiet_run k (case call_policy t ev dal k of (action, k) \<Rightarrow> apply_action pf i action k)"
proof -
  obtain m s where p: "call_policy t ev dal k = (m, s)" by (metis surj_pair)
  have "m \<noteq> Shutdown" using policy_mode [OF p] policy_shutdown_events [OF assms(3,4)] by simp
  then have "quiet_run s (apply_action pf i m s)"
    using quiet_shape [OF quiet_policy [OF p]] assms by (intro quiet_apply_action) auto
  then show ?thesis using p quiet_run_trans [OF quiet_policy [OF p]] by simp
qed

lemma quiet_policy_action_log:
  assumes "shape k" "i < 8" "ev \<noteq> PmpIntegrityFail" "ev \<noteq> MultiModuleCrash"
  shows "quiet_run k (case call_policy t ev dal (log_event lev lt ld k) of (action, k) \<Rightarrow> apply_action pf i action k)"
  using assms by (intro quiet_run_log [OF quiet_policy_action]) simp_all

lemma quiet_try_recover:
  assumes "shape k"
  shows "quiet_run k (try_recover_from_degrade k)"
proof -
  have fin: "quiet s (log_event ev t d (s\<lparr>DEGRADED := False, DEGRADE_LOGGED := False\<rparr>))" for s ev t d
    by (simp add: quiet_def log_event_def bb_log_inv list.rel_refl)
  have "quiet_run k (obind (for_each [0..<TASK_COUNT k] (\<lambda>j. map_task j recover_task) k)
             (\<lambda>_ k. Returned () (log_event KernelBoot KERNEL_BOOT_ID []
                (k\<lparr>DEGRADED := False, DEGRADE_LOGGED := False\<rparr>))))"
    using quiet_map_tasks [OF assms recover_task_evolves] by (rule quiet_run_obind) (simp add: fin)
  then show ?thesis by (simp add: try_recover_from_degrade_def get_tasks_state [OF assms])
qed

lemma quiet_watchdog_step:
  assumes "shape k" "w < 8"
  shows "quiet_run k (watchdog_step pf w k)"
  unfolding watchdog_step_def
proof (rule quiet_run_obind [OF quiet_get_task [OF assms]], goal_cases)
  case (1 t0 s)
  then have s: "shape s" using quiet_shape assms(1) by blast
  show ?case unfolding Let_def
  proof (rule quiet_run_obind, goal_cases)
    case 1
    show ?case using s assms(2) by (auto intro!: quiet_map_task simp: task_evolves_def)
  next
    case (2 _ s1)
    then have s1: "shape s1" using quiet_shape s by blast
    have bump: "quiet_run s1 (map_task w (\<lambda>t. t\<lparr>t_watchdog_counter := saturating_add (t_watchdog_counter t) 1\<rparr>) s1)"
      using s1 assms(2) by (auto intro!: quiet_map_task simp: task_evolves_def)
    have reset: "quiet_run s2 (map_task w (\<lambda>t. t\<lparr>t_watchdog_counter := 0\<rparr>) s2)" if "shape s2" for s2
      using that assms(2) by (auto intro!: quiet_map_task simp: task_evolves_def)
    have timeout: "quiet_run s2 (case call_policy t WatchdogTimeout dal (log_event ev lt ld s2) of
        (action, k) \<Rightarrow> obind (apply_action pf w action k) (\<lambda>_. map_task w (\<lambda>t. t\<lparr>t_watchdog_counter := 0\<rparr>)))"
      if "shape s2" for s2 t dal ev lt ld
    proof -
      have "quiet_run s2 (obind (case call_policy t WatchdogTimeout dal (log_event ev lt ld s2) of
          (action, k) \<Rightarrow> apply_action pf w action k) (\<lambda>_. map_task w (\<lambda>t. t\<lparr>t_watchdog_counter := 0\<rparr>)))"
        using that assms(2) quiet_shape by (intro quiet_run_obind quiet_policy_action_log reset) blast+
      then show ?thesis by (simp add: case_prod_beta)
    qed
    show ?case using bump
    proof (split if_split, intro conjI impI, goal_cases)
      case 1
      show ?case using bump(1) quiet_shape s1
        by (intro quiet_run_obind [OF bump]) (auto intro!: timeout)
    qed simp
  qed
qed

lemma quiet_budget_step:
  assumes "shape k" "i < 8"
  shows "quiet_run k (budget_step pf i k)"
  unfolding budget_step_def
proof (rule quiet_run_obind [OF quiet_get_task [OF assms]], goal_cases)
  case (1 t s)
  then have s: "shape s" "t = TASKS s ! i" using quiet_shape assms(1) by (auto simp: get_task_def split: if_splits)
  let ?r = "saturating_sub (t_remaining_cycles t) CYCLES_PER_TICK"
  show ?case unfolding Let_def
  proof (split if_split, intro conjI impI, goal_cases)
    case 1
    have charge: "quiet_run s (map_task i (\<lambda>t. t\<lparr>t_remaining_cycles := ?r,
        t_state := (if ?r = 0 then Suspended else t_state t)\<rparr>) s)"
      using s 1 assms(2) by (intro quiet_map_task) (auto simp: task_evolves_def state_evolves_def)
    show ?case
    proof (rule quiet_run_obind [OF charge], goal_cases)
      case (1 _ s1)
      then have "shape s1" using quiet_shape s(1) by blast
      then show ?case using assms(2) quiet_policy_action_log [of s1 i BudgetExhausted] by simp
    qed
  qed simp
qed

lemma quiet_watchdog_kick:
  assumes "shape k"
  shows "quiet_run k (watchdog_kick pf k)"
proof -
  have c: "CURRENT_TASK k < 8" using assms by (simp add: shape_def)
  have reset: "quiet_run s (map_task (CURRENT_TASK k) (\<lambda>t. t\<lparr>t_watchdog_counter := 0\<rparr>) s)" if "shape s" for s
    using that c by (auto intro!: quiet_map_task simp: task_evolves_def)
  have kick: "quiet_run k (case call_policy t WatchdogTimeout dal (log_event ev lt ld k) of
      (action, s) \<Rightarrow> apply_action pf (CURRENT_TASK k) action s)" for t dal ev lt ld
    by (rule quiet_policy_action_log [OF assms c]) simp_all
  show ?thesis
    using c quiet_shape assms
    by (auto simp: watchdog_kick_def get_task_def Let_def intro!: quiet_run_obind reset kick)
qed

lemma quiet_handle_task_fault:
  assumes "shape k"
  shows "quiet_run k (handle_task_fault pf k)"
  using assms quiet_policy_action [of k "CURRENT_TASK k" TaskFault]
  by (auto simp: handle_task_fault_def get_task_def shape_def Let_def)

section \<open>The invariant of a running kernel\<close>

text \<open>A task that may run has its own slot number as id and memory the PMP can hold.\<close>

definition task_wf :: "nat \<Rightarrow> Task \<Rightarrow> bool" where
  "task_wf i t \<longleftrightarrow> (t_state t = Ready \<or> t_state t = Running \<or> t_state t = Suspended) \<longrightarrow>
     t_id t = of_nat i
     \<and> (if t_is_sntm_native t then \<exists>p. get_pmp_profile (t_id t) = Some p \<and> 0 < region_count p
        else t_pmp_addr_napot t < 2 ^ 54)"

definition task_switch :: "Task \<Rightarrow> pmp_switch" where
  "task_switch t = (if t_is_sntm_native t then To_profile (the (get_pmp_profile (t_id t)))
     else To_stack (t_pmp_addr_napot t))"

text \<open>The PMP entries a task asks for, behind the kernel's eight.\<close>

definition switch_entries :: "pmp_switch \<Rightarrow> (u64 \<times> u8) list" where
  "switch_entries sw = (case sw of
     To_profile p \<Rightarrow> profile_plan p @ replicate (8 - length (profile_plan p)) (0, 0)
   | To_stack a \<Rightarrow> (a, 0x1B) # replicate 7 (0, 0))"

definition kernel_inv :: "kernel \<Rightarrow> bool" where
  "kernel_inv k \<longleftrightarrow> shape k \<and> (\<forall>i<MAX_TASKS. task_wf i (TASKS k ! i))
     \<and> (\<forall>i<MAX_TASKS. t_state (TASKS k ! i) = Running \<longrightarrow> i = CURRENT_TASK k)
     \<and> pmp_inv (PMP k) \<and> verify_pmp_integrity (PMP k) \<and> ipc_inv (IPC k) \<and> bb_inv (BLACKBOX k) \<and> broker_inv (BROKER k)
     \<and> length (CAP_FAIL_COUNT k) = MAX_TASKS \<and> length (WCET_MAX k) = SYSCALL_COUNT \<and> length (WCET_LAST k) = SYSCALL_COUNT"

text \<open>Once a task runs, the PMP unit holds its memory and the kernel's.\<close>

definition pmp_current :: "kernel \<Rightarrow> bool" where
  "pmp_current k \<longleftrightarrow> drop 8 (pmp_entries (PMP k)) = switch_entries (task_switch (TASKS k ! CURRENT_TASK k))"

lemma task_wf_evolves: "task_wf i t \<Longrightarrow> task_evolves t t' \<Longrightarrow> task_wf i t'"
  by (auto simp: task_wf_def task_evolves_def state_evolves_def split: if_splits)

lemma task_switch_evolves: "task_evolves t t' \<Longrightarrow> task_switch t' = task_switch t"
  by (simp add: task_switch_def task_evolves_def)

lemma quiet_kernel_inv:
  assumes "kernel_inv k" "quiet k k'"
  shows "kernel_inv k'"
proof -
  have sh: "shape k" "shape k'" using assms quiet_shape by (auto simp: kernel_inv_def)
  have ev: "task_evolves (TASKS k ! i) (TASKS k' ! i)" if "i < 8" for i
    using quiet_nth [OF assms(2) sh(1) that] .
  have run: "t_state (TASKS k ! i) = Running" if "i < 8" "t_state (TASKS k' ! i) = Running" for i
    using ev [OF that(1)] that(2) by (auto simp: task_evolves_def state_evolves_def)
  show ?thesis
    using assms sh ev run by (auto simp: kernel_inv_def quiet_def intro: task_wf_evolves)
qed

lemma quiet_pmp_current:
  assumes "kernel_inv k" "pmp_current k" "quiet k k'"
  shows "pmp_current k'"
proof -
  have "shape k" using assms(1) by (simp add: kernel_inv_def)
  then have "task_evolves (TASKS k ! CURRENT_TASK k) (TASKS k' ! CURRENT_TASK k)"
    using quiet_nth [OF assms(3)] by (simp add: shape_def)
  then show ?thesis using assms(2,3) by (simp add: pmp_current_def quiet_def task_switch_evolves)
qed

lemma task_switch_ok:
  assumes "task_wf i t" "t_state t = Ready \<or> t_state t = Running"
  shows "switch_ok (task_switch t)"
  using assms get_pmp_profile_ok by (auto simp: task_wf_def task_switch_def split: if_splits)

lemma load_pmp_eq:
  assumes "task_wf i t" "t_state t = Ready \<or> t_state t = Running"
  shows "load_pmp reason t k = Returned () (k\<lparr>PMP := do_switch (task_switch t) (PMP k)\<rparr>)"
  using assms by (auto simp: load_pmp_def task_wf_def task_switch_def legacy_switch_def split: if_splits)

lemma do_switch_entries:
  assumes "pmp_inv h" "switch_ok sw"
  shows "drop 8 (pmp_entries (do_switch sw h)) = switch_entries sw
    \<and> take 8 (pmp_entries (do_switch sw h)) = take 8 (pmp_entries h)"
proof
  have inv: "pmp_shape h" "warl_ok h" using assms(1) by (auto simp: pmp_inv_def)
  note v = do_switch_verifies [OF assms]
  then show "take 8 (pmp_entries (do_switch sw h)) = take 8 (pmp_entries h)"
    using inv by (intro kernel_entries_cong) (auto simp: pmp_inv_def pmp_shape_def)
  show "drop 8 (pmp_entries (do_switch sw h)) = switch_entries sw"
  proof (cases sw)
    case (To_profile p)
    then show ?thesis using pmp_entries_reload [OF inv] assms(2)
      by (simp add: switch_entries_def pmp_entries_def)
  next
    case (To_stack a)
    have "list_all (\<lambda>i. byte_at PMP_NAPOT_RW i = (if i = 0 then 0x1B else 0)) [0..<8]"
      by (simp add: byte_at_def upt_rec)
    then have b: "byte_at PMP_NAPOT_RW i = (if i = 0 then 0x1B else 0)" if "i < 8" for i
      using that by (simp add: list_all_iff)
    have a: "a < 2 ^ 54" using To_stack assms(2) by simp
    have "drop 8 (pmp_entries (legacy_switch a h)) = (a, 0x1B) # replicate 7 (0, 0)"
    proof (rule nth_equalityI)
      fix i assume "i < length (drop 8 (pmp_entries (legacy_switch a h)))"
      then have "i < 8" by (simp add: pmp_entries_def)
      then show "drop 8 (pmp_entries (legacy_switch a h)) ! i = ((a, 0x1B) # replicate 7 (0, 0)) ! i"
        using inv a by (simp add: pmp_entries_def legacy_switch_eq b pmp_shape_def nth_append nth_Cons')
    qed (simp add: pmp_entries_def)
    then show ?thesis using To_stack by (simp add: switch_entries_def)
  qed
qed


section \<open>The switch\<close>

lemma nth_padded: "length xs = 8 \<Longrightarrow> i < n \<Longrightarrow> i < 8 \<Longrightarrow> padded n d xs ! i = xs ! i"
  by (simp add: padded_def nth_append)

lemma length_padded: "length xs = 8 \<Longrightarrow> length (padded n d xs) = 8"
  by (simp add: padded_def)

definition selected :: "kernel \<Rightarrow> nat option" where
  "selected k = select_highest_priority (padded (TASK_COUNT k) Dead (map t_state (TASKS k)))
     (padded (TASK_COUNT k) 15 (map t_priority (TASKS k))) (TASK_COUNT k)"

lemma best_upto_select:
  assumes "shape k" "selected k = Some b"
  shows "b < TASK_COUNT k" "is_selectable_by_scheduler (t_state (TASKS k ! b))"
    "\<And>i. i < TASK_COUNT k \<Longrightarrow> is_selectable_by_scheduler (t_state (TASKS k ! i)) \<Longrightarrow>
       t_priority (TASKS k ! b) \<le> t_priority (TASKS k ! i)"
proof -
  let ?st = "padded (TASK_COUNT k) Dead (map t_state (TASKS k))"
  let ?pr = "padded (TASK_COUNT k) 15 (map t_priority (TASKS k))"
  have n: "min (TASK_COUNT k) (min (length ?st) (length ?pr)) = TASK_COUNT k"
    using assms(1) by (simp add: length_padded shape_def)
  have "best_upto ?st ?pr (TASK_COUNT k) (fold (select_step ?st ?pr) [0..<TASK_COUNT k] (None, - 1))"
    by (rule best_upto_fold)
  moreover have "fst (fold (select_step ?st ?pr) [0..<TASK_COUNT k] (None, - 1)) = Some b"
    using assms(2) n by (simp add: selected_def select_highest_priority_def)
  ultimately have b: "b < TASK_COUNT k" "is_selectable_by_scheduler (?st ! b)"
    "\<forall>i<TASK_COUNT k. is_selectable_by_scheduler (?st ! i) \<longrightarrow> ?pr ! b \<le> ?pr ! i"
    by (auto simp: best_upto_def)
  have nth: "?st ! i = t_state (TASKS k ! i)" "?pr ! i = t_priority (TASKS k ! i)" if "i < TASK_COUNT k" for i
    using that assms(1) by (auto simp: nth_padded shape_def)
  show "b < TASK_COUNT k" "is_selectable_by_scheduler (t_state (TASKS k ! b))" using b nth by auto
  show "t_priority (TASKS k ! b) \<le> t_priority (TASKS k ! i)"
    if "i < TASK_COUNT k" "is_selectable_by_scheduler (t_state (TASKS k ! i))" for i
    using b(1,3) nth that by auto
qed

text \<open>The outcome of the switch to task \<open>b\<close>.\<close>

definition switched :: "platform \<Rightarrow> nat \<Rightarrow> kernel \<Rightarrow> kernel" where
  "switched pf b k =
     (let old = CURRENT_TASK k;
          ts = (TASKS k)[old := (if t_state (TASKS k ! old) = Running
                then (TASKS k ! old)\<lparr>t_state := Ready\<rparr> else TASKS k ! old)];
          ts = ts[b := (ts ! b)\<lparr>t_state := Running\<rparr>];
          h = do_switch (task_switch (ts ! b)) (PMP k);
          ts = ts[old := (ts ! old)\<lparr>t_context := (live k)\<lparr>ctx_ra := resume_address pf\<rparr>\<rparr>];
          ctx = t_context (ts ! b)
      in k\<lparr>TASKS := ts, CURRENT_TASK := b, PMP := h, live := ctx, frame_mepc := ctx_mepc ctx\<rparr>)"

lemma task_wf_state: "task_wf i t \<Longrightarrow> t_state t = Ready \<or> t_state t = Running \<Longrightarrow>
   task_wf i (t\<lparr>t_state := s\<rparr>)"
  by (auto simp: task_wf_def)

lemma switch_cases:
  assumes inv: "kernel_inv k"
  obtains (stay) "do_priority_select_and_switch pf (CURRENT_TASK k) k = Returned () k"
      "2 \<le> TASK_COUNT k \<Longrightarrow> selected k = None \<or>
         selected k = Some (CURRENT_TASK k) \<and> t_state (TASKS k ! CURRENT_TASK k) = Running"
  | (switch) b where "selected k = Some b"
      "do_priority_select_and_switch pf (CURRENT_TASK k) k \<in> {Returned () (switched pf b k), Entered (switched pf b k)}"
proof (cases "TASK_COUNT k < 2 \<or> selected k = None
    \<or> selected k = Some (CURRENT_TASK k) \<and> t_state (TASKS k ! CURRENT_TASK k) = Running")
  case True
  then have "do_priority_select_and_switch pf (CURRENT_TASK k) k = Returned () k"
    by (auto simp: do_priority_select_and_switch_def selected_def Let_def)
  with True stay show ?thesis by auto
next
  case False
  then obtain b where b: "selected k = Some b" by auto
  have sh: "shape k" using inv by (simp add: kernel_inv_def)
  note sel = best_upto_select [OF sh b]
  have b8: "b < 8" "CURRENT_TASK k < 8" using sel(1) sh by (auto simp: shape_def)
  let ?ts = "(TASKS k)[CURRENT_TASK k := (if t_state (TASKS k ! CURRENT_TASK k) = Running
      then (TASKS k ! CURRENT_TASK k)\<lparr>t_state := Ready\<rparr> else TASKS k ! CURRENT_TASK k)]"
  let ?t = "(?ts ! b)\<lparr>t_state := Running\<rparr>"
  have len: "length (TASKS k) = 8" using sh by (simp add: shape_def)
  have "task_wf b (TASKS k ! b)" using inv b8 by (simp add: kernel_inv_def)
  then have "task_wf b ?t" using sel(2) len b8
    by (auto simp: is_selectable_by_scheduler_def nth_list_update task_wf_def)
  then have pmp: "load_pmp r ?t s = Returned () (s\<lparr>PMP := do_switch (task_switch ?t) (PMP s)\<rparr>)" for r s
    by (rule load_pmp_eq) simp
  have "do_priority_select_and_switch pf (CURRENT_TASK k) k \<in> {Returned () (switched pf b k), Entered (switched pf b k)}"
    using False b b8 len pmp
    by (auto simp: do_priority_select_and_switch_def selected_def map_task_def switch_context_def switched_def Let_def)
  with b switch show ?thesis by blast
qed

lemma switched_fields:
  assumes "shape k" "b < 8"
  shows "length (TASKS (switched pf b k)) = 8" "TASK_COUNT (switched pf b k) = TASK_COUNT k"
    "CURRENT_TASK (switched pf b k) = b" "t_state (TASKS (switched pf b k) ! b) = Running"
    "\<And>i. i < 8 \<Longrightarrow> i \<noteq> b \<Longrightarrow> t_state (TASKS (switched pf b k) ! i) =
       (if i = CURRENT_TASK k \<and> t_state (TASKS k ! i) = Running then Ready else t_state (TASKS k ! i))"
    "\<And>i. i < 8 \<Longrightarrow> t_priority (TASKS (switched pf b k) ! i) = t_priority (TASKS k ! i)
       \<and> t_dal (TASKS (switched pf b k) ! i) = t_dal (TASKS k ! i) \<and> t_id (TASKS (switched pf b k) ! i) = t_id (TASKS k ! i)
       \<and> task_switch (TASKS (switched pf b k) ! i) = task_switch (TASKS k ! i)
       \<and> t_is_sntm_native (TASKS (switched pf b k) ! i) = t_is_sntm_native (TASKS k ! i)
       \<and> t_pmp_addr_napot (TASKS (switched pf b k) ! i) = t_pmp_addr_napot (TASKS k ! i)
       \<and> t_stack_top (TASKS (switched pf b k) ! i) = t_stack_top (TASKS k ! i)
       \<and> t_entry (TASKS (switched pf b k) ! i) = t_entry (TASKS k ! i)"
    "PMP (switched pf b k) = do_switch (task_switch (TASKS k ! b)) (PMP k)"
    "IPC (switched pf b k) = IPC k" "BLACKBOX (switched pf b k) = BLACKBOX k" "BROKER (switched pf b k) = BROKER k"
    "RESTART_COUNTS (switched pf b k) = RESTART_COUNTS k" "CAP_FAIL_COUNT (switched pf b k) = CAP_FAIL_COUNT k"
    "WCET_MAX (switched pf b k) = WCET_MAX k" "WCET_LAST (switched pf b k) = WCET_LAST k"
    "MEM (switched pf b k) = MEM k"
  using assms by (auto simp: switched_def Let_def shape_def nth_list_update task_switch_def)

lemma switched_inv:
  assumes inv: "kernel_inv k" and b: "selected k = Some b"
  shows "kernel_inv (switched pf b k) \<and> pmp_current (switched pf b k)
    \<and> take 8 (pmp_entries (PMP (switched pf b k))) = take 8 (pmp_entries (PMP k))"
proof -
  have sh: "shape k" using inv by (simp add: kernel_inv_def)
  note sel = best_upto_select [OF sh b]
  have b8: "b < 8" using sel(1) sh by (simp add: shape_def)
  note f = switched_fields [OF sh b8, where pf = pf]
  have wf: "task_wf i (TASKS k ! i)" if "i < 8" for i using inv that by (simp add: kernel_inv_def)
  have ok: "switch_ok (task_switch (TASKS k ! b))"
    using task_switch_ok [OF wf [OF b8]] sel(2) by (simp add: is_selectable_by_scheduler_def)
  have pinv: "pmp_inv (PMP k)" using inv by (simp add: kernel_inv_def)
  have wf': "task_wf i (TASKS (switched pf b k) ! i)" if "i < 8" for i
    using wf [OF that] f(4) f(5) [OF that] f(6) [OF that] sel(2)
    by (cases "i = b") (auto simp: task_wf_def is_selectable_by_scheduler_def split: if_splits)
  have run': "i = b" if "i < 8" "t_state (TASKS (switched pf b k) ! i) = Running" for i
  proof (rule ccontr)
    assume "i \<noteq> b"
    note eq = f(5) [OF that(1) this]
    have "t_state (TASKS k ! i) = Running" "i \<noteq> CURRENT_TASK k"
      using eq that(2) by (auto split: if_splits)
    then show False using inv that(1) unfolding kernel_inv_def by blast
  qed
  have sh': "shape (switched pf b k)" using sh f(1,2,3,11) b8 by (simp add: shape_def)
  note dv = do_switch_verifies [OF pinv ok]
  have "kernel_inv (switched pf b k)"
    unfolding kernel_inv_def f(3,7-10,12-14)
  proof (intro conjI)
    show "\<forall>i<8. task_wf i (TASKS (switched pf b k) ! i)" using wf' by blast
    show "\<forall>i<8. t_state (TASKS (switched pf b k) ! i) = Running \<longrightarrow> i = b" using run' by blast
  qed (use sh' inv dv in \<open>auto simp: kernel_inv_def\<close>)
  moreover have "pmp_current (switched pf b k)"
    using do_switch_entries [OF pinv ok] f(6) [OF b8] by (simp add: pmp_current_def f(3,7))
  ultimately show ?thesis using do_switch_entries [OF pinv ok] f(7) by simp
qed

text \<open>
  The contract of a kernel entry that may switch: the invariant holds wherever it stops, the PMP
  unit holds the current task's memory, isolated tasks stay isolated and dead ones never run, task
  identities, memory, the owners of the channels and the kernel's PMP entries do not change, the
  processor is given only to a task that was active, and it halts only with two tasks isolated.
\<close>

definition task_active :: "Task \<Rightarrow> bool" where
  "task_active t \<longleftrightarrow> t_state t = Ready \<or> t_state t = Running \<or> t_state t = Suspended"

definition task_identity :: "Task \<Rightarrow> u8 \<times> u8 \<times> u8 \<times> bool \<times> usize \<times> usize \<times> usize" where
  "task_identity t = (t_id t, t_priority t, t_dal t, t_is_sntm_native t, t_pmp_addr_napot t, t_stack_top t, t_entry t)"

definition task_keeps :: "Task \<Rightarrow> Task \<Rightarrow> bool" where
  "task_keeps t t' \<longleftrightarrow> task_identity t' = task_identity t
     \<and> (t_state t = Isolated \<longrightarrow> t_state t' = Isolated) \<and> (task_active t' \<longrightarrow> task_active t)"

definition keeps :: "kernel \<Rightarrow> kernel \<Rightarrow> bool" where
  "keeps k k' \<longleftrightarrow> (kernel_inv k \<longrightarrow> kernel_inv k') \<and> (kernel_inv k \<and> pmp_current k \<longrightarrow> pmp_current k')
     \<and> TASK_COUNT k' = TASK_COUNT k \<and> MEM k' = MEM k
     \<and> CHANNEL_OWNERS (IPC k') = CHANNEL_OWNERS (IPC k) \<and> CHANNELS_SEALED (IPC k') = CHANNELS_SEALED (IPC k)
     \<and> (kernel_inv k \<longrightarrow> CURRENT_TASK k' = CURRENT_TASK k \<or> task_active (TASKS k ! CURRENT_TASK k'))
     \<and> (kernel_inv k \<longrightarrow> take 8 (pmp_entries (PMP k')) = take 8 (pmp_entries (PMP k)))
     \<and> (kernel_inv k \<longrightarrow> (\<forall>i<MAX_TASKS. task_keeps (TASKS k ! i) (TASKS k' ! i)))"

lemma task_keeps_refl [simp]: "task_keeps t t"
  by (simp add: task_keeps_def)

lemma task_keeps_trans: "task_keeps t u \<Longrightarrow> task_keeps u v \<Longrightarrow> task_keeps t v"
  by (auto simp: task_keeps_def)

lemma task_evolves_keeps: "task_evolves t t' \<Longrightarrow> task_keeps t t'"
  by (auto simp: task_evolves_def task_keeps_def task_identity_def task_active_def state_evolves_def)

lemma keeps_refl [simp]: "keeps k k"
  by (simp add: keeps_def)

lemma keeps_trans:
  assumes "keeps a b" "keeps b c"
  shows "keeps a c"
proof -
  have cur: "CURRENT_TASK c = CURRENT_TASK a \<or> task_active (TASKS a ! CURRENT_TASK c)" if "kernel_inv a"
  proof -
    have "kernel_inv b" "kernel_inv c" using that assms by (simp_all add: keeps_def)
    moreover from this have "CURRENT_TASK c < 8" by (simp add: kernel_inv_def shape_def)
    moreover from this have "task_keeps (TASKS a ! CURRENT_TASK c) (TASKS b ! CURRENT_TASK c)"
      using that assms(1) by (simp add: keeps_def)
    ultimately show ?thesis using that assms by (auto simp: keeps_def task_keeps_def)
  qed
  then show ?thesis using assms by (auto simp: keeps_def intro: task_keeps_trans)
qed

lemma quiet_keeps:
  assumes "quiet k k'"
  shows "keeps k k'"
proof -
  have "task_evolves (TASKS k ! i) (TASKS k' ! i)" if "kernel_inv k" "i < 8" for i
    using that quiet_nth [OF assms] by (simp add: kernel_inv_def)
  then show ?thesis
    using quiet_kernel_inv quiet_pmp_current assms
    by (auto simp: keeps_def quiet_def intro: task_evolves_keeps)
qed

lemma switched_keeps:
  assumes "kernel_inv k" "selected k = Some b"
  shows "keeps k (switched pf b k)"
proof -
  have sh: "shape k" using assms(1) by (simp add: kernel_inv_def)
  note sel = best_upto_select [OF sh assms(2)]
  have b8: "b < 8" using sel(1) sh by (simp add: shape_def)
  note f = switched_fields [OF sh b8, where pf = pf]
  have "task_keeps (TASKS k ! i) (TASKS (switched pf b k) ! i)" if "i < 8" for i
    using f(4) f(5) [OF that] f(6) [OF that] sel(2)
    by (cases "i = b") (auto simp: task_keeps_def task_identity_def task_active_def is_selectable_by_scheduler_def split: if_splits)
  moreover have "task_active (TASKS k ! b)" using sel(2) by (auto simp: task_active_def is_selectable_by_scheduler_def)
  moreover have "IPC (switched pf b k) = IPC k" by (simp add: switched_def Let_def)
  ultimately show ?thesis using switched_inv [OF assms, of pf] f(2,3,15) by (simp add: keeps_def)
qed

fun keeps_run :: "kernel \<Rightarrow> (kernel, 'a) outcome \<Rightarrow> bool" where
  "keeps_run k (Halted r s) = (r = Policy_Shutdown \<and> keeps k s \<and> 2 \<le> isolated_count s)"
| "keeps_run k (Entered s) = keeps k s"
| "keeps_run k (Returned x s) = keeps k s"

lemma quiet_keeps_run: "quiet_run k m \<Longrightarrow> keeps_run k m"
  by (cases m) (auto intro: quiet_keeps)

lemma keeps_run_trans: "keeps k s \<Longrightarrow> keeps_run s m \<Longrightarrow> keeps_run k m"
  by (cases m) (auto intro: keeps_trans)

lemma keeps_run_obind:
  assumes "keeps_run k m" and "\<And>x s. m = Returned x s \<Longrightarrow> keeps k s \<Longrightarrow> keeps_run s (f x s)"
  shows "keeps_run k (obind m f)"
  using assms by (cases m) (auto intro: keeps_run_trans)

lemma keeps_switch: "kernel_inv k \<Longrightarrow> keeps_run k (do_priority_select_and_switch pf (CURRENT_TASK k) k)"
  by (cases rule: switch_cases [of k pf]) (auto intro: switched_keeps)

lemma keeps_schedule_yield: "kernel_inv k \<Longrightarrow> keeps_run k (schedule_yield pf k)"
  by (simp add: schedule_yield_def keeps_switch)

lemma keeps_run_inv: "keeps_run k m \<Longrightarrow> kernel_inv k \<Longrightarrow> kernel_inv (final_state m)"
  by (cases m) (auto simp: keeps_def)

text \<open>The phases of the tick before the switch.\<close>

definition tick_phases :: "platform \<Rightarrow> unit kernel_op" where
  "tick_phases pf k =
     obind (check_integrity pf (k\<lparr>BLACKBOX := bb_advance_tick (BLACKBOX k)\<rparr>))
         (\<lambda>_ s. obind (try_recover_from_degrade
                   (s\<lparr>TASKS := update_first (min (TASK_COUNT s) MAX_TASKS) period_step (TASKS s)\<rparr>))
         (\<lambda>_ s. obind (for_each [0..<min (TASK_COUNT s) MAX_TASKS] (watchdog_step pf) s)
         (\<lambda>_. budget_step pf (CURRENT_TASK k))))"

lemma schedule_timer_tick_phases:
  "schedule_timer_tick pf k = (if TASK_COUNT k = 0 then Returned () k
     else obind (tick_phases pf k) (\<lambda>_. do_priority_select_and_switch pf (CURRENT_TASK k)))"
  by (simp add: schedule_timer_tick_def tick_phases_def obind_assoc Let_def)

lemma quiet_tick_phases:
  assumes inv: "kernel_inv k"
  shows "quiet_run k (tick_phases pf k)"
proof -
  have sh: "shape k" using inv by (simp add: kernel_inv_def)
  let ?k = "k\<lparr>BLACKBOX := bb_advance_tick (BLACKBOX k)\<rparr>"
  have q: "quiet k ?k" by (simp add: quiet_def list.rel_refl bb_advance_tick_inv)
  have v: "check_integrity pf ?k = Returned () ?k" using inv by (simp add: check_integrity_def kernel_inv_def)
  let ?p = "?k\<lparr>TASKS := update_first (min (TASK_COUNT ?k) MAX_TASKS) period_step (TASKS ?k)\<rparr>"
  have "list_all2 task_evolves (TASKS k) (update_first n period_step (TASKS k))" for n
    by (auto simp: list_all2_conv_all_nth nth_update_first period_step_evolves)
  then have qp: "quiet k ?p" by (simp add: quiet_def bb_advance_tick_inv)
  then have shp: "shape ?p" using quiet_shape sh by blast
  have "quiet_run ?p (obind (try_recover_from_degrade ?p)
     (\<lambda>_ s. obind (for_each [0..<min (TASK_COUNT s) MAX_TASKS] (watchdog_step pf) s)
     (\<lambda>_. budget_step pf (CURRENT_TASK k))))"
  proof (rule quiet_run_obind [OF quiet_try_recover [OF shp]], goal_cases)
    case (1 _ s)
    then have s: "shape s" using quiet_shape shp by blast
    have wd: "quiet_run s (for_each [0..<min (TASK_COUNT s) MAX_TASKS] (watchdog_step pf) s)"
    proof (rule quiet_run_for_each)
      fix i s1 assume "i \<in> set [0..<min (TASK_COUNT s) 8]" "quiet s s1"
      then show "quiet_run s1 (watchdog_step pf i s1)"
        using s quiet_shape [of s s1] by (intro quiet_watchdog_step) auto
    qed
    show ?case
    proof (rule quiet_run_obind [OF wd], goal_cases)
      case (1 _ s1)
      then have "shape s1" using quiet_shape s by blast
      then show ?case using sh by (intro quiet_budget_step) (auto simp: shape_def)
    qed
  qed
  then show ?thesis using v qp by (simp add: tick_phases_def quiet_run_trans)
qed

lemma keeps_timer_tick:
  assumes "kernel_inv k"
  shows "keeps_run k (schedule_timer_tick pf k)"
proof -
  note q = quiet_tick_phases [OF assms, of pf]
  have "keeps_run k (obind (tick_phases pf k) (\<lambda>_. do_priority_select_and_switch pf (CURRENT_TASK k)))"
  proof (rule keeps_run_obind [OF quiet_keeps_run [OF q]], goal_cases)
    case (1 x s)
    then have "quiet k s" using q by simp
    then have "kernel_inv s" "CURRENT_TASK s = CURRENT_TASK k"
      using assms quiet_kernel_inv by (auto simp: quiet_def)
    then show ?case using keeps_switch [of s pf] by simp
  qed
  then show ?thesis by (simp add: schedule_timer_tick_phases)
qed

section \<open>Scheduling properties\<close>

lemma selected_None:
  assumes "shape k" "selected k = None" "i < TASK_COUNT k" "is_selectable_by_scheduler (t_state (TASKS k ! i))"
  shows "t_priority (TASKS k ! i) = - 1"
proof -
  let ?st = "padded (TASK_COUNT k) Dead (map t_state (TASKS k))"
  let ?pr = "padded (TASK_COUNT k) 15 (map t_priority (TASKS k))"
  have n: "min (TASK_COUNT k) (min (length ?st) (length ?pr)) = TASK_COUNT k"
    using assms(1) by (simp add: length_padded shape_def)
  have "best_upto ?st ?pr (TASK_COUNT k) (fold (select_step ?st ?pr) [0..<TASK_COUNT k] (None, - 1))"
    by (rule best_upto_fold)
  moreover have "fst (fold (select_step ?st ?pr) [0..<TASK_COUNT k] (None, - 1)) = None"
    using assms(2) n by (simp add: selected_def select_highest_priority_def)
  moreover have "?st ! i = t_state (TASKS k ! i)" "?pr ! i = t_priority (TASKS k ! i)"
    using assms(1,3) by (auto simp: nth_padded shape_def)
  ultimately have "- 1 \<le> t_priority (TASKS k ! i)" using assms(3,4) by (auto simp: best_upto_def)
  then show ?thesis by (simp add: word_order.extremum_unique)
qed

text \<open>The state a tick leaves to the tasks.\<close>

definition runs_highest :: "kernel \<Rightarrow> bool" where
  "runs_highest k \<longleftrightarrow>
     (\<exists>i<TASK_COUNT k. is_selectable_by_scheduler (t_state (TASKS k ! i)) \<and> t_priority (TASKS k ! i) \<noteq> 255) \<longrightarrow>
     t_state (TASKS k ! CURRENT_TASK k) = Running
     \<and> (\<forall>i<TASK_COUNT k. is_selectable_by_scheduler (t_state (TASKS k ! i)) \<longrightarrow>
          t_priority (TASKS k ! CURRENT_TASK k) \<le> t_priority (TASKS k ! i))"

lemma switch_runs_highest:
  assumes inv: "kernel_inv k" and two: "2 \<le> TASK_COUNT k"
    and run: "do_priority_select_and_switch pf (CURRENT_TASK k) k \<in> {Returned () k', Entered k'}"
  shows "runs_highest k'"
proof -
  have sh: "shape k" using inv by (simp add: kernel_inv_def)
  show ?thesis
  proof (rule switch_cases [OF inv, of pf], goal_cases)
    case 1
    then have k': "k' = k" using run by auto
    from 1(2) [OF two] show ?thesis
    proof
      assume "selected k = None"
      then show ?thesis using selected_None [OF sh] k' by (auto simp: runs_highest_def)
    next
      assume "selected k = Some (CURRENT_TASK k) \<and> t_state (TASKS k ! CURRENT_TASK k) = Running"
      then show ?thesis using best_upto_select [OF sh] k' by (auto simp: runs_highest_def)
    qed
  next
    case (2 b)
    then have k': "k' = switched pf b k" using run by auto
    note sel = best_upto_select [OF sh 2(1)]
    have b8: "b < 8" and c8: "TASK_COUNT k \<le> 8" using sel(1) sh by (auto simp: shape_def)
    note f = switched_fields [OF sh b8, where pf = pf]
    have "is_selectable_by_scheduler (t_state (TASKS k ! i))"
      if "i < TASK_COUNT k" "is_selectable_by_scheduler (t_state (TASKS (switched pf b k) ! i))" for i
    proof (cases "i = b")
      case False
      then show ?thesis using f(5) [of i] that c8 by (auto simp: is_selectable_by_scheduler_def split: if_splits)
    qed (use sel(2) in simp)
    then show ?thesis unfolding k' runs_highest_def f(2,3) using sel(3) f(4) f(6) b8 c8 by (auto simp: f(4))
  qed
qed


lemma for_each_append:
  "for_each (xs @ ys) body k = obind (for_each xs body k) (\<lambda>_. for_each ys body)"
proof (induction xs arbitrary: k)
  case (Cons x xs)
  then show ?case by (cases "body x k") simp_all
qed simp

lemma for_each_map_task:
  assumes "length (TASKS k) = 8" "n \<le> 8"
  shows "for_each [0..<n] (\<lambda>i. map_task i f) k = Returned () (k\<lparr>TASKS := update_first n f (TASKS k)\<rparr>)"
proof -
  have "for_each [0..<n] (\<lambda>i. map_task i f) k = Returned () (k\<lparr>TASKS := fold (\<lambda>i ts. ts[i := f (ts ! i)]) [0..<n] (TASKS k)\<rparr>)"
    using assms(2) by (induction n) (auto simp: for_each_append map_task_def)
  then show ?thesis using assms update_first_loop [of n "TASKS k" f] by simp
qed

lemma degrade_system_eq:
  assumes "shape k"
  shows "degrade_system k = Returned () (k\<lparr>DEGRADED := True, DEGRADE_TICK := bb_current_tick (BLACKBOX k),
     TASKS := update_first (TASK_COUNT k) degrade_task (TASKS k)\<rparr>)"
  using assms for_each_map_task [of "k\<lparr>DEGRADED := True, DEGRADE_TICK := bb_current_tick (BLACKBOX k)\<rparr>"]
  by (simp add: degrade_system_def shape_def Let_def)

lemma suspended_action:
  assumes "shape k" "c < 8" "t_state (TASKS k ! c) = Suspended" "mode = Restart \<or> mode = Degrade"
    and "apply_action pf c mode k = Returned () k'"
  shows "t_state (TASKS k' ! c) = Suspended"
proof -
  have len: "length (TASKS k) = 8" using assms(1) by (simp add: shape_def)
  have sh: "shape (log_event ev t d (k\<lparr>DEGRADE_LOGGED := True\<rparr>))" for ev t d
    using assms(1) by (simp add: shape_def log_event_def)
  have d: "t_state (degrade_task t) = Suspended" if "t_state t = Suspended" for t
    using that by (simp add: degrade_task_def)
  from assms(4) show ?thesis
  proof
    assume "mode = Restart"
    then show ?thesis using assms len
      by (auto simp: apply_action_def restart_task_def map_task_def log_event_def Let_def split: if_splits)
  next
    assume "mode = Degrade"
    then show ?thesis using assms len sh d
      by (auto simp: apply_action_def degrade_system_eq Let_def nth_update_first log_event_def split: if_splits)
  qed
qed


lemma period_counts:
  assumes "unat (t_period_counter t) + n < unat (t_period_ticks t)"
  shows "(period_step ^^ n) t = t\<lparr>t_period_counter := t_period_counter t + of_nat n\<rparr>"
  using assms
proof (induction n)
  case (Suc n)
  let ?c = "t_period_counter t + of_nat n"
  have c: "unat (?c + 1) = unat (t_period_counter t) + Suc n"
    using Suc.prems unat_less [of "t_period_ticks t"]
    by (simp add: unat_word_ariths unsigned_of_nat take_bit_eq_mod mod_simps)
  have "0 < t_period_ticks t" "\<not> t_period_ticks t \<le> ?c + 1"
    using Suc.prems c by (auto simp: word_less_nat_alt word_le_nat_alt)
  then show ?case using Suc by (simp add: period_step_def Let_def add.assoc add.commute)
qed simp

text \<open>
  C22. A suspended task is released: a periodic task whose counter is below its period runs through
  the rest of the period with nothing but the counter changing, and on the tick that completes it the
  counter restarts, the budget is full again and a task that was waiting for its period is Ready.
  So a task that has used up its budget, or that the degradation of the system has suspended, is
  Ready again after at most one period.
\<close>
theorem period_releases_task:
  assumes "t_period_counter t < t_period_ticks t"
  defines "n \<equiv> unat (t_period_ticks t) - unat (t_period_counter t)"
  shows "(\<forall>m<n. (period_step ^^ m) t = t\<lparr>t_period_counter := t_period_counter t + of_nat m\<rparr>)
    \<and> (period_step ^^ n) t = t\<lparr>t_period_counter := 0, t_remaining_cycles := t_budget_cycles t,
        t_state := (if t_state t = Suspended then Ready else t_state t)\<rparr>"
proof -
  have n: "0 < n" "unat (t_period_counter t) + n = unat (t_period_ticks t)"
    using assms(1) by (simp_all add: n_def word_less_nat_alt)
  have counts: "(period_step ^^ m) t = t\<lparr>t_period_counter := t_period_counter t + of_nat m\<rparr>" if "m < n" for m
    using that n(2) by (intro period_counts) simp
  obtain m where m: "n = Suc m" using n(1) by (cases n) auto
  have "t_period_counter t + of_nat m + 1 = t_period_ticks t"
    using n(2) m unat_less [of "t_period_ticks t"]
    by (simp add: word_unat_eq_iff unat_word_ariths unsigned_of_nat take_bit_eq_mod mod_simps)
  moreover have "0 < t_period_ticks t" using n by (simp add: word_less_nat_alt)
  ultimately have "(period_step ^^ n) t = t\<lparr>t_period_counter := 0, t_remaining_cycles := t_budget_cycles t,
        t_state := (if is_period_reset_eligible (t_state t) then Ready else t_state t)\<rparr>"
    unfolding m using counts [of m] m by (simp add: period_step_def Let_def)
  then show ?thesis using counts by (simp add: is_period_reset_eligible_def)
qed

theorem period_releases_task_witness:
  "t_state ((period_step ^^ 7) (task_empty\<lparr>t_state := Suspended, t_period_ticks := 10, t_period_counter := 3\<rparr>)) = Ready"
  using period_releases_task [of "task_empty\<lparr>t_state := Suspended, t_period_ticks := 10, t_period_counter := 3\<rparr>"] by simp

end
