(* ===== verification/Syscall.thy ===== *)
theory Syscall
  imports Scheduler_Inv
begin

text \<open>
  System calls, \<open>src/kernel/syscall/dispatch.rs\<close>: result codes, validation of user pointers, the
  six handlers, execution time statistics and the dispatcher. The cycle counter readings of a
  dispatch are an argument.
\<close>

section \<open>Result codes\<close>

datatype SyscallResult =
    SOk | SInvalidSyscall | SNoCapability | SIpcFull | SIpcEmpty | SInvalidArg | SBufferFull

fun to_raw :: "SyscallResult \<Rightarrow> usize" where
  "to_raw SOk = 0"
| "to_raw SInvalidSyscall = - 1"
| "to_raw SNoCapability = - 1 - 1"
| "to_raw SIpcFull = - 1 - 2"
| "to_raw SIpcEmpty = - 1 - 3"
| "to_raw SInvalidArg = - 1 - 4"
| "to_raw SBufferFull = - 1 - 5"

definition E_OK :: usize where "E_OK = to_raw SOk"
definition E_INVALID_SYSCALL :: usize where "E_INVALID_SYSCALL = to_raw SInvalidSyscall"
definition E_NO_CAPABILITY :: usize where "E_NO_CAPABILITY = to_raw SNoCapability"
definition E_IPC_FULL :: usize where "E_IPC_FULL = to_raw SIpcFull"
definition E_IPC_EMPTY :: usize where "E_IPC_EMPTY = to_raw SIpcEmpty"
definition E_INVALID_ARG :: usize where "E_INVALID_ARG = to_raw SInvalidArg"
definition E_RATE_LIMITED :: usize where "E_RATE_LIMITED = - 1 - 6"
definition E_INTERNAL :: usize where "E_INTERNAL = - 1 - 7"

section \<open>User pointers\<close>

fun ptr_loop :: "Region list \<Rightarrow> usize \<Rightarrow> usize \<Rightarrow> Access \<Rightarrow> bool" where
  "ptr_loop [] ptr ptr_end access = False"
| "ptr_loop (r # rs) ptr ptr_end access =
     (case checked_add (reg_base r) (reg_size r) of
        None \<Rightarrow> False
      | Some region_end \<Rightarrow>
          if reg_base r \<le> ptr \<and> ptr_end \<le> region_end then access_matches access (reg_perm r)
          else ptr_loop rs ptr ptr_end access)"

definition check_ptr_in_profile :: "PmpProfile \<Rightarrow> usize \<Rightarrow> usize \<Rightarrow> Access \<Rightarrow> bool" where
  "check_ptr_in_profile profile ptr sz access =
     (if ptr = 0 then False
      else case checked_add ptr sz of
          None \<Rightarrow> False
        | Some ptr_end \<Rightarrow> ptr_loop (active_regions profile) ptr ptr_end access)"

definition is_valid_user_ptr :: "u8 \<Rightarrow> usize \<Rightarrow> usize \<Rightarrow> Access \<Rightarrow> bool kernel_op" where
  "is_valid_user_ptr caller ptr sz access k =
     (if \<not> is_task_sntm_native caller k
      then if ptr = 0 then Returned False k
           else case checked_add ptr sz of
               None \<Rightarrow> Returned False k
             | Some ptr_end \<Rightarrow>
                 obind (task_stack_range caller k) (\<lambda>range. Returned
                   (case range of Some (stack_base, stack_top) \<Rightarrow> stack_base \<le> ptr \<and> ptr_end \<le> stack_top | None \<Rightarrow> False))
      else case get_pmp_profile caller of
          Some p \<Rightarrow> Returned (if 0 < region_count p then check_ptr_in_profile p ptr sz access else False) k
        | None \<Rightarrow> Returned False k)"

section \<open>Execution time statistics\<close>

definition wcet_update :: "nat \<Rightarrow> u64 \<Rightarrow> kernel \<Rightarrow> kernel" where
  "wcet_update i cycles k =
     (if i < SYSCALL_COUNT
      then k\<lparr>WCET_LAST := (WCET_LAST k)[i := cycles],
             WCET_MAX := (if WCET_MAX k ! i < cycles then (WCET_MAX k)[i := cycles] else WCET_MAX k)\<rparr>
      else k)"

text \<open>The limits of \<open>config.rs\<close>, in table order.\<close>

definition wcet_limits :: "u64 list" where
  "wcet_limits = [25, 60, 40, 10, 15, 15]"

definition check_wcet_limits :: "kernel \<Rightarrow> bool" where
  "check_wcet_limits k \<longleftrightarrow> list_all (\<lambda>i. WCET_MAX k ! i \<le> wcet_limits ! i) [0..<SYSCALL_COUNT]"

section \<open>Handlers\<close>

text \<open>The counting of capability failures at the end of \<open>sys_cap_invoke\<close>.\<close>

definition count_cap_result :: "platform \<Rightarrow> u8 \<Rightarrow> bool \<Rightarrow> usize kernel_op" where
  "count_cap_result pf caller ok k =
     (let c = unat caller
      in if MAX_TASKS \<le> c then Halted Panic k
         else if ok then Returned E_OK (k\<lparr>CAP_FAIL_COUNT := (CAP_FAIL_COUNT k)[c := 0]\<rparr>)
         else let count = saturating_add (CAP_FAIL_COUNT k ! c) 1
         in if 3 \<le> count
            then let k = log_event CapViolationEv caller [] (k\<lparr>CAP_FAIL_COUNT := (CAP_FAIL_COUNT k)[c := 0]\<rparr>)
            in obind (get_task c k) (\<lambda>t k.
               let (action, k) = call_policy caller CapViolation (t_dal t) k
               in obind (apply_action pf c action k) (\<lambda>_. Returned E_NO_CAPABILITY))
            else Returned E_NO_CAPABILITY (k\<lparr>CAP_FAIL_COUNT := (CAP_FAIL_COUNT k)[c := count]\<rparr>))"

definition sys_cap_invoke :: "platform \<Rightarrow> usize \<Rightarrow> usize \<Rightarrow> usize \<Rightarrow> usize \<Rightarrow> usize kernel_op" where
  "sys_cap_invoke pf cap resource action arg k =
     (if 0xFF < cap \<or> 0xFFFF < resource \<or> 0xFF < action then Returned E_INVALID_ARG k
      else let cap_u8 = (ucast cap :: u8); action_u8 = (ucast action :: u8); caller = current_task_id k
      in if cap_u8 AND 0x80 \<noteq> 0
         then if cap_u8 AND 0x7F \<noteq> 0 then Returned E_INVALID_ARG k
              else count_cap_result pf caller (local_cap_check caller (ucast resource) action_u8) k
         else count_cap_result pf caller
                (validate_cached (BROKER k) (bb_get_tick (BLACKBOX k)) caller (cap_u8 AND 0x7F)
                   (ucast resource) action_u8) k)"

definition read_msg :: "memory \<Rightarrow> usize \<Rightarrow> IpcMessage" where
  "read_msg mem ptr = \<lparr>msg_data = map (\<lambda>i. mem (ptr + of_nat i)) [0..<IPC_MSG_SIZE]\<rparr>"

definition write_msg :: "IpcMessage \<Rightarrow> usize \<Rightarrow> memory \<Rightarrow> memory" where
  "write_msg m ptr mem = fold (\<lambda>i mem. mem(ptr + of_nat i := msg_data m ! i)) [0..<IPC_MSG_SIZE] mem"

definition set_channel :: "nat \<Rightarrow> SpscChannel \<Rightarrow> kernel \<Rightarrow> kernel" where
  "set_channel c ch k = k\<lparr>IPC := (IPC k)\<lparr>IPC_CHANNELS := (IPC_CHANNELS (IPC k))[c := ch]\<rparr>\<rparr>"

definition sys_ipc_send :: "usize \<Rightarrow> usize \<Rightarrow> usize kernel_op" where
  "sys_ipc_send channel_id msg_ptr k =
     (if MAX_IPC_CHANNELS \<le> unat channel_id then Returned E_INVALID_ARG k
      else let caller = current_task_id k
      in obind (is_valid_user_ptr caller msg_ptr 64 Read k) (\<lambda>valid k.
         if \<not> valid then Returned E_INVALID_ARG k
         else if unat msg_ptr mod 8 \<noteq> 0 then Returned E_INVALID_ARG k
         else if \<not> can_send (IPC k) channel_id caller then Returned E_NO_CAPABILITY k
         else obind (check_ipc_rate k) (\<lambda>rate_ok k.
         if \<not> rate_ok then Returned E_RATE_LIMITED k
         else obind (increment_ipc_send k) (\<lambda>_ k.
         case get_channel channel_id of
           None \<Rightarrow> Returned E_INVALID_ARG k
         | Some c \<Rightarrow>
             (case spsc_send (IPC_CHANNELS (IPC k) ! c) (read_msg (MEM k) msg_ptr) of
                None \<Rightarrow> Halted Panic k
              | Some (Inr _, ch) \<Rightarrow> Returned E_OK (set_channel c ch k)
              | Some (Inl _, ch) \<Rightarrow> Returned E_IPC_FULL (set_channel c ch k))))))"

definition sys_ipc_recv :: "usize \<Rightarrow> usize \<Rightarrow> usize kernel_op" where
  "sys_ipc_recv channel_id buf_ptr k =
     (if MAX_IPC_CHANNELS \<le> unat channel_id then Returned E_INVALID_ARG k
      else let caller = current_task_id k
      in obind (is_valid_user_ptr caller buf_ptr 64 Write k) (\<lambda>valid k.
         if \<not> valid then Returned E_INVALID_ARG k
         else if unat buf_ptr mod 8 \<noteq> 0 then Returned E_INVALID_ARG k
         else if \<not> can_recv (IPC k) channel_id caller then Returned E_NO_CAPABILITY k
         else case get_channel channel_id of
           None \<Rightarrow> Returned E_INVALID_ARG k
         | Some c \<Rightarrow>
             (case spsc_recv (IPC_CHANNELS (IPC k) ! c) of
                None \<Rightarrow> Halted Panic k
              | Some (Some msg, ch) \<Rightarrow>
                  Returned E_OK ((set_channel c ch k)\<lparr>MEM := write_msg msg buf_ptr (MEM k)\<rparr>)
              | Some (None, ch) \<Rightarrow> Returned E_IPC_EMPTY (set_channel c ch k))))"

definition sys_yield :: "platform \<Rightarrow> usize kernel_op" where
  "sys_yield pf k =
     obind (watchdog_kick pf k) (\<lambda>_ k. obind (schedule_yield pf k) (\<lambda>_. Returned E_OK))"

definition sys_task_info :: "usize \<Rightarrow> usize kernel_op" where
  "sys_task_info task_id = query_task_info task_id"

definition sys_exit :: "platform \<Rightarrow> usize kernel_op" where
  "sys_exit pf k =
     (let caller = current_task_id k
      in obind (isolate_task (unat caller) k) (\<lambda>_ k. obind (schedule_yield pf k) (\<lambda>_. Returned E_OK)))"

section \<open>Dispatch\<close>

definition SYSCALL_TABLE :: "platform \<Rightarrow> (usize \<Rightarrow> usize \<Rightarrow> usize \<Rightarrow> usize \<Rightarrow> usize kernel_op) list" where
  "SYSCALL_TABLE pf =
     [\<lambda>a0 a1 a2 a3. sys_cap_invoke pf a0 a1 a2 a3,
      \<lambda>a0 a1 a2 a3. sys_ipc_send a0 a1,
      \<lambda>a0 a1 a2 a3. sys_ipc_recv a0 a1,
      \<lambda>a0 a1 a2 a3. sys_yield pf,
      \<lambda>a0 a1 a2 a3. sys_task_info a0,
      \<lambda>a0 a1 a2 a3. sys_exit pf]"

text \<open>\<open>cycles\<close> are the readings of the cycle counter before and after the handler.\<close>

definition dispatch ::
  "platform \<Rightarrow> u64 \<times> u64 \<Rightarrow> usize \<Rightarrow> usize \<Rightarrow> usize \<Rightarrow> usize \<Rightarrow> usize \<Rightarrow> usize kernel_op" where
  "dispatch pf cycles syscall_id arg0 arg1 arg2 arg3 k =
     (if SYSCALL_COUNT \<le> unat syscall_id then Returned E_INVALID_SYSCALL k
      else obind (increment_syscall_count k) (\<lambda>_ k.
         obind ((SYSCALL_TABLE pf ! unat syscall_id) arg0 arg1 arg2 arg3 k) (\<lambda>result k.
         let k = wcet_update (unat syscall_id) (snd cycles - fst cycles) k
         in if text_start (linker pf) \<le> result \<and> result < kernel_end pf
            then Returned E_INTERNAL k else Returned result k)))"

end
