(* ===== verification/Syscall_Inv.thy ===== *)
theory Syscall_Inv
  imports Syscall
begin

text \<open>
  Correctness of the system calls: every handler keeps the contract of a kernel entry; a pointer the
  kernel accepts lies in memory the caller may access itself, so the kernel stores only there; the
  exact effect of sending and receiving; the escalation of denied capability requests.
\<close>


section \<open>Every handler keeps the contract\<close>

lemma keeps_fields:
  assumes "TASKS k' = TASKS k" "TASK_COUNT k' = TASK_COUNT k" "CURRENT_TASK k' = CURRENT_TASK k"
    "RESTART_COUNTS k' = RESTART_COUNTS k" "PMP k' = PMP k" "BLACKBOX k' = BLACKBOX k" "BROKER k' = BROKER k"
    "MEM k' = MEM k" "ipc_inv (IPC k) \<Longrightarrow> ipc_inv (IPC k')" "CHANNEL_OWNERS (IPC k') = CHANNEL_OWNERS (IPC k)"
    "CHANNELS_SEALED (IPC k') = CHANNELS_SEALED (IPC k)"
    "length (CAP_FAIL_COUNT k') = length (CAP_FAIL_COUNT k)" "length (WCET_MAX k') = length (WCET_MAX k)"
    "length (WCET_LAST k') = length (WCET_LAST k)"
  shows "keeps k k'"
  using assms by (auto simp: keeps_def kernel_inv_def shape_def pmp_current_def)

lemma keeps_cap_fail: "keeps k (k\<lparr>CAP_FAIL_COUNT := (CAP_FAIL_COUNT k)[c := v]\<rparr>)"
  by (rule keeps_fields) simp_all

lemma keeps_wcet: "keeps k (wcet_update i cycles k)"
  by (rule keeps_fields) (simp_all add: wcet_update_def)

lemma keeps_set_channel: "spsc_inv ch \<Longrightarrow> keeps k (set_channel c ch k)"
  by (rule keeps_fields) (simp_all add: set_channel_def ipc_inv_def list_all_update)

lemma keeps_shape: "keeps k s \<Longrightarrow> kernel_inv k \<Longrightarrow> kernel_inv s \<and> shape s"
  by (simp add: keeps_def kernel_inv_def)

lemma keeps_run_map_task:
  assumes "kernel_inv k" "i < 8" "\<And>t. task_evolves t (f t)"
  shows "keeps_run k (map_task i f k)"
  using assms by (auto intro!: quiet_keeps_run quiet_map_task simp: kernel_inv_def)

lemma keeps_increment:
  assumes "kernel_inv k"
  shows "keeps_run k (increment_syscall_count k)" "keeps_run k (increment_ipc_send k)"
  using assms
  by (auto simp: increment_syscall_count_def increment_ipc_send_def kernel_inv_def shape_def
      intro!: quiet_keeps_run quiet_map_task task_evolves_def [THEN iffD2])

lemma current_unat: "shape k \<Longrightarrow> unat (current_task_id k) = CURRENT_TASK k"
  by (simp add: current_task_id_def shape_def unsigned_of_nat take_bit_nat_eq_self)

text \<open>The answer to the third failure in a row.\<close>

definition cap_violation :: "platform \<Rightarrow> u8 \<Rightarrow> unit kernel_op" where
  "cap_violation pf caller k =
     (case call_policy caller CapViolation (t_dal (TASKS k ! unat caller)) (log_event CapViolationEv caller []
        (k\<lparr>CAP_FAIL_COUNT := (CAP_FAIL_COUNT k)[unat caller := 0]\<rparr>)) of
      (action, s) \<Rightarrow> apply_action pf (unat caller) action s)"

lemma count_cap_result_eq:
  assumes c: "unat caller < 8"
  shows "count_cap_result pf caller ok k =
    (if ok then Returned E_OK (k\<lparr>CAP_FAIL_COUNT := (CAP_FAIL_COUNT k)[unat caller := 0]\<rparr>)
     else if 3 \<le> saturating_add (CAP_FAIL_COUNT k ! unat caller) 1
     then obind (cap_violation pf caller k) (\<lambda>_. Returned E_NO_CAPABILITY)
     else Returned E_NO_CAPABILITY
       (k\<lparr>CAP_FAIL_COUNT := (CAP_FAIL_COUNT k)[unat caller := saturating_add (CAP_FAIL_COUNT k ! unat caller) 1]\<rparr>))"
  using c by (simp add: count_cap_result_def cap_violation_def get_task_def log_event_def Let_def case_prod_beta)

lemma quiet_cap_violation:
  assumes "shape k" "unat caller < 8"
  shows "quiet_run (k\<lparr>CAP_FAIL_COUNT := (CAP_FAIL_COUNT k)[unat caller := 0]\<rparr>) (cap_violation pf caller k)"
proof -
  have "shape (k\<lparr>CAP_FAIL_COUNT := (CAP_FAIL_COUNT k)[unat caller := 0]\<rparr>)"
    using assms(1) by (simp add: shape_def)
  from quiet_policy_action_log [OF this assms(2)] show ?thesis unfolding cap_violation_def by blast
qed

lemma keeps_cap_violation:
  assumes "kernel_inv k" "unat caller < 8"
  shows "keeps_run k (cap_violation pf caller k)"
  using keeps_run_trans [OF keeps_cap_fail quiet_keeps_run [OF quiet_cap_violation]] assms
  by (simp add: kernel_inv_def)

lemma keeps_count_cap_result:
  assumes "kernel_inv k" "unat caller < 8"
  shows "keeps_run k (count_cap_result pf caller ok k)"
  unfolding count_cap_result_eq [OF assms(2)]
  using keeps_run_obind [OF keeps_cap_violation [OF assms], of pf "\<lambda>_. Returned E_NO_CAPABILITY"]
  by (simp add: keeps_cap_fail)

lemma keeps_sys_cap_invoke:
  assumes "kernel_inv k"
  shows "keeps_run k (sys_cap_invoke pf a0 a1 a2 a3 k)"
proof -
  have sh: "shape k" using assms by (simp add: kernel_inv_def)
  then have "unat (current_task_id k) < 8" using current_unat [OF sh] by (simp add: shape_def)
  then show ?thesis using keeps_count_cap_result [OF assms] by (simp add: sys_cap_invoke_def Let_def)
qed

lemma keeps_sys_yield:
  assumes "kernel_inv k"
  shows "keeps_run k (sys_yield pf k)"
  unfolding sys_yield_def
proof (rule keeps_run_obind, goal_cases)
  case 1
  show ?case using assms by (intro quiet_keeps_run quiet_watchdog_kick) (simp add: kernel_inv_def)
next
  case (2 _ s)
  then have "kernel_inv s" using keeps_shape assms by blast
  then show ?case by (intro keeps_run_obind [OF keeps_schedule_yield]) simp_all
qed

lemma keeps_sys_exit:
  assumes "kernel_inv k"
  shows "keeps_run k (sys_exit pf k)"
proof -
  have sh: "shape k" using assms by (simp add: kernel_inv_def)
  then have c: "unat (current_task_id k) < 8" using current_unat [OF sh] by (simp add: shape_def)
  show ?thesis unfolding sys_exit_def Let_def
  proof (rule keeps_run_obind [OF quiet_keeps_run [OF quiet_isolate_task [OF sh c]]], goal_cases)
    case (1 _ s)
    then have "kernel_inv s" using keeps_shape assms by blast
    then show ?case by (intro keeps_run_obind [OF keeps_schedule_yield]) simp_all
  qed
qed

lemma keeps_sys_task_info: "kernel_inv k \<Longrightarrow> keeps_run k (sys_task_info a0 k)"
  by (auto simp: sys_task_info_def query_task_info_def get_task_def kernel_inv_def shape_def)

lemma valid_ptr_state:
  assumes "kernel_inv k"
  shows "\<exists>b. is_valid_user_ptr caller ptr sz acc k = Returned b k"
proof -
  have "\<exists>r. task_stack_range caller k = Returned r k"
    using assms by (auto simp: task_stack_range_def get_task_def kernel_inv_def shape_def Let_def)
  then obtain r where "task_stack_range caller k = Returned r k" by blast
  then show ?thesis by (auto simp: is_valid_user_ptr_def split: option.split)
qed

lemma read_msg_wf: "msg_wf (read_msg mem ptr)"
  by (simp add: read_msg_def msg_wf_def)

lemma channel_inv: "kernel_inv k \<Longrightarrow> c < 8 \<Longrightarrow> spsc_inv (IPC_CHANNELS (IPC k) ! c)"
  by (simp add: kernel_inv_def ipc_inv_def list_all_length)

lemma keeps_sys_ipc_send:
  assumes inv: "kernel_inv k"
  shows "keeps_run k (sys_ipc_send ch ptr k)"
proof (cases "8 \<le> unat ch")
  case False
  then have get: "get_channel ch = Some (unat ch)" by (simp add: get_channel_def)
  obtain b where b: "is_valid_user_ptr (current_task_id k) ptr 64 Read k = Returned b k"
    using valid_ptr_state [OF inv] by blast
  have rate: "\<exists>r. check_ipc_rate k = Returned r k"
    using inv by (auto simp: check_ipc_rate_def get_task_def kernel_inv_def shape_def)
  have send: "keeps_run s (case spsc_send (IPC_CHANNELS (IPC s) ! unat ch) (read_msg (MEM s) ptr) of
      None \<Rightarrow> Halted Panic s
    | Some (Inr _, c) \<Rightarrow> Returned E_OK (set_channel (unat ch) c s)
    | Some (Inl _, c) \<Rightarrow> Returned E_IPC_FULL (set_channel (unat ch) c s))" if "kernel_inv s" for s
  proof -
    have "spsc_inv (IPC_CHANNELS (IPC s) ! unat ch)" using channel_inv [OF that] False by simp
    from spsc.enq_cases [OF this read_msg_wf, of "MEM s" ptr] show ?thesis
      by cases (simp_all add: keeps_set_channel \<open>spsc_inv _\<close>)
  qed
  have "keeps_run k (obind (increment_ipc_send k) (\<lambda>_ s. case spsc_send (IPC_CHANNELS (IPC s) ! unat ch) (read_msg (MEM s) ptr) of
      None \<Rightarrow> Halted Panic s
    | Some (Inr _, c) \<Rightarrow> Returned E_OK (set_channel (unat ch) c s)
    | Some (Inl _, c) \<Rightarrow> Returned E_IPC_FULL (set_channel (unat ch) c s)))"
    using keeps_shape inv by (intro keeps_run_obind [OF keeps_increment(2)] send) blast+
  with False b rate get show ?thesis by (auto simp: sys_ipc_send_def Let_def)
qed (simp add: sys_ipc_send_def)


section \<open>What an accepted pointer gives access to\<close>

definition platform_ok :: "platform \<Rightarrow> bool" where
  "platform_ok pf \<longleftrightarrow> linker_ok (linker pf) \<and> 8192 dvd unat (TASK_STACKS pf)
     \<and> pmp_data_end (linker pf) \<le> TASK_STACKS pf \<and> unat (TASK_STACKS pf) + 8 * 8192 \<le> unat NATIVE_TASK_BASE"

definition boot_entries :: "platform \<Rightarrow> bool \<Rightarrow> pmp_unit \<Rightarrow> bool" where
  "boot_entries pf uart h \<longleftrightarrow>
     take 8 (pmp_entries h) = zip (map (drop_bit 2) (boot_addrs (linker pf) uart)) (boot_configs uart)"

definition stack_base :: "platform \<Rightarrow> nat \<Rightarrow> usize" where
  "stack_base pf i = TASK_STACKS pf + of_nat i * TASK_STACK_SIZE"

text \<open>The legacy tasks have the stacks \<open>create_task\<close> gave them.\<close>

definition stacks_ok :: "platform \<Rightarrow> kernel \<Rightarrow> bool" where
  "stacks_ok pf k \<longleftrightarrow> (\<forall>i<MAX_TASKS. task_active (TASKS k ! i) \<and> \<not> t_is_sntm_native (TASKS k ! i) \<longrightarrow>
     t_stack_top (TASKS k ! i) = stack_base pf i + TASK_STACK_SIZE
     \<and> t_pmp_addr_napot (TASKS k ! i) = napot_encode (stack_base pf i) 13)"

lemma keeps_stacks_ok:
  assumes "keeps k k'" "kernel_inv k" "stacks_ok pf k"
  shows "stacks_ok pf k'"
proof -
  have "task_keeps (TASKS k ! i) (TASKS k' ! i)" if "i < 8" for i using assms that by (simp add: keeps_def)
  then show ?thesis using assms(3) by (fastforce simp: stacks_ok_def task_keeps_def task_identity_def)
qed

lemma keeps_boot_entries: "keeps k k' \<Longrightarrow> kernel_inv k \<Longrightarrow> boot_entries pf uart (PMP k) \<Longrightarrow> boot_entries pf uart (PMP k')"
  by (simp add: keeps_def boot_entries_def)

lemma kernel_scan_above:
  assumes ld: "linker_ok ld" and addr: "pmp_data_end ld \<le> addr"
  shows "pmp_scan 0 (zip (map (drop_bit 2) (boot_addrs ld uart)) (boot_configs uart)) addr = None"
proof -
  have "a \<le> addr" if "a \<in> {text_end ld, rodata_end ld, pmp_data_end ld, UART_END}" for a
    using that ld addr by (auto simp: linker_ok_def word_le_nat_alt)
  then have no: "\<not> drop_bit 2 addr < drop_bit 2 a" if "a \<in> {text_end ld, rodata_end ld, pmp_data_end ld, UART_END}" for a
    using drop_bit2_mono that by (meson not_less)
  have "\<not> drop_bit 2 addr < drop_bit 2 (text_end ld)" "\<not> drop_bit 2 addr < drop_bit 2 (rodata_end ld)"
    "\<not> drop_bit 2 addr < drop_bit 2 (pmp_data_end ld)" "\<not> drop_bit 2 addr < drop_bit 2 UART_END"
    by (rule no, simp)+
  then show ?thesis by (cases uart) (simp_all add: boot_addrs_def boot_configs_def match_entry_def)
qed

text \<open>Above the kernel's data, the entries of the current task decide.\<close>

lemma user_allowed_switch:
  assumes "linker_ok (linker pf)" "boot_entries pf uart h" "drop 8 (pmp_entries h) = switch_entries sw"
    "pmp_data_end (linker pf) \<le> addr"
  shows "user_allowed h acc addr =
    (case pmp_scan (drop_bit 2 (if uart then UART_END else 0)) (switch_entries sw) addr of None \<Rightarrow> False | Some c \<Rightarrow> cfg_permits acc c)"
proof -
  let ?b = "zip (map (drop_bit 2) (boot_addrs (linker pf) uart)) (boot_configs uart)"
  have "pmp_entries h = ?b @ switch_entries sw"
    using assms(2,3) append_take_drop_id [of 8 "pmp_entries h"] by (simp add: boot_entries_def)
  moreover have "?b \<noteq> []" "fst (last ?b) = drop_bit 2 (if uart then UART_END else 0)"
    by (simp_all add: boot_addrs_def boot_configs_def)
  ultimately show ?thesis
    using kernel_scan_above [OF assms(1,4), of uart] by (simp add: user_allowed_def scan_append)
qed

lemma user_allowed_profile:
  assumes "linker_ok (linker pf)" "boot_entries pf uart h" "drop 8 (pmp_entries h) = switch_entries (To_profile p)"
    "profile_ok p" "pmp_data_end (linker pf) \<le> addr"
  shows "user_allowed h acc addr =
    (case find (in_region addr) (active_regions p) of None \<Rightarrow> False | Some r \<Rightarrow> access_matches acc (reg_perm r))"
proof -
  have "profile_plan p = concat (map region_plan (active_regions p))" "list_all region_ok (active_regions p)"
    using assms(4) by (auto simp: profile_ok_def profile_plan_def)
  then show ?thesis
    unfolding user_allowed_switch [OF assms(1-3,5)] by (simp add: switch_entries_def scan_regions)
qed

lemma user_allowed_stack:
  assumes "linker_ok (linker pf)" "boot_entries pf uart h" "drop 8 (pmp_entries h) = switch_entries (To_stack (napot_encode base 13))"
    "8192 dvd unat base" "pmp_data_end (linker pf) \<le> addr"
  shows "user_allowed h acc addr = (acc \<noteq> Execute \<and> unat base \<le> unat addr \<and> unat addr < unat base + 8192)"
proof -
  have "napot_match (napot_encode base 13) (drop_bit 2 addr) = (unat base \<le> unat addr \<and> unat addr < unat base + 8192)"
    using napot_match_range [of 13 base addr] assms(4) by simp
  then have "pmp_scan prev (switch_entries (To_stack (napot_encode base 13))) addr =
      (if unat base \<le> unat addr \<and> unat addr < unat base + 8192 then Some 0x1B else None)" for prev
    using scan_off [of "napot_encode base 13" 7 addr] by (auto simp: switch_entries_def match_entry_def)
  then show ?thesis unfolding user_allowed_switch [OF assms(1-3,5)] by (cases acc) auto
qed


text \<open>The regions of a generated profile are apart from each other, and lie in native memory.\<close>

lemma generated_regions_apart:
  assumes "get_pmp_profile t = Some p" "r \<in> set (active_regions p)" "s \<in> set (active_regions p)"
    "in_region a r" "in_region a s"
  shows "r = s"
proof -
  have "active_regions p \<noteq> []" using assms(2) by auto
  with native_profile_cases [OF assms(1)]
  consider "p = TASK_HELLO_PROFILE" | "p = TASK_WORLD_PROFILE" by blast
  then show ?thesis
    using assms(2-5) by cases (simp_all only: active_generated,
      auto simp: TASK_HELLO_PROFILE_def TASK_WORLD_PROFILE_def in_region_def)
qed

lemma generated_region_native:
  assumes "get_pmp_profile t = Some p" "r \<in> set (active_regions p)"
  shows "unat NATIVE_TASK_BASE \<le> unat (reg_base r) \<and> unat (reg_base r) + unat (reg_size r) \<le> 0x80800000"
proof -
  have "active_regions p \<noteq> []" using assms(2) by auto
  with native_profile_cases [OF assms(1)] consider "p = TASK_HELLO_PROFILE" | "p = TASK_WORLD_PROFILE" by blast
  then show ?thesis
  proof cases
    case 1
    from hello_regions [OF assms(2) [unfolded 1]] show ?thesis by simp
  next
    case 2
    from world_regions [OF assms(2) [unfolded 2]] show ?thesis by simp
  qed
qed

lemma find_in_region:
  assumes "get_pmp_profile t = Some p" "r \<in> set (active_regions p)" "in_region a r"
  shows "find (in_region a) (active_regions p) = Some r"
proof -
  obtain s where s: "find (in_region a) (active_regions p) = Some s"
    using assms(2,3) by (metis find_None_iff option.exhaust)
  then have "s \<in> set (active_regions p)" "in_region a s" by (auto simp: find_Some_iff)
  then show ?thesis using generated_regions_apart [OF assms(1) _ assms(2) _ assms(3)] s by blast
qed

lemma ptr_loop_region:
  "ptr_loop rs ptr ptr_end access \<Longrightarrow>
   \<exists>r\<in>set rs. unat (reg_base r) \<le> unat ptr \<and> unat ptr_end \<le> unat (reg_base r) + unat (reg_size r)
     \<and> access_matches access (reg_perm r)"
  by (induction rs) (auto simp: checked_add_Some_iff word_le_nat_alt split: option.splits if_splits)

lemma unat_offset:
  "checked_add ptr sz = Some ptr_end \<Longrightarrow> i < unat sz \<Longrightarrow> unat (ptr + of_nat i) = unat ptr + i"
  for ptr sz ptr_end :: usize
  using unat_less [of ptr_end]
  by (simp add: checked_add_Some_iff unat_word_ariths unsigned_of_nat take_bit_eq_mod)

lemma stack_base_unat:
  assumes "platform_ok pf" "i \<le> 8"
  shows "unat (stack_base pf i) = unat (TASK_STACKS pf) + i * 8192"
proof -
  have "unat (of_nat i * 8192 :: usize) = i * 8192"
    using assms(2) by (simp add: unat_word_ariths unsigned_of_nat take_bit_eq_mod)
  moreover have "unat (TASK_STACKS pf) + i * 8192 < 2 ^ 64" using assms by (simp add: platform_ok_def)
  ultimately show ?thesis unfolding stack_base_def by (subst unat_word_ariths) simp
qed

lemma valid_native_ptr:
  assumes "check_ptr_in_profile p ptr sz acc" "get_pmp_profile t = Some p"
    "linker_ok (linker pf)" "boot_entries pf uart h" "drop 8 (pmp_entries h) = switch_entries (To_profile p)"
    "i < unat sz"
  shows "user_allowed h acc (ptr + of_nat i)"
proof -
  from assms(1) obtain e where e: "checked_add ptr sz = Some e" "ptr_loop (active_regions p) ptr e acc"
    by (auto simp: check_ptr_in_profile_def split: if_splits option.splits)
  then obtain r where r: "r \<in> set (active_regions p)" "unat (reg_base r) \<le> unat ptr"
    "unat e \<le> unat (reg_base r) + unat (reg_size r)" "access_matches acc (reg_perm r)"
    using ptr_loop_region by blast
  let ?a = "ptr + of_nat i"
  have a: "unat ?a = unat ptr + i" by (rule unat_offset [OF e(1) assms(6)])
  have "unat e = unat ptr + unat sz" using e(1) by (simp add: checked_add_Some_iff)
  with a r assms(6) have "in_region ?a r" by (simp add: in_region_def)
  moreover have "unat (pmp_data_end (linker pf)) \<le> unat NATIVE_TASK_BASE"
    using assms(3) by (simp add: linker_ok_def word_le_nat_alt)
  then have "pmp_data_end (linker pf) \<le> ?a"
    using generated_region_native [OF assms(2) r(1)] r(2) a by (simp add: word_le_nat_alt)
  ultimately show ?thesis
    using user_allowed_profile [OF assms(3-5) get_pmp_profile_ok [OF assms(2)]] find_in_region [OF assms(2) r(1)] r(4)
    by simp
qed

lemma valid_ptr_bytes:
  assumes pf: "platform_ok pf" and inv: "kernel_inv k" "pmp_current k"
    and boot: "boot_entries pf uart (PMP k)" and st: "stacks_ok pf k"
    and ok: "is_valid_user_ptr (current_task_id k) ptr sz acc k = Returned True k'"
    and acc: "acc \<noteq> Execute" and i: "i < unat sz"
  shows "k' = k \<and> user_allowed (PMP k) acc (ptr + of_nat i)"
proof -
  have sh: "shape k" using inv(1) by (simp add: kernel_inv_def)
  let ?c = "CURRENT_TASK k"
  let ?t = "TASKS k ! ?c"
  have c: "unat (current_task_id k) = ?c" "?c < 8" using current_unat [OF sh] sh by (simp_all add: shape_def)
  have ld: "linker_ok (linker pf)" using pf by (simp add: platform_ok_def)
  have k': "k' = k" using ok valid_ptr_state [OF inv(1)] by (metis outcome.inject(3))
  have wf: "task_wf ?c ?t" using inv(1) c(2) by (simp add: kernel_inv_def)
  have "user_allowed (PMP k) acc (ptr + of_nat i)"
  proof (cases "is_task_sntm_native (current_task_id k) k")
    case True
    then have nat: "t_is_sntm_native ?t" "task_active ?t"
      using c by (auto simp: is_task_sntm_native_def task_active_def Let_def split: if_splits) (cases "t_state ?t"; simp)
    with wf have tid: "t_id ?t = current_task_id k"
      by (auto simp: task_wf_def task_active_def current_task_id_def)
    from True ok obtain p where p: "get_pmp_profile (current_task_id k) = Some p" "check_ptr_in_profile p ptr sz acc"
      by (auto simp: is_valid_user_ptr_def split: option.splits if_splits)
    have "drop 8 (pmp_entries (PMP k)) = switch_entries (To_profile p)"
      using inv(2) nat tid p(1) by (simp add: pmp_current_def task_switch_def)
    then show ?thesis by (rule valid_native_ptr [OF p(2,1) ld boot _ i])
  next
    case False
    then obtain e where e: "checked_add ptr sz = Some e"
      using ok by (auto simp: is_valid_user_ptr_def split: option.splits if_splits)
    with False ok c have act: "task_active ?t" "?c < TASK_COUNT k" and
      rng: "t_stack_top ?t - 8192 \<le> ptr" "e \<le> t_stack_top ?t" "8192 \<le> t_stack_top ?t"
      by (auto simp: is_valid_user_ptr_def task_stack_range_def get_task_def task_active_def Let_def not_less
          split: if_splits) (cases "t_state ?t"; simp)
    have nat: "\<not> t_is_sntm_native ?t"
      using False act c by (auto simp: is_task_sntm_native_def task_active_def Let_def)
    with st act c(2) have top: "t_stack_top ?t = stack_base pf ?c + 8192"
      "t_pmp_addr_napot ?t = napot_encode (stack_base pf ?c) 13"
      by (auto simp: stacks_ok_def)
    have base: "unat (stack_base pf ?c) = unat (TASK_STACKS pf) + ?c * 8192"
      by (rule stack_base_unat [OF pf]) (use c(2) in simp)
    have "?c * 8192 \<le> 7 * 8192" using c(2) by (intro mult_right_mono) simp_all
    then have tunat: "unat (t_stack_top ?t) = unat (stack_base pf ?c) + 8192"
      using pf base unfolding top(1) by (subst unat_word_ariths) (simp add: platform_ok_def)
    let ?a = "ptr + of_nat i"
    have a: "unat ?a = unat ptr + i" by (rule unat_offset [OF e i])
    have le: "unat e = unat ptr + unat sz" using e by (simp add: checked_add_Some_iff)
    have "t_stack_top ?t - 8192 = stack_base pf ?c" unfolding top(1) by simp
    then have in_stack: "unat (stack_base pf ?c) \<le> unat ?a" "unat ?a < unat (stack_base pf ?c) + 8192"
      using rng a le i tunat by (auto simp: word_le_nat_alt)
    have "drop 8 (pmp_entries (PMP k)) = switch_entries (To_stack (napot_encode (stack_base pf ?c) 13))"
      using inv(2) nat top(2) by (simp add: pmp_current_def task_switch_def)
    moreover have "8192 dvd unat (stack_base pf ?c)" using pf base by (simp add: platform_ok_def)
    moreover have "pmp_data_end (linker pf) \<le> ?a"
      using pf base in_stack by (simp add: platform_ok_def word_le_nat_alt)
    ultimately show ?thesis using user_allowed_stack [OF ld boot] in_stack acc by blast
  qed
  with k' show ?thesis by blast
qed

text \<open>
  C5. Every pointer the kernel accepts is the caller's own: if the check of a system call accepts a
  buffer for reading or writing, each byte of the buffer is one that the PMP lets the calling task
  itself read or write at that moment, for native tasks as for legacy ones. A task cannot make the
  kernel touch memory it has no access to.
\<close>
theorem valid_user_ptr_sound:
  assumes "platform_ok pf" "kernel_inv k" "pmp_current k" "boot_entries pf uart (PMP k)" "stacks_ok pf k"
    and "is_valid_user_ptr (current_task_id k) ptr sz acc k = Returned True k'" "acc \<noteq> Execute"
  shows "k' = k \<and> (\<forall>i<unat sz. user_allowed (PMP k) acc (ptr + of_nat i))"
  using valid_ptr_bytes [OF assms] valid_ptr_state [OF assms(2)] assms(6) by (metis outcome.inject(3))


section \<open>Messages in memory\<close>

lemma write_msg_other:
  assumes "\<And>i. i < 64 \<Longrightarrow> a \<noteq> ptr + of_nat i"
  shows "write_msg m ptr mem a = mem a"
proof -
  have "(\<And>i. i \<in> set is \<Longrightarrow> a \<noteq> ptr + of_nat i) \<Longrightarrow>
      fold (\<lambda>i mem. mem(ptr + of_nat i := msg_data m ! i)) is mem a = mem a" for "is"
    by (induction "is" arbitrary: mem) auto
  from this [of "[0..<64]"] assms show ?thesis by (simp add: write_msg_def)
qed

lemma of_nat_small_inj: "i < 2 ^ 64 \<Longrightarrow> j < 2 ^ 64 \<Longrightarrow> (of_nat i :: usize) = of_nat j \<longleftrightarrow> i = j"
  unfolding word_unat_eq_iff unsigned_of_nat by (simp add: take_bit_nat_eq_self)

lemma spsc_content_wf: "spsc_inv ch \<Longrightarrow> m \<in> set (spsc_content ch) \<Longrightarrow> msg_wf m"
  by (auto simp: spsc_inv_def spsc_content_def list_all_length)

lemma write_msg_at:
  assumes "i < 64"
  shows "write_msg m ptr mem (ptr + of_nat i) = msg_data m ! i"
proof -
  have "n \<le> 64 \<Longrightarrow> fold (\<lambda>i mem. mem(ptr + of_nat i := msg_data m ! i)) [0..<n] mem (ptr + of_nat i)
      = (if i < n then msg_data m ! i else mem (ptr + of_nat i))" for n
  proof (induction n)
    case (Suc n)
    have "(of_nat i :: usize) = of_nat n \<longleftrightarrow> i = n" using assms Suc.prems by (intro of_nat_small_inj) simp_all
    then show ?case using Suc by auto
  qed simp
  from this [of 64] assms show ?thesis by (simp add: write_msg_def)
qed

lemma read_write_msg: "msg_wf m \<Longrightarrow> read_msg (write_msg m ptr mem) ptr = m"
  by (cases m) (auto simp: read_msg_def msg_wf_def write_msg_at intro!: nth_equalityI)

section \<open>System calls on channels\<close>

definition channel :: "kernel \<Rightarrow> nat \<Rightarrow> IpcMessage list" where
  "channel k c = spsc_content (IPC_CHANNELS (IPC k) ! c)"

lemma channel_set:
  assumes "kernel_inv k" "c < 8" "d < 8"
  shows "channel (set_channel c ch k) d = (if d = c then spsc_content ch else channel k d)"
  using assms by (simp add: channel_def set_channel_def kernel_inv_def ipc_inv_def)

lemma increment_ipc_send_eq:
  assumes "kernel_inv k"
  obtains s where "increment_ipc_send k = Returned () s" "IPC s = IPC k" "MEM s = MEM k" "kernel_inv s"
    "CURRENT_TASK s = CURRENT_TASK k"
proof -
  have sh: "shape k" using assms by (simp add: kernel_inv_def)
  then have "\<exists>ts. increment_ipc_send k = Returned () (k\<lparr>TASKS := ts\<rparr>)"
    by (auto simp: increment_ipc_send_def map_task_def shape_def intro: exI [of _ "TASKS k"])
  then obtain ts where ts: "increment_ipc_send k = Returned () (k\<lparr>TASKS := ts\<rparr>)" by blast
  moreover have "kernel_inv (k\<lparr>TASKS := ts\<rparr>)" using keeps_increment(2) [OF assms] ts assms by (simp add: keeps_def)
  ultimately show ?thesis using that by simp
qed

lemma result_codes:
  "E_OK \<noteq> E_INVALID_ARG" "E_OK \<noteq> E_NO_CAPABILITY" "E_OK \<noteq> E_RATE_LIMITED" "E_OK \<noteq> E_IPC_FULL" "E_OK \<noteq> E_IPC_EMPTY"
  by (simp_all add: E_OK_def E_INVALID_ARG_def E_NO_CAPABILITY_def E_RATE_LIMITED_def E_IPC_FULL_def E_IPC_EMPTY_def)

lemma sys_ipc_send_cases:
  assumes inv: "kernel_inv k"
  obtains (refused) r where "r \<noteq> E_OK" "sys_ipc_send ch ptr k = Returned r k"
  | (full) s where "sys_ipc_send ch ptr k = Returned E_IPC_FULL s" "MEM s = MEM k" "CURRENT_TASK s = CURRENT_TASK k"
      "\<And>c. c < 8 \<Longrightarrow> channel s c = channel k c"
  | (sent) s where "sys_ipc_send ch ptr k = Returned E_OK s" "MEM s = MEM k" "CURRENT_TASK s = CURRENT_TASK k" "unat ch < 8"
      "\<And>c. c < 8 \<Longrightarrow> channel s c = channel k c @ (if c = unat ch then [read_msg (MEM k) ptr] else [])"
      "can_send (IPC k) ch (current_task_id k)" "is_valid_user_ptr (current_task_id k) ptr 64 Read k = Returned True k"
      "t_ipc_send_count (TASKS k ! CURRENT_TASK k) < 16"
proof -
  obtain b where b: "is_valid_user_ptr (current_task_id k) ptr 64 Read k = Returned b k"
    using valid_ptr_state [OF inv] by blast
  show thesis
  proof (cases "unat ch < 8 \<and> b \<and> unat ptr mod 8 = 0 \<and> can_send (IPC k) ch (current_task_id k)
      \<and> check_ipc_rate k = Returned True k")
    case False
    have "\<exists>r. check_ipc_rate k = Returned r k"
      using inv by (auto simp: check_ipc_rate_def get_task_def kernel_inv_def shape_def)
    with False b result_codes have "\<exists>r. sys_ipc_send ch ptr k = Returned r k \<and> r \<noteq> E_OK"
      by (auto simp: sys_ipc_send_def Let_def)
    then show thesis using refused by blast
  next
    case True
    then have ch: "unat ch < 8" "get_channel ch = Some (unat ch)" by (simp_all add: get_channel_def)
    have rate: "t_ipc_send_count (TASKS k ! CURRENT_TASK k) < 16"
      using True inv by (auto simp: check_ipc_rate_def get_task_def kernel_inv_def shape_def split: if_splits)
    obtain s where s: "increment_ipc_send k = Returned () s" "IPC s = IPC k" "MEM s = MEM k" "kernel_inv s"
      "CURRENT_TASK s = CURRENT_TASK k" using increment_ipc_send_eq [OF inv] .
    have run: "sys_ipc_send ch ptr k = (case spsc_send (IPC_CHANNELS (IPC s) ! unat ch) (read_msg (MEM s) ptr) of
        None \<Rightarrow> Halted Panic s
      | Some (Inr _, c) \<Rightarrow> Returned E_OK (set_channel (unat ch) c s)
      | Some (Inl _, c) \<Rightarrow> Returned E_IPC_FULL (set_channel (unat ch) c s))"
      using True b ch s(1) by (simp add: sys_ipc_send_def Let_def)
    have mem: "MEM (set_channel c q s) = MEM k" "CURRENT_TASK (set_channel c q s) = CURRENT_TASK k" for c q
      using s(3,5) by (simp_all add: set_channel_def)
    have same: "channel s c = channel k c" for c using s(2) by (simp add: channel_def)
    from spsc.enq_cases [OF channel_inv [OF s(4) ch(1)] read_msg_wf, of "MEM s" ptr] show thesis
    proof cases
      case 1
      show thesis
        by (rule full [of "set_channel (unat ch) (IPC_CHANNELS (IPC s) ! unat ch) s"]) (use 1 run mem same channel_set [OF s(4) ch(1)] in \<open>auto simp: channel_def\<close>)
    next
      case (2 q')
      show thesis
        by (rule sent [of "set_channel (unat ch) q' s"])
          (use 2 run mem same s(3) ch True b rate channel_set [OF s(4) ch(1)] in \<open>auto simp: channel_def\<close>)
    qed
  qed
qed

lemma sys_ipc_recv_cases:
  assumes inv: "kernel_inv k"
  obtains (refused) r where "r \<noteq> E_OK" "sys_ipc_recv ch ptr k = Returned r k"
  | (received) m q where
      "sys_ipc_recv ch ptr k = Returned E_OK ((set_channel (unat ch) q k)\<lparr>MEM := write_msg m ptr (MEM k)\<rparr>)"
      "unat ch < 8" "spsc_inv q" "msg_wf m" "channel k (unat ch) = m # spsc_content q"
      "can_recv (IPC k) ch (current_task_id k)" "is_valid_user_ptr (current_task_id k) ptr 64 Write k = Returned True k"
proof -
  obtain b where b: "is_valid_user_ptr (current_task_id k) ptr 64 Write k = Returned b k"
    using valid_ptr_state [OF inv] by blast
  show thesis
  proof (cases "unat ch < 8 \<and> b \<and> unat ptr mod 8 = 0 \<and> can_recv (IPC k) ch (current_task_id k)")
    case False
    with b result_codes have "\<exists>r. sys_ipc_recv ch ptr k = Returned r k \<and> r \<noteq> E_OK"
      by (auto simp: sys_ipc_recv_def Let_def)
    then show thesis using refused by blast
  next
    case True
    then have ch: "unat ch < 8" "get_channel ch = Some (unat ch)" by (simp_all add: get_channel_def)
    have run: "sys_ipc_recv ch ptr k = (case spsc_recv (IPC_CHANNELS (IPC k) ! unat ch) of
        None \<Rightarrow> Halted Panic k
      | Some (Some msg, c) \<Rightarrow> Returned E_OK ((set_channel (unat ch) c k)\<lparr>MEM := write_msg msg ptr (MEM k)\<rparr>)
      | Some (None, c) \<Rightarrow> Returned E_IPC_EMPTY (set_channel (unat ch) c k))"
      using True b ch by (simp add: sys_ipc_recv_def Let_def)
    note cinv = channel_inv [OF inv ch(1)]
    from spsc.deq_cases [OF cinv] show thesis
    proof cases
      case 1
      have "set_channel (unat ch) (IPC_CHANNELS (IPC k) ! unat ch) k = k" by (simp add: set_channel_def)
      then show thesis using refused [of E_IPC_EMPTY] run 1 result_codes by auto
    next
      case (2 m q)
      then have "msg_wf m" using spsc_content_wf [OF cinv, of m] by simp
      with 2 run ch True b show thesis by (intro received [of m q]) (auto simp: channel_def)
    qed
  qed
qed

text \<open>
  C18. A send system call does what it reports and nothing else: it always returns to the caller,
  memory is unchanged, and the channels are unchanged except that on success the 64 bytes at the
  given address are appended to the named channel. Success implies that the caller owns the sending
  end, passed a valid pointer and has sent fewer than 16 messages since the last tick.
\<close>
theorem sys_ipc_send_exact:
  assumes inv: "kernel_inv k"
  shows "\<exists>r k'. sys_ipc_send ch ptr k = Returned r k' \<and> MEM k' = MEM k
    \<and> (\<forall>c<MAX_IPC_CHANNELS. channel k' c =
         channel k c @ (if r = E_OK \<and> c = unat ch then [read_msg (MEM k) ptr] else []))
    \<and> (r = E_OK \<longrightarrow> can_send (IPC k) ch (current_task_id k)
         \<and> is_valid_user_ptr (current_task_id k) ptr 64 Read k = Returned True k
         \<and> t_ipc_send_count (TASKS k ! CURRENT_TASK k) < MAX_SENDS_PER_TICK)"
proof (rule sys_ipc_send_cases [OF inv, of ch ptr], goal_cases)
  case (1 r)
  then show ?thesis by force
next
  case (2 s)
  then show ?thesis using result_codes by auto
next
  case (3 s)
  then show ?thesis by auto
qed

text \<open>
  C19. A receive system call does what it reports and nothing else: it always returns; on success
  the caller owns the receiving end, the oldest message of the channel has been removed from it and
  stands in the 64 bytes at the given, validated address, and no other byte and no other channel has
  changed; on any other result memory and channels are unchanged.
\<close>
theorem sys_ipc_recv_exact:
  assumes inv: "kernel_inv k"
  shows "\<exists>r k'. sys_ipc_recv ch ptr k = Returned r k'
    \<and> (\<forall>c<MAX_IPC_CHANNELS. channel k c =
         (if r = E_OK \<and> c = unat ch then [read_msg (MEM k') ptr] else []) @ channel k' c)
    \<and> (\<forall>a. (r = E_OK \<longrightarrow> (\<forall>i<64. a \<noteq> ptr + of_nat i)) \<longrightarrow> MEM k' a = MEM k a)
    \<and> (r = E_OK \<longrightarrow> can_recv (IPC k) ch (current_task_id k)
         \<and> is_valid_user_ptr (current_task_id k) ptr 64 Write k = Returned True k)"
proof (rule sys_ipc_recv_cases [OF inv, of ch ptr], goal_cases)
  case (1 r)
  then show ?thesis by force
next
  case (2 m q)
  have mem: "channel (s\<lparr>MEM := x\<rparr>) c = channel s c" for s x c by (simp add: channel_def)
  show ?thesis
    using 2 channel_set [OF inv 2(2)] read_write_msg [OF 2(4)] write_msg_other [of _ ptr m "MEM k"]
    by (auto simp: mem)
qed


section \<open>The dispatcher\<close>

text \<open>A kernel in operation on a platform: its invariant, with the PMP set up for the current task.\<close>

definition sys_ok :: "platform \<Rightarrow> bool \<Rightarrow> kernel \<Rightarrow> bool" where
  "sys_ok pf uart k \<longleftrightarrow> platform_ok pf \<and> kernel_inv k \<and> pmp_current k \<and> boot_entries pf uart (PMP k) \<and> stacks_ok pf k"

lemma keeps_sys_ok:
  assumes "keeps k k'" "sys_ok pf uart k"
  shows "sys_ok pf uart k'"
proof -
  have "kernel_inv k'" "pmp_current k'" using assms by (auto simp: keeps_def sys_ok_def)
  then show ?thesis
    using assms(2) keeps_stacks_ok [OF assms(1)] keeps_boot_entries [OF assms(1)] by (simp add: sys_ok_def)
qed

text \<open>
  The contract of an entry that may also store into the buffer of the task that entered: outside
  memory it keeps what every entry keeps, and each byte it changes is one this task may write.
\<close>

definition user_stores :: "kernel \<Rightarrow> kernel \<Rightarrow> bool" where
  "user_stores k k' \<longleftrightarrow> keeps k (k'\<lparr>MEM := MEM k\<rparr>) \<and> (\<forall>a. MEM k' a \<noteq> MEM k a \<longrightarrow> user_allowed (PMP k) Write a)"

fun stores_run :: "kernel \<Rightarrow> (kernel, 'a) outcome \<Rightarrow> bool" where
  "stores_run k (Halted r s) = (r = Policy_Shutdown \<and> user_stores k s \<and> 2 \<le> isolated_count s)"
| "stores_run k (Entered s) = user_stores k s"
| "stores_run k (Returned x s) = user_stores k s"

lemma keeps_user_stores: "keeps k k' \<Longrightarrow> user_stores k k'"
proof -
  assume k: "keeps k k'"
  then have "MEM k' = MEM k" by (simp add: keeps_def)
  moreover from this have "k'\<lparr>MEM := MEM k\<rparr> = k'" by (cases k') simp
  ultimately show ?thesis using k unfolding user_stores_def by metis
qed

lemma keeps_stores_run: "keeps_run k m \<Longrightarrow> stores_run k m"
  by (cases m) (auto intro: keeps_user_stores)

lemma sys_ok_mem: "sys_ok pf uart (k\<lparr>MEM := m\<rparr>) = sys_ok pf uart k"
  by (simp add: sys_ok_def kernel_inv_def shape_def pmp_current_def stacks_ok_def)

lemma user_stores_sys_ok: "user_stores k k' \<Longrightarrow> sys_ok pf uart k \<Longrightarrow> sys_ok pf uart k'"
  using keeps_sys_ok [of k "k'\<lparr>MEM := MEM k\<rparr>"] by (simp add: user_stores_def sys_ok_mem)

lemma stores_quiet:
  assumes "quiet k s" "user_stores s t"
  shows "user_stores k t"
proof -
  have "MEM s = MEM k" "PMP s = PMP k" using assms(1) by (auto simp: quiet_def)
  then show ?thesis using assms(2) keeps_trans [OF quiet_keeps [OF assms(1)]] by (auto simp: user_stores_def)
qed

lemma stores_run_quiet: "quiet k s \<Longrightarrow> stores_run s m \<Longrightarrow> stores_run k m"
  by (cases m) (auto intro: stores_quiet)

lemma stores_wcet:
  assumes "user_stores k s"
  shows "user_stores k (wcet_update i c s)"
proof -
  have "keeps (s\<lparr>MEM := MEM k\<rparr>) (wcet_update i c (s\<lparr>MEM := MEM k\<rparr>))" by (rule keeps_wcet)
  moreover have "wcet_update i c (s\<lparr>MEM := MEM k\<rparr>) = (wcet_update i c s)\<lparr>MEM := MEM k\<rparr>"
    "MEM (wcet_update i c s) = MEM s" by (simp_all add: wcet_update_def)
  ultimately show ?thesis using assms keeps_trans by (auto simp: user_stores_def)
qed

lemma stores_sys_ipc_recv:
  assumes ok: "sys_ok pf uart k"
  shows "stores_run k (sys_ipc_recv ch ptr k)"
proof -
  have inv: "kernel_inv k" using ok by (simp add: sys_ok_def)
  show ?thesis
  proof (rule sys_ipc_recv_cases [OF inv, of ch ptr], goal_cases)
    case (1 r)
    then show ?thesis by (simp add: keeps_user_stores)
  next
    case (2 m q)
    let ?k = "(set_channel (unat ch) q k)\<lparr>MEM := write_msg m ptr (MEM k)\<rparr>"
    have "?k\<lparr>MEM := MEM k\<rparr> = set_channel (unat ch) q k" by (simp add: set_channel_def)
    then have "keeps k (?k\<lparr>MEM := MEM k\<rparr>)" using keeps_set_channel [OF 2(3)] by simp
    moreover have "user_allowed (PMP k) Write a" if "write_msg m ptr (MEM k) a \<noteq> MEM k a" for a
    proof -
      from that write_msg_other obtain i where "i < 64" "a = ptr + of_nat i" by metis
      with valid_ptr_bytes [of pf k uart ptr 64 Write k i] 2(7) ok show ?thesis by (simp add: sys_ok_def)
    qed
    ultimately show ?thesis using 2(1) by (simp add: user_stores_def)
  qed
qed

lemma stores_handler:
  assumes "sys_ok pf uart k" "n < 6"
  shows "stores_run k ((SYSCALL_TABLE pf ! n) a0 a1 a2 a3 k)"
proof -
  have inv: "kernel_inv k" using assms(1) by (simp add: sys_ok_def)
  have "n \<in> {0, 1, 2, 3, 4, 5}" using assms(2) by auto
  then show ?thesis
    using keeps_sys_cap_invoke [OF inv] keeps_sys_ipc_send [OF inv] stores_sys_ipc_recv [OF assms(1)]
      keeps_sys_yield [OF inv] keeps_sys_task_info [OF inv] keeps_sys_exit [OF inv]
    by (auto simp: SYSCALL_TABLE_def keeps_stores_run)
qed

lemma increment_syscall_eq:
  assumes "shape k"
  obtains s where "increment_syscall_count k = Returned () s" "quiet k s"
proof -
  have "quiet_run k (increment_syscall_count k)"
    using assms by (auto simp: increment_syscall_count_def shape_def intro!: quiet_map_task task_evolves_def [THEN iffD2])
  moreover have "\<exists>s. increment_syscall_count k = Returned () s"
    using assms by (auto simp: increment_syscall_count_def map_task_def shape_def)
  ultimately show ?thesis using that by auto
qed

lemma stores_run_result:
  assumes "stores_run k m" "\<And>x s. m = Returned x s \<Longrightarrow> user_stores k s \<Longrightarrow> stores_run k (f x s)"
  shows "stores_run k (obind m f)"
  using assms by (cases m) auto

lemma stores_dispatch:
  assumes ok: "sys_ok pf uart k"
  shows "stores_run k (dispatch pf cycles n a0 a1 a2 a3 k)"
proof (cases "unat n < 6")
  case True
  have "shape k" using ok by (simp add: sys_ok_def kernel_inv_def)
  then obtain s where s: "increment_syscall_count k = Returned () s" "quiet k s" using increment_syscall_eq by blast
  have "sys_ok pf uart s" using keeps_sys_ok [OF quiet_keeps [OF s(2)] ok] .
  from stores_run_quiet [OF s(2) stores_handler [OF this True]]
  have "stores_run k ((SYSCALL_TABLE pf ! unat n) a0 a1 a2 a3 s)" .
  then have "stores_run k (obind ((SYSCALL_TABLE pf ! unat n) a0 a1 a2 a3 s) (\<lambda>result k.
         let k = wcet_update (unat n) (snd cycles - fst cycles) k
         in if text_start (linker pf) \<le> result \<and> result < kernel_end pf
            then Returned E_INTERNAL k else Returned result k))"
    by (rule stores_run_result) (simp add: Let_def stores_wcet)
  then show ?thesis using s(1) True by (simp add: dispatch_def)
next
  case False
  then show ?thesis by (simp add: dispatch_def keeps_user_stores)
qed


section \<open>Properties of single system calls\<close>

text \<open>
  No kernel address leaves the kernel: whatever the system call and its arguments, the value
  handed back to user mode is never an address inside the kernel image.
\<close>
theorem dispatch_no_kernel_address:
  assumes "kernel_end pf \<le> NATIVE_TASK_BASE" and "dispatch pf cycles n a0 a1 a2 a3 k = Returned r k'"
  shows "\<not> (text_start (linker pf) \<le> r \<and> r < kernel_end pf)"
proof -
  have big: "\<not> x < kernel_end pf" if "NATIVE_TASK_BASE \<le> x" for x using assms(1) that by simp
  have "\<not> E_INTERNAL < kernel_end pf" "\<not> E_INVALID_SYSCALL < kernel_end pf"
    by (rule big; simp add: E_INTERNAL_def E_INVALID_SYSCALL_def)+
  then show ?thesis using assms(2)
    by (auto simp: dispatch_def obind_eq_Returned_iff Let_def split: if_splits)
qed

lemma saturating_three: "3 \<le> saturating_add x 1 \<longleftrightarrow> 2 \<le> x" for x :: u8
  by (auto simp: word_le_nat_alt unat_saturating_add)

text \<open>The kernel with task \<open>i\<close> isolated and its capabilities revoked.\<close>

definition isolated :: "nat \<Rightarrow> kernel \<Rightarrow> kernel" where
  "isolated i k = k\<lparr>TASKS := (TASKS k)[i := (TASKS k ! i)\<lparr>t_state := Isolated\<rparr>],
     BROKER := invalidate_task_capabilities (t_id (TASKS k ! i)) (BROKER k)\<rparr>"

lemma isolate_task_eq:
  assumes "shape k" "i < TASK_COUNT k"
  shows "isolate_task i k \<in> (if isolated_count (isolated i k) < 2 then {Returned () (isolated i k)}
    else {Halted Policy_Shutdown s |s. TASKS s = TASKS (isolated i k)})"
proof -
  have len: "i < 8" "length (TASKS k) = 8" using assms by (auto simp: shape_def)
  have sh: "shape (isolated i k)" using assms(1) by (simp add: shape_def isolated_def)
  have iso: "(k\<lparr>TASKS := (TASKS k)[i := (TASKS k ! i)\<lparr>t_state := Isolated\<rparr>],
     BROKER := invalidate_task_capabilities (t_id ((TASKS k)[i := (TASKS k ! i)\<lparr>t_state := Isolated\<rparr>] ! i)) (BROKER k)\<rparr>) = isolated i k"
    using len by (simp add: isolated_def)
  have cnt: "length (filter (\<lambda>t. t_state t = Isolated) (take (TASK_COUNT (isolated i k)) (TASKS (isolated i k)))) = isolated_count (isolated i k)"
    by (simp add: isolated_count_def)
  obtain m s where p: "call_policy SYSTEM_TASK_ID MultiModuleCrash 0 (log_event PolicyShutdown SYSTEM_TASK_ID [] (isolated i k)) = (m, s)"
    by (metis surj_pair)
  have m: "m = Shutdown" using policy_mode [OF p] by (simp add: decide_action_def)
  have ts: "TASKS s = TASKS (isolated i k)"
    using p by (auto simp: call_policy_def log_event_def split: prod.splits)
  have run: "isolate_task i k = (if 2 \<le> isolated_count (isolated i k) then Halted Policy_Shutdown s else Returned () (isolated i k))"
    unfolding isolate_task_def using assms(2) len p m iso
    by (simp add: map_task_def get_tasks_state [OF sh] cnt apply_kernel_action_def shutdown_system_def)
  then show ?thesis using ts by auto
qed

lemma isolate_action:
  assumes "shape k" "i < TASK_COUNT k" "apply_action pf i Isolate k = Returned () k'"
  shows "t_state (TASKS k' ! i) = Isolated \<and> CAP_FAIL_COUNT k' = CAP_FAIL_COUNT k"
proof -
  let ?l = "log_event PolicyIsolate (t_id (TASKS k ! i)) [] k"
  have l: "shape ?l" "i < TASK_COUNT ?l" "TASKS ?l = TASKS k" "CAP_FAIL_COUNT ?l = CAP_FAIL_COUNT k"
    using assms by (auto simp: log_event_def shape_def)
  have i8: "i < 8" "length (TASKS k) = 8" using assms by (auto simp: shape_def)
  then have "isolate_task i ?l = Returned () k'" using assms(3) by (simp add: apply_action_def Let_def)
  then have "k' = isolated i ?l" using isolate_task_eq [OF l(1,2)] by (auto split: if_splits)
  then show ?thesis using l(3,4) i8 by (simp add: isolated_def)
qed

text \<open>
  C31. Denied capability requests escalate: a denied request is answered with the no-capability
  code; the first two in a row only advance the caller's failure counter, and the third isolates
  the caller, whose counter restarts at zero. Nothing else happens to the caller before that.
\<close>
theorem cap_denials_isolate:
  assumes inv: "kernel_inv k" and c: "c = CURRENT_TASK k" "c < TASK_COUNT k"
    and run: "sys_cap_invoke pf cap resource action arg k = Returned E_NO_CAPABILITY k'"
  shows "if CAP_FAIL_COUNT k ! c < 2
    then k' = k\<lparr>CAP_FAIL_COUNT := (CAP_FAIL_COUNT k)[c := CAP_FAIL_COUNT k ! c + 1]\<rparr>
    else t_state (TASKS k' ! c) = Isolated \<and> CAP_FAIL_COUNT k' ! c = 0"
proof -
  have sh: "shape k" using inv by (simp add: kernel_inv_def)
  have u: "unat (current_task_id k) = c" "c < 8" using current_unat [OF sh] sh c by (simp_all add: shape_def)
  have ne: "E_INVALID_ARG \<noteq> E_NO_CAPABILITY" "E_OK \<noteq> E_NO_CAPABILITY"
    by (simp_all add: E_INVALID_ARG_def E_NO_CAPABILITY_def E_OK_def)
  let ?x = "CAP_FAIL_COUNT k ! c"
  have run': "count_cap_result pf (current_task_id k) False k = Returned E_NO_CAPABILITY k'"
    using run ne u by (auto simp: sys_cap_invoke_def count_cap_result_eq Let_def split: if_splits)
  show ?thesis
  proof (cases "?x < 2")
    case True
    then have "\<not> 3 \<le> saturating_add ?x 1" by (simp add: saturating_three not_le)
    moreover have "saturating_add ?x 1 = ?x + 1"
      using True by (simp add: saturating_add_def word_less_nat_alt)
    ultimately show ?thesis using run' u True by (simp add: count_cap_result_eq)
  next
    case False
    let ?l = "log_event CapViolationEv (current_task_id k) [] (k\<lparr>CAP_FAIL_COUNT := (CAP_FAIL_COUNT k)[c := 0]\<rparr>)"
    obtain m s where p: "call_policy (current_task_id k) CapViolation (t_dal (TASKS k ! c)) ?l = (m, s)" by (metis surj_pair)
    have "m = Isolate" using policy_mode [OF p] by (simp add: decide_action_def)
    moreover have s: "shape s" "TASK_COUNT s = TASK_COUNT k" "CAP_FAIL_COUNT s = (CAP_FAIL_COUNT k)[c := 0]"
      using quiet_shape [OF quiet_policy [OF p]] sh quiet_policy [OF p] by (auto simp: quiet_def shape_def log_event_def)
    moreover have "obind (cap_violation pf (current_task_id k) k) (\<lambda>_. Returned E_NO_CAPABILITY) = Returned E_NO_CAPABILITY k'"
      using run' False u saturating_three [of ?x] by (simp add: count_cap_result_eq not_less)
    ultimately have "apply_action pf c Isolate s = Returned () k'"
      using p u(1) by (auto simp: cap_violation_def obind_eq_Returned_iff)
    from isolate_action [OF s(1) _ this] s c(2) have "t_state (TASKS k' ! c) = Isolated" "CAP_FAIL_COUNT k' = (CAP_FAIL_COUNT k)[c := 0]"
      by auto
    then show ?thesis using False u(2) inv by (simp add: kernel_inv_def)
  qed
qed

text \<open>
  The local capability path looks at the low byte of the resource number only: a request for any
  16-bit resource number is decided like one for its low byte, so 0x100 is granted wherever
  resource 0 is.
\<close>
theorem local_cap_resource_truncated:
  assumes "resource \<le> 0xFFFF"
  shows "sys_cap_invoke pf 0x80 resource action arg k = sys_cap_invoke pf 0x80 (resource AND 0xFF) action arg k"
proof -
  have "(ucast (resource AND 0xFF) :: u8) = ucast resource"
  proof -
    have m: "(0xFF :: usize) = mask 8" by (simp add: mask_eq_exp_minus_1)
    show ?thesis unfolding m by (rule bit_word_eqI) (auto simp: bit_simps)
  qed
  moreover have "resource AND 0xFF \<le> 0xFFFF" by (rule order_trans [OF word_and_le1]) simp
  ultimately show ?thesis using assms by (simp add: sys_cap_invoke_def Let_def linorder_not_less [symmetric])
qed

end
