(* ===== verification/Trap.thy ===== *)
theory Trap
  imports Syscall_Inv
begin

text \<open>
  Entry into the kernel: the timer driver (\<open>src/arch/clint.rs\<close>), the trap handler with every cause
  (\<open>src/arch/trap.rs\<close>) and the trap entry and exit code (\<open>src/arch/trap.S\<close>) as far as it
  concerns the program counter and the result; and that every entry keeps the kernel's contract.
\<close>

section \<open>Timer\<close>

text \<open>
  \<open>mtime\<close> is read from the device, so each reading is an argument. The kernel is built with overflow
  checks: an addition that overflows panics.
\<close>

definition ticks_per_period :: u64 where
  "ticks_per_period = 10000000 * 10000 div 1000000"

definition add_checked :: "u64 \<Rightarrow> u64 \<Rightarrow> u64 kernel_op" where
  "add_checked a b k = (case checked_add a b of Some c \<Rightarrow> Returned c k | None \<Rightarrow> Halted Panic k)"

definition init_timer :: "u64 \<Rightarrow> unit kernel_op" where
  "init_timer now k = obind (add_checked now ticks_per_period k) (\<lambda>t k. Returned () (k\<lparr>mtimecmp := t\<rparr>))"

definition schedule_next_tick :: "u64 \<Rightarrow> bool kernel_op" where
  "schedule_next_tick now k =
     obind (add_checked (mtimecmp k) ticks_per_period k) (\<lambda>target k.
       if target < now
       then obind (add_checked now ticks_per_period k) (\<lambda>t k. Returned True (k\<lparr>mtimecmp := t\<rparr>))
       else Returned False (k\<lparr>mtimecmp := target\<rparr>))"

section \<open>The trap handler\<close>

abbreviation (input) INTERRUPT_BIT :: usize where "INTERRUPT_BIT \<equiv> 0x8000000000000000"
abbreviation (input) ECALL_U :: usize where "ECALL_U \<equiv> 8"
abbreviation (input) ECALL_M :: usize where "ECALL_M \<equiv> 11"

text \<open>What the hardware presents at a trap: cause, fault address, time, cycle counter readings, and the argument registers.\<close>

record trap_input =
  mcause :: usize
  mtval :: usize
  mtime :: u64
  cycles :: "u64 \<times> u64"
  reg_a7 :: usize
  reg_a0 :: usize
  reg_a1 :: usize
  reg_a2 :: usize
  reg_a3 :: usize

definition verify_mpp_is_user_mode :: "unit kernel_op" where
  "verify_mpp_is_user_mode k =
     (if drop_bit 11 (ctx_mstatus (live k)) AND 3 \<noteq> 0
      then halt_system ''[TRAP] PRIVILEGE ESCALATION DETECTED'' (log_event PolicyShutdown SYSTEM_TASK_ID [] k)
      else Returned () k)"

text \<open>The policy call for the current task, with its answer applied.\<close>

definition punish_current :: "platform \<Rightarrow> PolicyEvent \<Rightarrow> BlackboxEvent option \<Rightarrow> unit kernel_op" where
  "punish_current pf ev lg k =
     (let task_id = current_task_id k
      in obind (get_task (unat task_id) k) (\<lambda>t k.
         let k = (case lg of None \<Rightarrow> k | Some e \<Rightarrow> log_event e task_id [] k);
             (action, k) = call_policy task_id ev (t_dal t) k
         in apply_action pf (unat task_id) action k))"

definition timer_interrupt :: "platform \<Rightarrow> u64 \<Rightarrow> unit kernel_op" where
  "timer_interrupt pf now k =
     obind (add_checked (TICK_COUNT k) 1 k) (\<lambda>ticks k.
     obind (schedule_next_tick now (k\<lparr>TICK_COUNT := ticks\<rparr>)) (\<lambda>overrun k.
     obind (if overrun \<and> 10 < ticks then punish_current pf DeadlineMiss (Some DeadlineMissEv) k else Returned () k)
       (\<lambda>_. schedule_timer_tick pf)))"

definition task_fault :: "platform \<Rightarrow> usize kernel_op" where
  "task_fault pf k =
     obind (handle_task_fault pf (log_event PolicyIsolate SYSTEM_TASK_ID [] k)) (\<lambda>_. Returned 0)"

definition access_fault :: "platform \<Rightarrow> usize \<Rightarrow> usize kernel_op" where
  "access_fault pf fault_addr k =
     (let k = log_event PmpFail (current_task_id k) [] k;
          (stack_start, stack_end) = task_stacks_range (linker pf)
      in obind (if stack_start \<le> fault_addr \<and> fault_addr < stack_end
                then punish_current pf StackOverflow None k
                else handle_task_fault pf k)
         (\<lambda>_. Returned 0))"

definition trap_handler :: "platform \<Rightarrow> trap_input \<Rightarrow> usize kernel_op" where
  "trap_handler pf inp k =
     (let cause = mcause inp
      in if cause AND INTERRUPT_BIT \<noteq> 0
         then if cause AND NOT INTERRUPT_BIT = 7
              then obind (timer_interrupt pf (mtime inp) k) (\<lambda>_. Returned 0)
              else Returned 0 k
         else if cause = ECALL_U \<or> cause = ECALL_M
         then obind (if cause = ECALL_U then verify_mpp_is_user_mode k else Returned () k)
                (\<lambda>_. dispatch pf (cycles inp) (reg_a7 inp) (reg_a0 inp) (reg_a1 inp) (reg_a2 inp) (reg_a3 inp))
         else if cause = 2 then task_fault pf k
         else if cause = 5 \<or> cause = 7 then access_fault pf (mtval inp) k
         else if cause = 0 \<or> cause = 3 \<or> cause = 4 \<or> cause = 6 then task_fault pf k
         else if cause = 1
         then halt_system ''[TRAP] FATAL: instruction access fault'' (log_event PmpFail SYSTEM_TASK_ID [] k)
         else if cause = 9 \<or> cause = 10 then halt_system ''[TRAP] FATAL: S/H-mode ecall (impossible)'' k
         else if 12 \<le> cause \<and> cause \<le> 15 then halt_system ''[TRAP] FATAL: page fault (no paging)'' k
         else halt_system ''[TRAP] FATAL: unknown exception'' (log_event PolicyShutdown SYSTEM_TASK_ID [] k))"

section \<open>Trap entry and exit (trap.S)\<close>

text \<open>
  The entry code puts the program counter into the frame, behind the instruction for an \<open>ecall\<close>;
  the exit code restores it from the frame and, for an \<open>ecall\<close>, writes the result into the \<open>a0\<close> slot.
\<close>

definition trap_entry :: "platform \<Rightarrow> trap_input \<Rightarrow> usize option kernel_op" where
  "trap_entry pf inp k =
     (let ecall = (mcause inp = ECALL_U \<or> mcause inp = ECALL_M);
          pc = ctx_mepc (live k);
          k = k\<lparr>frame_mepc := (if ecall then pc + 4 else pc)\<rparr>
      in obind (trap_handler pf inp k) (\<lambda>result k.
         Returned (if ecall then Some result else None) (k\<lparr>live := (live k)\<lparr>ctx_mepc := frame_mepc k\<rparr>\<rparr>)))"


section \<open>Every entry keeps the contract\<close>

fun trap_run :: "kernel \<Rightarrow> (kernel, 'a) outcome \<Rightarrow> bool" where
  "trap_run k (Halted r s) = (user_stores k s \<and> (r = Policy_Shutdown \<and> 2 \<le> isolated_count s \<or> (\<exists>msg. r = Fatal msg)))"
| "trap_run k (Entered s) = user_stores k s"
| "trap_run k (Returned x s) = user_stores k s"

lemma stores_trap_run: "stores_run k m \<Longrightarrow> trap_run k m"
  by (cases m) auto

lemma quiet_trap_run: "quiet_run k m \<Longrightarrow> trap_run k m"
  by (intro stores_trap_run keeps_stores_run quiet_keeps_run)

lemma trap_run_quiet: "quiet k s \<Longrightarrow> trap_run s m \<Longrightarrow> trap_run k m"
  by (cases m) (auto intro: stores_quiet)

lemma trap_run_obind:
  assumes "trap_run k m" and "\<And>x s. m = Returned x s \<Longrightarrow> user_stores k s \<Longrightarrow> trap_run k (f x s)"
  shows "trap_run k (obind m f)"
  using assms by (cases m) auto

lemma trap_run_quiet_obind:
  assumes "quiet_run k m" and "\<And>x s. m = Returned x s \<Longrightarrow> quiet k s \<Longrightarrow> trap_run s (f x s)"
  shows "trap_run k (obind m f)"
  using assms by (cases m) (auto intro: trap_run_quiet keeps_user_stores quiet_keeps)

lemma quiet_timer_fields:
  "quiet k (k\<lparr>TICK_COUNT := t\<rparr>)" "quiet k (k\<lparr>mtimecmp := c\<rparr>)" "quiet k (k\<lparr>TICK_COUNT := t, mtimecmp := c\<rparr>)"
  by (simp_all add: quiet_def list.rel_refl)

text \<open>The 64-bit counters have room for one more period.\<close>

definition timers_ok :: "trap_input \<Rightarrow> kernel \<Rightarrow> bool" where
  "timers_ok inp k \<longleftrightarrow> unat (TICK_COUNT k) + 1 < 2 ^ 64 \<and> unat (mtimecmp k) + 100000 < 2 ^ 64
     \<and> unat (mtime inp) + 100000 < 2 ^ 64"

lemma add_checked_eq: "unat a + unat b < 2 ^ 64 \<Longrightarrow> add_checked a b k = Returned (a + b) k"
  by (simp add: add_checked_def checked_add_def)

lemma schedule_next_tick_eq:
  assumes "unat (mtimecmp k) + 100000 < 2 ^ 64" "unat now + 100000 < 2 ^ 64"
  shows "schedule_next_tick now k =
    (let target = mtimecmp k + ticks_per_period
     in if target < now then Returned True (k\<lparr>mtimecmp := now + ticks_per_period\<rparr>)
        else Returned False (k\<lparr>mtimecmp := target\<rparr>))"
proof -
  have t: "unat ticks_per_period = 100000" by (simp add: ticks_per_period_def)
  then show ?thesis using assms by (simp add: schedule_next_tick_def add_checked_eq Let_def)
qed

lemma quiet_punish_current:
  assumes "shape k" "ev \<noteq> PmpIntegrityFail" "ev \<noteq> MultiModuleCrash"
  shows "quiet_run k (punish_current pf ev lg k)"
proof -
  have c: "unat (current_task_id k) = CURRENT_TASK k" "CURRENT_TASK k < 8"
    using current_unat assms(1) by (simp_all add: shape_def)
  show ?thesis
    using quiet_policy_action [OF assms(1) c(2) assms(2,3)] quiet_policy_action_log [OF assms(1) c(2) assms(2,3)] c
    by (cases lg) (simp_all add: punish_current_def get_task_def Let_def)
qed

text \<open>Up to the tick of the scheduler the timer interrupt does not switch.\<close>

lemma timer_interrupt_cases:
  assumes inv: "kernel_inv k" and t: "timers_ok inp k"
  obtains m :: "(kernel, unit) outcome" where "quiet_run k m" "timer_interrupt pf (mtime inp) k = obind m (\<lambda>_. schedule_timer_tick pf)"
proof -
  have sh: "shape k" using inv by (simp add: kernel_inv_def)
  let ?k = "k\<lparr>TICK_COUNT := TICK_COUNT k + 1\<rparr>"
  obtain over c where next_tick: "schedule_next_tick (mtime inp) ?k = Returned over (?k\<lparr>mtimecmp := c\<rparr>)"
  proof -
    have "schedule_next_tick (mtime inp) ?k = (if mtimecmp k + ticks_per_period < mtime inp
        then Returned True (?k\<lparr>mtimecmp := mtime inp + ticks_per_period\<rparr>)
        else Returned False (?k\<lparr>mtimecmp := mtimecmp k + ticks_per_period\<rparr>))"
      using t by (simp add: timers_ok_def schedule_next_tick_eq Let_def)
    then show thesis using that by (cases "mtimecmp k + ticks_per_period < mtime inp") auto
  qed
  let ?s = "?k\<lparr>mtimecmp := c\<rparr>"
  have q: "quiet k ?s" by (rule quiet_timer_fields)
  then have s: "shape ?s" using quiet_shape sh by blast
  let ?m = "if over \<and> 10 < TICK_COUNT k + 1 then punish_current pf DeadlineMiss (Some DeadlineMissEv) ?s else Returned () ?s"
  have "timer_interrupt pf (mtime inp) k = obind ?m (\<lambda>_. schedule_timer_tick pf)"
    using t next_tick by (simp add: timer_interrupt_def add_checked_eq timers_ok_def)
  moreover have "quiet_run k ?m"
    using quiet_run_trans [OF q quiet_punish_current [OF s, of DeadlineMiss pf]] q by simp
  ultimately show ?thesis using that by blast
qed

lemma trap_timer:
  assumes inv: "kernel_inv k" and t: "timers_ok inp k"
  shows "trap_run k (timer_interrupt pf (mtime inp) k)"
proof (rule timer_interrupt_cases [OF inv t, of pf], goal_cases)
  case (1 m)
  show ?case unfolding 1(2)
  proof (rule trap_run_quiet_obind [OF 1(1)], goal_cases)
    case (1 _ s)
    then have "kernel_inv s" using quiet_kernel_inv inv by blast
    then show ?case by (intro stores_trap_run keeps_stores_run keeps_timer_tick)
  qed
qed

lemma quiet_task_fault:
  assumes "shape k"
  shows "quiet_run k (task_fault pf k)"
proof -
  let ?l = "log_event PolicyIsolate SYSTEM_TASK_ID [] k"
  have "quiet_run ?l (handle_task_fault pf ?l)" using assms by (intro quiet_handle_task_fault) simp
  then show ?thesis unfolding task_fault_def by (rule quiet_run_obind [OF quiet_run_log]) simp
qed

lemma quiet_access_fault:
  assumes "shape k"
  shows "quiet_run k (access_fault pf a k)"
proof -
  let ?l = "log_event PmpFail (current_task_id k) [] k"
  have s: "shape ?l" using assms by simp
  have "quiet_run ?l (if task_stacks_start (linker pf) \<le> a \<and> a < task_stacks_end (linker pf)
      then punish_current pf StackOverflow None ?l else handle_task_fault pf ?l)"
    using quiet_handle_task_fault [OF s] quiet_punish_current [OF s] by simp
  then show ?thesis unfolding access_fault_def Let_def task_stacks_range_def prod.case
    by (rule quiet_run_obind [OF quiet_run_log]) simp
qed

lemma trap_log_halt: "trap_run k (halt_system msg (log_event ev t d k))" "trap_run k (halt_system msg k)"
  by (simp_all add: halt_system_def keeps_user_stores quiet_keeps quiet_log)

lemma trap_trap_handler:
  assumes ok: "sys_ok pf uart k" and t: "timers_ok inp k"
  shows "trap_run k (trap_handler pf inp k)"
proof -
  have inv: "kernel_inv k" and sh: "shape k" using ok by (auto simp: sys_ok_def kernel_inv_def)
  have mpp: "trap_run k (obind (if c then verify_mpp_is_user_mode k else Returned () k)
      (\<lambda>_. dispatch pf (cycles inp) (reg_a7 inp) (reg_a0 inp) (reg_a1 inp) (reg_a2 inp) (reg_a3 inp)))" for c
    using trap_log_halt(1) stores_trap_run [OF stores_dispatch [OF ok]]
    by (auto simp: verify_mpp_is_user_mode_def halt_system_def)
  have tm: "trap_run k (obind (timer_interrupt pf (mtime inp) k) (\<lambda>_. Returned (0 :: usize)))"
    by (rule trap_run_obind [OF trap_timer [OF inv t]]) simp
  have nop: "trap_run k (Returned (0 :: usize) k)" by (simp add: keeps_user_stores)
  show ?thesis unfolding trap_handler_def Let_def
    by (simp add: mpp tm nop trap_log_halt quiet_trap_run [OF quiet_task_fault [OF sh]]
      quiet_trap_run [OF quiet_access_fault [OF sh]] del: trap_run.simps)
qed

text \<open>The program counter slots are no part of the invariant.\<close>

lemma keeps_pc: "keeps k (k\<lparr>frame_mepc := x\<rparr>)" "keeps k (k\<lparr>live := c\<rparr>)"
  by (rule keeps_fields; simp)+

lemma user_stores_live: "user_stores k s \<Longrightarrow> user_stores k (s\<lparr>live := c\<rparr>)"
proof -
  assume s: "user_stores k s"
  then have "keeps k ((s\<lparr>MEM := MEM k\<rparr>)\<lparr>live := c\<rparr>)"
    unfolding user_stores_def by (blast intro: keeps_trans [OF _ keeps_pc(2)])
  moreover have "(s\<lparr>MEM := MEM k\<rparr>)\<lparr>live := c\<rparr> = (s\<lparr>live := c\<rparr>)\<lparr>MEM := MEM k\<rparr>" by simp
  ultimately have "keeps k ((s\<lparr>live := c\<rparr>)\<lparr>MEM := MEM k\<rparr>)" by metis
  with s show ?thesis unfolding user_stores_def by simp
qed

lemma user_stores_frame: "user_stores (k\<lparr>frame_mepc := x\<rparr>) s \<Longrightarrow> user_stores k s"
  unfolding user_stores_def using keeps_trans [OF keeps_pc(1)] by fastforce

lemma trap_trap_entry:
  assumes ok: "sys_ok pf uart k" and t: "timers_ok inp k"
  shows "trap_run k (trap_entry pf inp k)"
proof -
  let ?ecall = "mcause inp = ECALL_U \<or> mcause inp = ECALL_M"
  let ?k = "k\<lparr>frame_mepc := (if ?ecall then ctx_mepc (live k) + 4 else ctx_mepc (live k))\<rparr>"
  let ?exit = "\<lambda>result k. Returned (if ?ecall then Some result else None) (k\<lparr>live := (live k)\<lparr>ctx_mepc := frame_mepc k\<rparr>\<rparr>)"
  have pre: "user_stores k s" if "user_stores ?k s" for s using user_stores_frame [OF that] .
  have post: "user_stores ?k (s\<lparr>live := c\<rparr>)" if "user_stores ?k s" for s c using user_stores_live [OF that] .
  have "sys_ok pf uart ?k" using keeps_sys_ok [OF keeps_pc(1) ok] .
  moreover have "timers_ok inp ?k" using t by (simp add: timers_ok_def)
  ultimately have "trap_run ?k (trap_handler pf inp ?k)" by (rule trap_trap_handler)
  then have run: "trap_run ?k (obind (trap_handler pf inp ?k) ?exit)"
    by (rule trap_run_obind) (simp add: post)
  have "trap_entry pf inp k = obind (trap_handler pf inp ?k) ?exit" by (simp add: trap_entry_def Let_def)
  then show ?thesis using run pre by (cases "obind (trap_handler pf inp ?k) ?exit") auto
qed


section \<open>What a switch saves\<close>

text \<open>The current task has stayed, or its saved context holds the interrupted registers.\<close>

definition saves :: "platform \<Rightarrow> kernel \<Rightarrow> kernel \<Rightarrow> bool" where
  "saves pf k s \<longleftrightarrow> CURRENT_TASK s \<noteq> CURRENT_TASK k \<longrightarrow>
     t_context (TASKS s ! CURRENT_TASK k) = (live k)\<lparr>ctx_ra := resume_address pf\<rparr>"

lemma saves_same: "CURRENT_TASK s = CURRENT_TASK k \<Longrightarrow> saves pf k s"
  by (simp add: saves_def)

lemma saves_quiet: "quiet k s \<Longrightarrow> saves pf s t \<Longrightarrow> saves pf k t"
  by (simp add: saves_def quiet_def)

lemma saves_quiet_run: "quiet_run k m \<Longrightarrow> saves pf k (final_state m)"
  by (cases m) (auto intro: saves_same simp: quiet_def)

lemma saves_quiet_obind:
  assumes "quiet_run k m" and "\<And>x s. m = Returned x s \<Longrightarrow> quiet k s \<Longrightarrow> saves pf s (final_state (f x s))"
  shows "saves pf k (final_state (obind m f))"
  using assms by (cases m) (auto intro: saves_quiet saves_same simp: quiet_def)

lemma saves_switch:
  assumes inv: "kernel_inv k"
  shows "saves pf k (final_state (do_priority_select_and_switch pf (CURRENT_TASK k) k))"
proof (rule switch_cases [OF inv, of pf], goal_cases)
  case 1
  then show ?case by (simp add: saves_same)
next
  case (2 b)
  have sh: "shape k" using inv by (simp add: kernel_inv_def)
  then have b8: "b < 8" "CURRENT_TASK k < 8" "length (TASKS k) = 8"
    using best_upto_select(1) [OF sh 2(1)] by (auto simp: shape_def)
  have "saves pf k (switched pf b k)"
    using b8 by (auto simp: saves_def switched_def Let_def)
  then show ?case using 2(2) by auto
qed

lemma saves_yield: "kernel_inv k \<Longrightarrow> saves pf k (final_state (schedule_yield pf k))"
  using saves_switch by (simp add: schedule_yield_def saves_same)

lemma saves_tick:
  assumes inv: "kernel_inv k"
  shows "saves pf k (final_state (schedule_timer_tick pf k))"
proof -
  have "saves pf k (final_state (obind (tick_phases pf k) (\<lambda>_. do_priority_select_and_switch pf (CURRENT_TASK k))))"
  proof (rule saves_quiet_obind [OF quiet_tick_phases [OF inv]], goal_cases)
    case (1 x s)
    then have "kernel_inv s" "CURRENT_TASK s = CURRENT_TASK k" using quiet_kernel_inv inv by (auto simp: quiet_def)
    then show ?case using saves_switch [of s pf] by simp
  qed
  then show ?thesis by (simp add: schedule_timer_tick_phases saves_same)
qed

lemma saves_then:
  assumes "saves pf k (final_state m)" "\<And>x s. m = Returned x s \<Longrightarrow>
    CURRENT_TASK (final_state (f x s)) = CURRENT_TASK s \<and> TASKS (final_state (f x s)) = TASKS s"
  shows "saves pf k (final_state (obind m f))"
  using assms by (cases m) (auto simp: saves_def)

lemma current_then:
  assumes "CURRENT_TASK (final_state m) = c" "\<And>x s. m = Returned x s \<Longrightarrow> CURRENT_TASK (final_state (f x s)) = CURRENT_TASK s"
  shows "CURRENT_TASK (final_state (obind m f)) = c"
  using assms by (cases m) auto

lemma saves_sys_cap_invoke:
  assumes inv: "kernel_inv k"
  shows "saves pf k (final_state (sys_cap_invoke pf a0 a1 a2 a3 k))"
proof -
  have sh: "shape k" using inv by (simp add: kernel_inv_def)
  then have c: "unat (current_task_id k) < 8" using current_unat [OF sh] by (simp add: shape_def)
  have "CURRENT_TASK (final_state (cap_violation pf (current_task_id k) k)) = CURRENT_TASK k"
    using quiet_cap_violation [OF sh c, of pf] by (cases "cap_violation pf (current_task_id k) k") (auto simp: quiet_def)
  then have "CURRENT_TASK (final_state (count_cap_result pf (current_task_id k) b k)) = CURRENT_TASK k" for b
    unfolding count_cap_result_eq [OF c] by (simp add: current_then)
  then show ?thesis by (intro saves_same) (simp add: sys_cap_invoke_def Let_def)
qed

lemma saves_handler:
  assumes inv: "kernel_inv k" and n: "n < 6"
  shows "saves pf k (final_state ((SYSCALL_TABLE pf ! n) a0 a1 a2 a3 k))"
proof -
  have sh: "shape k" using inv by (simp add: kernel_inv_def)
  have c: "unat (current_task_id k) < 8" using current_unat [OF sh] sh by (simp add: shape_def)
  have yield: "saves pf s (final_state (obind (schedule_yield pf s) (\<lambda>_. Returned E_OK)))" if "quiet k s" for s
    using that inv quiet_kernel_inv by (intro saves_then [OF saves_yield]) auto
  have "saves pf k (final_state (sys_yield pf k))"
    unfolding sys_yield_def by (rule saves_quiet_obind [OF quiet_watchdog_kick [OF sh]]) (rule yield)
  moreover have "saves pf k (final_state (sys_exit pf k))"
    unfolding sys_exit_def Let_def by (rule saves_quiet_obind [OF quiet_isolate_task [OF sh c]]) (rule yield)
  moreover have "saves pf k (final_state (sys_task_info a0 k))"
    by (intro saves_same) (simp add: sys_task_info_def query_task_info_def get_task_def)
  moreover have "saves pf k (final_state (sys_ipc_recv a0 a1 k))"
    by (rule sys_ipc_recv_cases [OF inv, of a0 a1]) (simp_all add: saves_same set_channel_def)
  moreover have "saves pf k (final_state (sys_ipc_send a0 a1 k))"
    by (rule sys_ipc_send_cases [OF inv, of a0 a1]) (simp_all add: saves_same)
  moreover note saves_sys_cap_invoke [OF inv, of pf a0 a1 a2 a3]
  moreover have "n \<in> {0, 1, 2, 3, 4, 5}" using n by auto
  ultimately show ?thesis by (auto simp: SYSCALL_TABLE_def)
qed


lemma saves_dispatch:
  assumes inv: "kernel_inv k"
  shows "saves pf k (final_state (dispatch pf cyc n a0 a1 a2 a3 k))"
proof (cases "unat n < 6")
  case True
  have "shape k" using inv by (simp add: kernel_inv_def)
  then obtain s where s: "increment_syscall_count k = Returned () s" "quiet k s" using increment_syscall_eq by blast
  have "saves pf s (final_state (obind ((SYSCALL_TABLE pf ! unat n) a0 a1 a2 a3 s) (\<lambda>result k.
         let k = wcet_update (unat n) (snd cyc - fst cyc) k
         in if text_start (linker pf) \<le> result \<and> result < kernel_end pf
            then Returned E_INTERNAL k else Returned result k)))"
    using quiet_kernel_inv [OF inv s(2)] True
    by (intro saves_then [OF saves_handler]) (simp_all add: wcet_update_def Let_def)
  then show ?thesis using saves_quiet [OF s(2)] s(1) True by (simp add: dispatch_def)
next
  case False
  then show ?thesis by (simp add: dispatch_def saves_same)
qed

lemma saves_timer:
  assumes inv: "kernel_inv k" and t: "timers_ok inp k"
  shows "saves pf k (final_state (timer_interrupt pf (mtime inp) k))"
proof (rule timer_interrupt_cases [OF inv t, of pf], goal_cases)
  case (1 m)
  show ?case unfolding 1(2)
  proof (rule saves_quiet_obind [OF 1(1)], goal_cases)
    case (1 x s)
    then have "kernel_inv s" using quiet_kernel_inv inv by blast
    then show ?case by (rule saves_tick)
  qed
qed

lemma saves_trap_handler:
  assumes inv: "kernel_inv k" and t: "timers_ok inp k"
  shows "saves pf k (final_state (trap_handler pf inp k))"
proof -
  have sh: "shape k" using inv by (simp add: kernel_inv_def)
  have halt: "saves pf k (final_state (halt_system msg k :: (kernel, usize) outcome))"
    "saves pf k (final_state (halt_system msg (log_event ev tk d k) :: (kernel, usize) outcome))" for msg ev tk d
    by (simp_all add: halt_system_def saves_same log_event_def)
  have mpp: "saves pf k (final_state (obind (if c then verify_mpp_is_user_mode k else Returned () k)
      (\<lambda>_. dispatch pf (cycles inp) (reg_a7 inp) (reg_a0 inp) (reg_a1 inp) (reg_a2 inp) (reg_a3 inp))))" for c
    using saves_dispatch [OF inv] by (simp add: verify_mpp_is_user_mode_def halt_system_def saves_same log_event_def)
  have tm: "saves pf k (final_state (obind (timer_interrupt pf (mtime inp) k) (\<lambda>_. Returned (0 :: usize))))"
    by (rule saves_then [OF saves_timer [OF inv t]]) simp
  have "saves pf k (final_state (task_fault pf k))" "saves pf k (final_state (access_fault pf (mtval inp) k))"
    using saves_quiet_run [OF quiet_task_fault [OF sh]] saves_quiet_run [OF quiet_access_fault [OF sh]] by auto
  then show ?thesis unfolding trap_handler_def Let_def
    using mpp [of True] mpp [of False] tm halt by (simp add: saves_same)
qed


text \<open>
  Unexpected exceptions stop the machine: an exception that is neither an environment call nor
  one of the task faults (illegal instruction, breakpoint, misaligned or forbidden load or store,
  misaligned fetch) halts the kernel for good, without touching a task.
\<close>
theorem trap_fail_closed:
  assumes "mcause inp AND INTERRUPT_BIT = 0" "mcause inp \<notin> {0, 2, 3, 4, 5, 6, 7, 8, 11}"
  shows "\<exists>msg s. trap_entry pf inp k = Halted (Fatal msg) s \<and> TASKS s = TASKS k \<and> MEM s = MEM k"
  using assms by (auto simp: trap_entry_def trap_handler_def Let_def halt_system_def log_event_def)

end
