(* ===== verification/Hal.thy ===== *)
theory Hal
  imports Config
begin

text \<open>
  Hardware abstraction, \<open>src/hal\<close>: the IOPMP controller with its access check, the UART device with
  its status checks, the root key and the secure boot check. The Ed25519 crate is a parameter.
\<close>

section \<open>IOPMP (hal/iopmp.rs)\<close>

record IopmpRegion =
  io_base :: usize
  io_size :: usize
  io_read :: bool
  io_write :: bool

definition IopmpRegion_new :: "usize \<Rightarrow> usize \<Rightarrow> bool \<Rightarrow> bool \<Rightarrow> IopmpRegion" where
  "IopmpRegion_new base sz r w = \<lparr>io_base = base, io_size = sz, io_read = r, io_write = w\<rparr>"

abbreviation (input) IOPMP_MAX_REGIONS :: nat where "IOPMP_MAX_REGIONS \<equiv> 4"

record IopmpController =
  io_regions :: "IopmpRegion option list"
  io_enabled :: bool

definition iopmp_new :: IopmpController where
  "iopmp_new = \<lparr>io_regions = replicate IOPMP_MAX_REGIONS None, io_enabled = False\<rparr>"

definition iopmp_enable :: "IopmpController \<Rightarrow> (SipahiError + unit) \<times> IopmpController" where
  "iopmp_enable c = (Inr (), c\<lparr>io_enabled := True\<rparr>)"

definition add_region :: "nat \<Rightarrow> IopmpRegion \<Rightarrow> IopmpController \<Rightarrow> (SipahiError + unit) \<times> IopmpController" where
  "add_region index region c =
     (if IOPMP_MAX_REGIONS \<le> index then (Inl InvalidParameter, c)
      else (Inr (), c\<lparr>io_regions := (io_regions c)[index := Some region]\<rparr>))"

definition remove_region :: "nat \<Rightarrow> IopmpController \<Rightarrow> (SipahiError + unit) \<times> IopmpController" where
  "remove_region index c =
     (if IOPMP_MAX_REGIONS \<le> index then (Inl InvalidParameter, c)
      else (Inr (), c\<lparr>io_regions := (io_regions c)[index := None]\<rparr>))"

fun access_loop :: "IopmpRegion option list \<Rightarrow> usize \<Rightarrow> usize \<Rightarrow> bool \<Rightarrow> bool" where
  "access_loop [] addr sz wr = False"
| "access_loop (None # rs) addr sz wr = access_loop rs addr sz wr"
| "access_loop (Some region # rs) addr sz wr =
     (case checked_add (io_base region) (io_size region) of
        None \<Rightarrow> access_loop rs addr sz wr
      | Some region_end \<Rightarrow>
          (case checked_add addr sz of
             None \<Rightarrow> False
           | Some access_end \<Rightarrow>
               if io_base region \<le> addr \<and> access_end \<le> region_end
               then (if wr then io_write region else io_read region)
               else access_loop rs addr sz wr))"

definition check_access :: "IopmpController \<Rightarrow> usize \<Rightarrow> usize \<Rightarrow> bool \<Rightarrow> bool" where
  "check_access c addr sz wr =
     (if \<not> io_enabled c then True else access_loop (take IOPMP_MAX_REGIONS (io_regions c)) addr sz wr)"

definition is_enabled :: "IopmpController \<Rightarrow> bool" where
  "is_enabled c = io_enabled c"

text \<open>The accesses of a region that lies in the address space.\<close>

definition region_covers :: "usize \<Rightarrow> usize \<Rightarrow> IopmpRegion option \<Rightarrow> bool" where
  "region_covers addr sz slot = (case slot of None \<Rightarrow> False
     | Some r \<Rightarrow> unat (io_base r) + unat (io_size r) < 2 ^ 64 \<and> unat addr + unat sz < 2 ^ 64
         \<and> unat (io_base r) \<le> unat addr \<and> unat addr + unat sz \<le> unat (io_base r) + unat (io_size r))"

lemma region_covers_None [simp]: "region_covers addr sz None = False"
  by (simp add: region_covers_def)

lemma access_loop_find:
  "access_loop rs addr sz wr =
     (case find (region_covers addr sz) rs of
        Some (Some r) \<Rightarrow> (if wr then io_write r else io_read r) | _ \<Rightarrow> False)"
proof (induction rs addr sz wr rule: access_loop.induct)
  case (3 region rs addr sz wr)
  have over: "find (region_covers addr sz) xs = None" if "2 ^ 64 \<le> unat addr + unat sz" for xs
    using that by (induction xs) (auto simp: region_covers_def split: option.splits)
  show ?case
  proof (cases "checked_add (io_base region) (io_size region)")
    case None
    then have "\<not> region_covers addr sz (Some region)" by (simp add: region_covers_def checked_add_None_iff)
    then show ?thesis using 3(1) None by simp
  next
    case (Some e)
    then have e: "unat e = unat (io_base region) + unat (io_size region)" by (simp add: checked_add_Some_iff)
    show ?thesis
    proof (cases "checked_add addr sz")
      case None
      then have "2 ^ 64 \<le> unat addr + unat sz" by (simp add: checked_add_None_iff)
      from over [OF this, of "Some region # rs"] show ?thesis using Some None by simp
    next
      case (Some a)
      then have a: "unat a = unat addr + unat sz" by (simp add: checked_add_Some_iff)
      have "region_covers addr sz (Some region) \<longleftrightarrow> io_base region \<le> addr \<and> a \<le> e"
        using e a unat_less [of e] unat_less [of a] by (auto simp: region_covers_def word_le_nat_alt)
      then show ?thesis using 3 Some \<open>checked_add (io_base region) _ = Some e\<close> by simp
    qed
  qed
qed simp_all

text \<open>
  The IOPMP lets a device access through exactly if the controller is off or the first
  configured region that contains the whole access, without wrapping around the address space,
  grants it.
\<close>
theorem iopmp_check_exact:
  assumes "length (io_regions c) = IOPMP_MAX_REGIONS"
  shows "check_access c addr sz wr \<longleftrightarrow> \<not> io_enabled c \<or>
     (case find (region_covers addr sz) (io_regions c) of
        Some (Some r) \<Rightarrow> (if wr then io_write r else io_read r) | _ \<Rightarrow> False)"
  using assms by (simp add: check_access_def access_loop_find)

lemma iopmp_new_regions: "iopmp_new = \<lparr>io_regions = [None, None, None, None], io_enabled = False\<rparr>"
  by (simp add: iopmp_new_def numeral_eq_Suc)

theorem iopmp_check_exact_witness:
  "\<not> check_access (snd (add_region 0 (IopmpRegion_new 0x1000 0x100 True False) (snd (iopmp_enable iopmp_new)))) 0x1000 4 True"
  using iopmp_check_exact [of "snd (add_region 0 (IopmpRegion_new 0x1000 0x100 True False) (snd (iopmp_enable iopmp_new)))" "0x1000" 4 True]
  by (simp add: add_region_def iopmp_enable_def iopmp_new_regions IopmpRegion_new_def region_covers_def)

section \<open>UART device (hal/device.rs)\<close>

text \<open>The device registers are read at each access: the line status register is an argument.\<close>

record UartDevice =
  base_addr :: usize
  initialized :: bool

definition uart_new :: "usize \<Rightarrow> UartDevice" where
  "uart_new base = \<lparr>base_addr = base, initialized = False\<rparr>"

definition uart_init :: "UartDevice \<Rightarrow> (SipahiError + unit) \<times> UartDevice" where
  "uart_init d = (Inr (), d\<lparr>initialized := True\<rparr>)"

definition uart_read_byte :: "(usize \<Rightarrow> u8) \<Rightarrow> UartDevice \<Rightarrow> SipahiError + u8" where
  "uart_read_byte mmio d =
     (if \<not> initialized d then Inl DeviceNotReady
      else if mmio (base_addr d + 5) AND 1 = 0 then Inl DeviceNotReady
      else Inr (mmio (base_addr d)))"

text \<open>The result, and the byte stored into the transmit register if any.\<close>

definition uart_write_byte :: "(usize \<Rightarrow> u8) \<Rightarrow> u8 \<Rightarrow> UartDevice \<Rightarrow> (SipahiError + unit) \<times> (usize \<times> u8) option" where
  "uart_write_byte mmio byte d =
     (if \<not> initialized d then (Inl DeviceNotReady, None)
      else if mmio (base_addr d + 5) AND 0x20 = 0 then (Inl DeviceNotReady, None)
      else (Inr (), Some (base_addr d, byte)))"

definition uart_is_ready :: "UartDevice \<Rightarrow> bool" where
  "uart_is_ready d = initialized d"

section \<open>Root key and secure boot (hal/key.rs, hal/secure_boot.rs)\<close>

definition QEMU_TEST_PUBKEY :: "u8 list" where
  "QEMU_TEST_PUBKEY =
    [0xd7, 0x5a, 0x98, 0x01, 0x82, 0xb1, 0x0a, 0xb7, 0xd5, 0x4b, 0xfe, 0xd3, 0xc9, 0x64, 0x07, 0x3a,
     0x0e, 0xe1, 0x72, 0xf3, 0xda, 0xa6, 0x23, 0x25, 0xaf, 0x02, 0x1a, 0x68, 0xf7, 0x07, 0x51, 0x1a]"

definition QEMU_TEST_SIGNATURE :: "u8 list" where
  "QEMU_TEST_SIGNATURE =
    [0xe5, 0x56, 0x43, 0x00, 0xc3, 0x60, 0xac, 0x72, 0x90, 0x86, 0xe2, 0xcc, 0x80, 0x6e, 0x82, 0x8a,
     0x84, 0x87, 0x7f, 0x1e, 0xb8, 0xe5, 0xd9, 0x74, 0xd8, 0x73, 0xe0, 0x65, 0x22, 0x49, 0x01, 0x55,
     0x5f, 0xb8, 0x82, 0x15, 0x90, 0xa3, 0x3b, 0xac, 0xc6, 0x1e, 0x39, 0x70, 0x1c, 0xf9, 0xb4, 0x6b,
     0xd2, 0x5b, 0xf5, 0xf0, 0x59, 0x5b, 0xbe, 0x24, 0x65, 0x51, 0x41, 0x43, 0x8e, 0x7a, 0x10, 0x0b]"

definition get_root_public_key :: "u8 list" where
  "get_root_public_key = QEMU_TEST_PUBKEY"

text \<open>What the kernel calls of the Ed25519 crate.\<close>

record ed25519 =
  public_key_from_slice :: "u8 list \<Rightarrow> u8 list option"
  signature_from_slice :: "u8 list \<Rightarrow> u8 list option"
  public_key_verify :: "u8 list \<Rightarrow> u8 list \<Rightarrow> u8 list \<Rightarrow> bool"

definition ed25519_verify :: "ed25519 \<Rightarrow> u8 list \<Rightarrow> u8 list \<Rightarrow> u8 list \<Rightarrow> bool" where
  "ed25519_verify ed public_key message signature =
     (case public_key_from_slice ed public_key of
        None \<Rightarrow> False
      | Some pk \<Rightarrow>
          (case signature_from_slice ed signature of
             None \<Rightarrow> False
           | Some sig \<Rightarrow> public_key_verify ed pk message sig))"

text \<open>\<open>fast_sign\<close>: the feature of that name is on; otherwise the LMS variant is not implemented.\<close>

definition secure_boot_check :: "bool \<Rightarrow> ed25519 \<Rightarrow> u8 list \<Rightarrow> u8 list \<Rightarrow> u8 list \<Rightarrow> bool" where
  "secure_boot_check fast_sign ed message public_key signature =
     (if fast_sign then ed25519_verify ed public_key message signature else False)"

end
