(* ===== verification/Boot.thy ===== *)
theory Boot
  imports Trap Hal
begin

text \<open>
  The boot sequence, \<open>src/boot.rs\<close> and \<open>src/main.rs\<close>: power-on checks, memory protection, black
  box, capability key, secure boot, task creation, loading of the native tasks, channel assignment,
  timer and the first task. Readings of registers and devices, the embedded task images and the
  enabled features are the boot environment.
\<close>

record boot_env =
  csr_mtvec :: usize
  csr_misa :: usize
  csr_medeleg :: usize
  csr_mideleg :: usize
  csr_mcounteren :: usize
  mtime_first :: u64
  mtime_second :: u64
  mtime_start :: u64
  uart_feature :: bool
  test_keys :: bool
  production_otp :: bool
  fast_sign :: bool
  otp_key :: "u8 list option"
  ed :: ed25519
  task_a_entry :: usize
  task_b_entry :: usize
  hello_image :: "u8 list \<times> u8 list \<times> u8 list"
  world_image :: "u8 list \<times> u8 list \<times> u8 list"

section \<open>Power-on checks\<close>

definition production_post :: "boot_env \<Rightarrow> unit kernel_op" where
  "production_post e k =
     (if csr_mtvec e = 0 then halt_system ''[POST] FATAL: mtvec = 0'' k
      else if csr_mtvec e AND 3 \<noteq> 0 then halt_system ''[POST] FATAL: mtvec mode != direct'' k
      else if mtime_second e \<le> mtime_first e then halt_system ''[POST] FATAL: CLINT mtime not advancing'' k
      else if drop_bit 62 (csr_misa e) AND 3 \<noteq> 2 then halt_system ''[POST] FATAL: misa MXL != RV64'' k
      else if drop_bit 8 (csr_misa e) AND 1 = 0 \<or> drop_bit 12 (csr_misa e) AND 1 = 0
           \<or> csr_misa e AND 1 = 0 \<or> drop_bit 2 (csr_misa e) AND 1 = 0
      then halt_system ''[POST] FATAL: misa missing IMAC'' k
      else if csr_medeleg e = - 1 \<or> csr_mideleg e = - 1
      then halt_system ''[POST] FATAL: medeleg/mideleg all-ones (hw fault)'' k
      else if csr_mcounteren e \<noteq> 0 then halt_system ''[POST] FATAL: mcounteren != 0'' k
      else if \<not> verify_pmp_integrity (PMP k) then halt_system ''[POST] FATAL: PMP integrity fail'' k
      else Returned () k)"

section \<open>Initialisation\<close>

definition provision_production_key :: "boot_env \<Rightarrow> unit kernel_op" where
  "provision_production_key e k =
     (case otp_key e of
        None \<Rightarrow> halt_system ''[BOOT] FATAL: OTP key provisioning failed'' k
      | Some key \<Rightarrow> Returned () (k\<lparr>BROKER := provision_key (production_otp e) key (BROKER k)\<rparr>))"

definition init_keys :: "boot_env \<Rightarrow> unit kernel_op" where
  "init_keys e k =
     obind (if test_keys e
            then Returned () (k\<lparr>BROKER := provision_key (production_otp e) (replicate 32 0x5A) (BROKER k)\<rparr>)
            else Returned () k)
     (\<lambda>_ k. obind (if production_otp e then provision_production_key e k else Returned () k)
     (\<lambda>_ k. if test_keys e \<and> \<not> secure_boot_check (fast_sign e) (ed e) [] get_root_public_key QEMU_TEST_SIGNATURE
        then halt_system ''[BOOT] Secure boot FAIL'' k
        else Returned () k))"

definition load_image ::
  "(u8 list \<Rightarrow> u8 list \<Rightarrow> u8 list \<Rightarrow> memory \<Rightarrow> load_result) \<Rightarrow> u8 list \<times> u8 list \<times> u8 list \<Rightarrow> string \<Rightarrow> unit kernel_op" where
  "load_image load img msg k =
     (case img of (text_seg, rodata_seg, data_seg) \<Rightarrow>
       (case load text_seg rodata_seg data_seg (MEM k) of
          (Inl _, mem) \<Rightarrow> halt_system msg (k\<lparr>MEM := mem\<rparr>)
        | (Inr _, mem) \<Rightarrow> Returned () (k\<lparr>MEM := mem\<rparr>)))"

definition assign_or_halt :: "string \<Rightarrow> usize \<Rightarrow> u8 \<Rightarrow> u8 \<Rightarrow> unit kernel_op" where
  "assign_or_halt msg ch producer consumer k =
     (case assign_channel (IPC k) ch producer consumer of
        (ok, st) \<Rightarrow> if ok then Returned () (k\<lparr>IPC := st\<rparr>) else halt_system msg (k\<lparr>IPC := st\<rparr>))"

text \<open>Both assignments happen before the results are looked at.\<close>

definition assign_legacy :: "u8 option \<Rightarrow> u8 option \<Rightarrow> unit kernel_op" where
  "assign_legacy id_a id_b k =
     (case (id_a, id_b) of
        (Some a, Some b) \<Rightarrow>
          (case assign_channel (IPC k) 0 a b of (ok_0, st) \<Rightarrow>
           (case assign_channel st 1 b a of (ok_1, st) \<Rightarrow>
             if \<not> ok_0 \<or> \<not> ok_1
             then halt_system ''[BOOT] FATAL: IPC channel assignment failed'' (k\<lparr>IPC := st\<rparr>)
             else Returned () (k\<lparr>IPC := st\<rparr>)))
      | _ \<Rightarrow> halt_system ''[BOOT] FATAL: task creation failed'' k)"

definition task_a_config :: "boot_env \<Rightarrow> TaskConfig" where
  "task_a_config e = \<lparr>cfg_entry = task_a_entry e, cfg_priority = 4, cfg_dal = 1, cfg_budget_cycles = 300000,
     cfg_period_ticks = 10, cfg_is_sntm_native = False\<rparr>"

definition task_b_config :: "boot_env \<Rightarrow> TaskConfig" where
  "task_b_config e = \<lparr>cfg_entry = task_b_entry e, cfg_priority = 8, cfg_dal = 2, cfg_budget_cycles = 200000,
     cfg_period_ticks = 10, cfg_is_sntm_native = False\<rparr>"

definition hello_config :: NativeTaskConfig where
  "hello_config = \<lparr>ncfg_task_id = 2, ncfg_priority = 6, ncfg_dal = 3, ncfg_budget_cycles = 500000, ncfg_period_ticks = 50\<rparr>"

definition world_config :: NativeTaskConfig where
  "world_config = \<lparr>ncfg_task_id = 3, ncfg_priority = 7, ncfg_dal = 3, ncfg_budget_cycles = 500000, ncfg_period_ticks = 50\<rparr>"

definition boot_init :: "platform \<Rightarrow> boot_env \<Rightarrow> unit kernel_op" where
  "boot_init pf e k =
     (let k = k\<lparr>PMP := init_pmp (linker pf) (uart_feature e) (PMP k)\<rparr>;
          k = k\<lparr>BLACKBOX := bb_init (BLACKBOX k)\<rparr>
      in obind (production_post e k)
     (\<lambda>_ k. obind (init_keys e k)
     (\<lambda>_ k. obind (create_task pf (task_a_config e) k)
     (\<lambda>id_a k. obind (create_task pf (task_b_config e) k)
     (\<lambda>id_b k. obind (load_image load_task_hello (hello_image e) ''[BOOT] FATAL: task_hello loader FAIL'' k)
     (\<lambda>_ k. obind (load_image load_task_world (world_image e) ''[BOOT] FATAL: task_world loader FAIL'' k)
     (\<lambda>_ k. obind (native_create_task pf hello_config k)
     (\<lambda>_ k. obind (native_create_task pf world_config k)
     (\<lambda>_ k. obind (assign_legacy id_a id_b k)
     (\<lambda>_ k. obind (for_each BOOT_CHANNELS (\<lambda>(channel_id, producer, consumer).
                assign_or_halt ''[BOOT] FATAL: SAFE-2 native channel assignment failed''
                  (ucast channel_id) producer consumer) k)
     (\<lambda>_ k. Returned () (k\<lparr>IPC := seal_channels (IPC k)\<rparr>))))))))))))"

definition start :: "boot_env \<Rightarrow> unit kernel_op" where
  "start e k = obind (init_timer (mtime_start e) k) (\<lambda>_. start_first_task)"

definition rust_main :: "platform \<Rightarrow> boot_env \<Rightarrow> unit kernel_op" where
  "rust_main pf e k = obind (boot_init pf e k) (\<lambda>_. start e)"

text \<open>
  The statics as the image holds them, with the registers and the memory found at power on.
\<close>

definition kernel_statics :: "pmp_unit \<Rightarrow> TaskContext \<Rightarrow> memory \<Rightarrow> kernel" where
  "kernel_statics h regs mem =
     \<lparr>TASKS = replicate MAX_TASKS task_empty, TASK_COUNT = 0, DEGRADE_LOGGED = False, DEGRADED = False,
      DEGRADE_TICK = 0, CURRENT_TASK = 0, RESTART_COUNTS = restart_counts_init, BLACKBOX = bb_zero,
      BROKER = broker_init, IPC = ipc_init, PMP = h, CAP_FAIL_COUNT = replicate MAX_TASKS 0,
      WCET_MAX = replicate SYSCALL_COUNT 0, WCET_LAST = replicate SYSCALL_COUNT 0, TICK_COUNT = 0,
      mtimecmp = 0, live = regs, frame_mepc = 0, MEM = mem\<rparr>"

section \<open>What boot leaves behind\<close>

lemma and_not_15:
  fixes x :: usize
  assumes "16 dvd unat x"
  shows "x AND NOT 0xF = x"
proof -
  have "take_bit 4 (unat x) = 0" using assms by (simp add: take_bit_eq_mod)
  then have "take_bit 4 x = 0" by (simp add: word_unat_eq_iff unsigned_take_bit_eq)
  then have low: "\<not> bit x i" if "i < 4" for i
    using that by (metis bit_take_bit_iff bit_0_eq bot_apply bot_bool_def)
  have m: "(0xF :: usize) = mask 4" by (simp add: mask_eq_exp_minus_1)
  show ?thesis unfolding m by (rule bit_word_eqI) (use low in \<open>auto simp: bit_simps\<close>)
qed

lemma stack_base_facts:
  assumes "platform_ok pf" "i < 8"
  shows "(stack_base pf i + 8192) AND NOT 0xF = stack_base pf i + 8192"
    "drop_bit 2 (stack_base pf i) OR 0x3FF = napot_encode (stack_base pf i) 13"
    "napot_encode (stack_base pf i) 13 < 2 ^ 54"
proof -
  have b: "unat (stack_base pf i) = unat (TASK_STACKS pf) + i * 8192"
    using stack_base_unat [OF assms(1)] assms(2) by simp
  have i8: "i * 8192 \<le> 7 * 8192" using assms(2) by (intro mult_right_mono) simp_all
  have "unat (stack_base pf i + 8192) = unat (TASK_STACKS pf) + i * 8192 + 8192"
    using b i8 assms(1) by (subst unat_word_ariths) (simp add: platform_ok_def)
  moreover obtain m where "unat (TASK_STACKS pf) = 8192 * m" using assms(1) unfolding platform_ok_def by (elim conjE dvdE)
  ultimately have "unat (stack_base pf i + 8192) = 16 * (512 * m + 512 * i + 512)" by simp
  then have "16 dvd unat (stack_base pf i + 8192)" by (rule dvdI)
  then show "(stack_base pf i + 8192) AND NOT 0xF = stack_base pf i + 8192" by (rule and_not_15)
  show "drop_bit 2 (stack_base pf i) OR 0x3FF = napot_encode (stack_base pf i) 13"
    by (simp add: napot_encode_def mask_eq_exp_minus_1)
  show "napot_encode (stack_base pf i) 13 < 2 ^ 54"
    using b i8 assms(1) by (intro napot_encode_less) (simp_all add: platform_ok_def)
qed

text \<open>The tasks boot creates.\<close>

definition legacy_task :: "platform \<Rightarrow> nat \<Rightarrow> TaskConfig \<Rightarrow> Task" where
  "legacy_task pf i cfg = task_empty
     \<lparr>t_id := of_nat i, t_state := Ready,
      t_context := fresh_context pf (cfg_entry cfg) (stack_base pf i + 8192),
      t_entry := cfg_entry cfg, t_stack_top := stack_base pf i + 8192,
      t_priority := cfg_priority cfg, t_dal := cfg_dal cfg,
      t_budget_cycles := cfg_budget_cycles cfg, t_remaining_cycles := cfg_budget_cycles cfg,
      t_period_ticks := cfg_period_ticks cfg, t_watchdog_limit := WATCHDOG_LIMIT,
      t_watchdog_window_min := WATCHDOG_WINDOW_MIN, t_original_budget := cfg_budget_cycles cfg,
      t_pmp_addr_napot := napot_encode (stack_base pf i) 13, t_is_sntm_native := cfg_is_sntm_native cfg\<rparr>"

definition native_task :: "platform \<Rightarrow> NativeTaskConfig \<Rightarrow> usize \<Rightarrow> usize \<Rightarrow> Task" where
  "native_task pf cfg entry sp = task_empty
     \<lparr>t_id := ncfg_task_id cfg, t_state := Ready, t_context := fresh_context pf entry sp,
      t_entry := entry, t_stack_top := sp, t_priority := ncfg_priority cfg, t_dal := ncfg_dal cfg,
      t_budget_cycles := ncfg_budget_cycles cfg, t_remaining_cycles := ncfg_budget_cycles cfg,
      t_period_ticks := ncfg_period_ticks cfg, t_watchdog_limit := WATCHDOG_LIMIT,
      t_original_budget := ncfg_budget_cycles cfg, t_is_sntm_native := True\<rparr>"

lemma create_task_boot:
  assumes "platform_ok pf" "TASK_COUNT k = n" "n < 8" "cfg_budget_cycles cfg \<noteq> 0" "TASKS k ! n = task_empty"
  shows "create_task pf cfg k =
    Returned (Some (of_nat n)) (k\<lparr>TASKS := (TASKS k)[n := legacy_task pf n cfg], TASK_COUNT := n + 1\<rparr>)"
proof -
  have sb: "TASK_STACKS pf + of_nat n * 8192 = stack_base pf n" by (simp add: stack_base_def)
  show ?thesis
    using assms(2-5) stack_base_facts(1,2) [OF assms(1,3)]
    by (simp add: create_task_def Let_def sb legacy_task_def task_empty_def)
qed

lemma native_create_boot:
  assumes "get_pmp_profile (ncfg_task_id cfg) = Some p" "p = TASK_HELLO_PROFILE \<or> p = TASK_WORLD_PROFILE"
    "unat (ncfg_task_id cfg) = n" "n < 8" "TASK_COUNT k = n" "ncfg_budget_cycles cfg \<noteq> 0" "TASKS k ! n = task_empty"
  shows "\<exists>entry sp. native_create_task pf cfg k =
    Returned (Some (ncfg_task_id cfg)) (k\<lparr>TASKS := (TASKS k)[n := native_task pf cfg entry sp], TASK_COUNT := n + 1\<rparr>)"
proof -
  have "\<not> region_count p < 1" using assms(2) by (auto simp: TASK_HELLO_PROFILE_def TASK_WORLD_PROFILE_def)
  then show ?thesis
    using assms by (auto simp: native_create_task_def Let_def native_task_def task_empty_def)
qed

text \<open>
  A step of boot: it returns with \<open>P\<close>, or it halts with a message, and only if the environment is not
  healthy.
\<close>

fun boot_step :: "bool \<Rightarrow> ('a \<Rightarrow> kernel \<Rightarrow> bool) \<Rightarrow> (kernel, 'a) outcome \<Rightarrow> bool" where
  "boot_step healthy P (Halted r s) = (\<not> healthy \<and> (\<exists>msg. r = Fatal msg))"
| "boot_step healthy P (Entered s) = False"
| "boot_step healthy P (Returned x s) = P x s"

lemma boot_step_obind:
  assumes "boot_step H P m" "\<And>x s. P x s \<Longrightarrow> boot_step H Q (f x s)"
  shows "boot_step H Q (obind m f)"
  using assms by (cases m) auto

definition boot_healthy :: "platform \<Rightarrow> boot_env \<Rightarrow> pmp_unit \<Rightarrow> bool" where
  "boot_healthy pf e h \<longleftrightarrow> csr_mtvec e \<noteq> 0 \<and> csr_mtvec e AND 3 = 0 \<and> mtime_first e < mtime_second e
     \<and> drop_bit 62 (csr_misa e) AND 3 = 2 \<and> drop_bit 8 (csr_misa e) AND 1 \<noteq> 0 \<and> drop_bit 12 (csr_misa e) AND 1 \<noteq> 0
     \<and> csr_misa e AND 1 \<noteq> 0 \<and> drop_bit 2 (csr_misa e) AND 1 \<noteq> 0
     \<and> csr_medeleg e \<noteq> - 1 \<and> csr_mideleg e \<noteq> - 1 \<and> csr_mcounteren e = 0
     \<and> verify_pmp_integrity (init_pmp (linker pf) (uart_feature e) h)
     \<and> (production_otp e \<longrightarrow> otp_key e \<noteq> None)
     \<and> (test_keys e \<longrightarrow> secure_boot_check (fast_sign e) (ed e) [] get_root_public_key QEMU_TEST_SIGNATURE)
     \<and> (case hello_image e of (t, r, d) \<Rightarrow> segments_fit \<lparr>seg_text = t, seg_rodata = Some r, seg_data = Some d\<rparr>)
     \<and> (case world_image e of (t, r, d) \<Rightarrow> segments_fit \<lparr>seg_text = t, seg_rodata = Some r, seg_data = Some d\<rparr>)"

definition boot_task :: "platform \<Rightarrow> nat \<Rightarrow> Task \<Rightarrow> bool" where
  "boot_task pf i t \<longleftrightarrow> t_state t = Ready \<and> t_id t = of_nat i \<and> t_priority t = [4, 8, 6, 7] ! i \<and> t_is_sntm_native t = (2 \<le> i)
     \<and> (if t_is_sntm_native t then \<exists>p. get_pmp_profile (t_id t) = Some p \<and> 0 < region_count p
        else t_stack_top t = stack_base pf i + TASK_STACK_SIZE \<and> t_pmp_addr_napot t = napot_encode (stack_base pf i) 13)"

text \<open>The state after the first \<open>n\<close> tasks have been created.\<close>

definition boot_state :: "platform \<Rightarrow> pmp_unit \<Rightarrow> ipc_state \<Rightarrow> nat \<Rightarrow> kernel \<Rightarrow> bool" where
  "boot_state pf h st n k \<longleftrightarrow> length (TASKS k) = 8 \<and> TASK_COUNT k = n \<and> (\<forall>i<n. boot_task pf i (TASKS k ! i))
     \<and> (\<forall>i. n \<le> i \<and> i < 8 \<longrightarrow> TASKS k ! i = task_empty) \<and> length (RESTART_COUNTS k) = 8 \<and> CURRENT_TASK k = 0
     \<and> TICK_COUNT k = 0 \<and> PMP k = h \<and> verify_pmp_integrity h \<and> IPC k = st \<and> ipc_inv st \<and> bb_inv (BLACKBOX k) \<and> broker_inv (BROKER k)
     \<and> length (CAP_FAIL_COUNT k) = 8 \<and> length (WCET_MAX k) = 6 \<and> length (WCET_LAST k) = 6"

lemma boot_state_fields:
  "boot_state pf h st n (k\<lparr>MEM := m\<rparr>) = boot_state pf h st n k"
  "boot_state pf h st n (k\<lparr>mtimecmp := c\<rparr>) = boot_state pf h st n k"
  "broker_inv b \<Longrightarrow> boot_state pf h st n k \<Longrightarrow> boot_state pf h st n (k\<lparr>BROKER := b\<rparr>)"
  "ipc_inv st' \<Longrightarrow> boot_state pf h st n k \<Longrightarrow> boot_state pf h st' n (k\<lparr>IPC := st'\<rparr>)"
  by (simp_all add: boot_state_def)

lemma boot_state_add:
  assumes "boot_state pf h st n k" "n < 8" "boot_task pf n t"
  shows "boot_state pf h st (n + 1) (k\<lparr>TASKS := (TASKS k)[n := t], TASK_COUNT := n + 1\<rparr>)"
  using assms by (auto simp: boot_state_def less_Suc_eq)

lemma provision_inv: "broker_inv b \<Longrightarrow> broker_inv (provision_key otp key b)"
  using broker_step_inv [of b otp H "Provision key" for H] by simp

lemma boot_post:
  assumes "boot_state pf h st n k \<or> (verify_pmp_integrity h \<longrightarrow> boot_state pf h st n k)" "PMP k = h"
    "h = init_pmp (linker pf) (uart_feature e) g"
  shows "boot_step (boot_healthy pf e g) (\<lambda>_. boot_state pf h st n) (production_post e k)"
  using assms by (auto simp: production_post_def halt_system_def boot_healthy_def)

lemma boot_keys:
  assumes "boot_state pf h st n k"
  shows "boot_step (boot_healthy pf e g) (\<lambda>_. boot_state pf h st n) (init_keys e k)"
proof -
  have b: "broker_inv (BROKER k)" using assms by (simp add: boot_state_def)
  have s: "boot_state pf h st n (k\<lparr>BROKER := provision_key o1 k1 (BROKER k)\<rparr>)"
    "boot_state pf h st n (k\<lparr>BROKER := provision_key o2 k2 (provision_key o1 k1 (BROKER k))\<rparr>)" for o1 k1 o2 k2
    using assms b by (auto intro!: boot_state_fields provision_inv)
  show ?thesis using assms s
    by (auto simp: init_keys_def provision_production_key_def halt_system_def boot_healthy_def split: option.split)
qed

lemma boot_legacy:
  assumes "platform_ok pf" "boot_state pf h st n k" "n < 2" "cfg_budget_cycles cfg \<noteq> 0" "\<not> cfg_is_sntm_native cfg"
    "cfg_priority cfg = [4, 8, 6, 7] ! n" "n' = n + 1"
  shows "boot_step H (\<lambda>r s. r = Some (of_nat n) \<and> boot_state pf h st n' s) (create_task pf cfg k)"
proof -
  have "TASK_COUNT k = n" "TASKS k ! n = task_empty" using assms(2,3) by (auto simp: boot_state_def)
  note c = create_task_boot [OF assms(1) this(1) _ assms(4) this(2)]
  have "boot_task pf n (legacy_task pf n cfg)" using assms(3,5,6) by (simp add: boot_task_def legacy_task_def)
  then show ?thesis using c boot_state_add [OF assms(2)] assms(3,7) by simp
qed

lemma boot_native:
  assumes "boot_state pf h st n k" "n = 2 \<and> cfg = hello_config \<or> n = 3 \<and> cfg = world_config" "n' = n + 1"
  shows "boot_step H (\<lambda>_. boot_state pf h st n') (native_create_task pf cfg k)"
proof -
  have n8: "n < 8" using assms(2) by auto
  have k: "TASK_COUNT k = n" "TASKS k ! n = task_empty" using assms(1) n8 by (auto simp: boot_state_def)
  have cfg: "unat (ncfg_task_id cfg) = n" "ncfg_task_id cfg = of_nat n" "ncfg_budget_cycles cfg \<noteq> 0" "ncfg_priority cfg = [4, 8, 6, 7] ! n"
    using assms(2) by (auto simp: hello_config_def world_config_def)
  have "ncfg_task_id cfg = 2 \<or> ncfg_task_id cfg = 3" using assms(2) by (auto simp: hello_config_def world_config_def)
  from native_profile [OF this] obtain p where p: "get_pmp_profile (ncfg_task_id cfg) = Some p"
    "p = TASK_HELLO_PROFILE \<or> p = TASK_WORLD_PROFILE" "region_count p \<noteq> 0" by blast
  from native_create_boot [OF p(1,2) cfg(1) n8 k(1) cfg(3) k(2), of pf] obtain en sp where
    run: "native_create_task pf cfg k = Returned (Some (ncfg_task_id cfg)) (k\<lparr>TASKS := (TASKS k)[n := native_task pf cfg en sp], TASK_COUNT := n + 1\<rparr>)" by blast
  have "boot_task pf n (native_task pf cfg en sp)"
    using cfg p assms(2) by (auto simp: boot_task_def native_task_def word_gt_0)
  then show ?thesis unfolding run using boot_state_add [OF assms(1) n8] assms(3) by simp
qed

lemma boot_load:
  assumes "boot_state pf h st n k"
    "\<And>m. H \<Longrightarrow> case img of (t, r, d) \<Rightarrow> fst (load t r d m) = Inr ()"
  shows "boot_step H (\<lambda>_. boot_state pf h st n) (load_image load img msg k)"
proof -
  obtain t r d where img: "img = (t, r, d)" by (cases img)
  obtain x m where x: "load t r d (MEM k) = (x, m)" by fastforce
  have "H \<Longrightarrow> x = Inr ()" using assms(2) [of "MEM k"] img x by simp
  then show ?thesis using assms(1) img x by (cases x) (auto simp: load_image_def halt_system_def boot_state_fields)
qed

lemma load_succeeds:
  assumes "t = 2 \<or> t = 3" "segments_fit s"
  shows "fst (load_native_task t s m) = Inr ()"
proof -
  obtain p where p: "get_pmp_profile t = Some p" "p = TASK_HELLO_PROFILE \<or> p = TASK_WORLD_PROFILE"
    "region_count p \<noteq> 0" using native_profile [OF assms(1)] .
  note nr = native_regions [OF p(2)]
  have "length (seg_text s) \<le> 0x4000" "length (case seg_rodata s of None \<Rightarrow> [] | Some x \<Rightarrow> x) \<le> 0x1000"
    "length (case seg_data s of None \<Rightarrow> [] | Some x \<Rightarrow> x) \<le> 0x1000"
    using assms(2) by (auto simp: segments_fit_def split: option.split)
  then show ?thesis
    using p nr by (simp add: load_native_task_def load_region_eq load_optional_eq load_stack_eq Let_def)
qed

text \<open>The channels \<open>init\<close> opens: the legacy pair both ways and the native channel.\<close>

definition legacy_channels :: ipc_state where
  "legacy_channels = snd (assign_channel (snd (assign_channel ipc_init 0 0 1)) 1 1 0)"

definition boot_channels :: ipc_state where
  "boot_channels = snd (assign_channel legacy_channels 2 2 3)"

lemma boot_assign_legacy:
  assumes "boot_state pf h ipc_init n k"
  shows "boot_step H (\<lambda>_. boot_state pf h legacy_channels n) (assign_legacy (Some 0) (Some 1) k)"
proof -
  have "IPC k = ipc_init" using assms by (simp add: boot_state_def)
  moreover have "ipc_inv legacy_channels" by (simp add: legacy_channels_def assign_channel_inv)
  ultimately show ?thesis
    using boot_state_fields(4) [OF _ assms, of legacy_channels]
    by (simp add: assign_legacy_def legacy_channels_def assign_channel_def ipc_init_def)
qed

lemma boot_assign_native:
  assumes "boot_state pf h legacy_channels n k"
  shows "boot_step H (\<lambda>_. boot_state pf h boot_channels n)
    (for_each BOOT_CHANNELS (\<lambda>(channel_id, producer, consumer). assign_or_halt msg (ucast channel_id) producer consumer) k)"
proof -
  have "IPC k = legacy_channels" using assms by (simp add: boot_state_def)
  moreover have "\<not> CHANNELS_SEALED legacy_channels"
    by (simp add: legacy_channels_def assign_channel_def ipc_init_def)
  moreover have "ipc_inv boot_channels" by (simp add: boot_channels_def legacy_channels_def assign_channel_inv)
  ultimately show ?thesis
    using boot_state_fields(4) [OF _ assms, of boot_channels]
    by (simp add: BOOT_CHANNELS_def assign_or_halt_def assign_channel_def boot_channels_def)
qed

lemma bb_init_inv: "bb_inv (bb_init bb)"
  unfolding bb_init_def by (rule bb_log_inv) (simp add: bb_inv_def)

lemma boot_creates:
  assumes "platform_ok pf"
  shows "boot_state pf h ipc_init 0 k \<Longrightarrow>
      boot_step H (\<lambda>r s. r = Some 0 \<and> boot_state pf h ipc_init 1 s) (create_task pf (task_a_config e) k)"
    "boot_state pf h ipc_init 1 k \<Longrightarrow>
      boot_step H (\<lambda>r s. r = Some 1 \<and> boot_state pf h ipc_init 2 s) (create_task pf (task_b_config e) k)"
    "boot_state pf h ipc_init 2 k \<Longrightarrow> boot_step H (\<lambda>_. boot_state pf h ipc_init 3) (native_create_task pf hello_config k)"
    "boot_state pf h ipc_init 3 k \<Longrightarrow> boot_step H (\<lambda>_. boot_state pf h ipc_init 4) (native_create_task pf world_config k)"
proof -
  have cfg: "cfg_budget_cycles (task_a_config e) \<noteq> 0" "cfg_budget_cycles (task_b_config e) \<noteq> 0"
    "\<not> cfg_is_sntm_native (task_a_config e)" "\<not> cfg_is_sntm_native (task_b_config e)"
    "cfg_priority (task_a_config e) = [4, 8, 6, 7] ! 0" "cfg_priority (task_b_config e) = [4, 8, 6, 7] ! 1"
    by (simp_all add: task_a_config_def task_b_config_def)
  show "boot_step H (\<lambda>r s. r = Some 0 \<and> boot_state pf h ipc_init 1 s) (create_task pf (task_a_config e) k)"
    if "boot_state pf h ipc_init 0 k" using boot_legacy [OF assms that _ cfg(1,3,5), of 1] by simp
  show "boot_step H (\<lambda>r s. r = Some 1 \<and> boot_state pf h ipc_init 2 s) (create_task pf (task_b_config e) k)"
    if "boot_state pf h ipc_init 1 k" using boot_legacy [OF assms that _ cfg(2,4,6), of 2] by simp
  show "boot_step H (\<lambda>_. boot_state pf h ipc_init 3) (native_create_task pf hello_config k)"
    if "boot_state pf h ipc_init 2 k" by (rule boot_native [OF that]) simp_all
  show "boot_step H (\<lambda>_. boot_state pf h ipc_init 4) (native_create_task pf world_config k)"
    if "boot_state pf h ipc_init 3 k" by (rule boot_native [OF that]) simp_all
qed

lemma boot_seal:
  assumes "boot_state pf h st n k"
  shows "boot_state pf h (seal_channels st) n (k\<lparr>IPC := seal_channels (IPC k)\<rparr>)"
  using assms by (simp add: boot_state_def seal_channels_inv)

lemma boot_init_state:
  fixes e :: boot_env and pf :: platform and g :: pmp_unit
  defines "h \<equiv> init_pmp (linker pf) (uart_feature e) g"
  assumes "platform_ok pf"
  shows "boot_step (boot_healthy pf e g) (\<lambda>_. boot_state pf h (seal_channels boot_channels) 4)
    (boot_init pf e (kernel_statics g regs mem))"
proof -
  let ?k = "(kernel_statics g regs mem)\<lparr>PMP := h, BLACKBOX := bb_init bb_zero\<rparr>"
  have st: "verify_pmp_integrity h \<longrightarrow> boot_state pf h ipc_init 0 ?k"
    by (simp add: boot_state_def kernel_statics_def bb_init_inv broker_init_inv restart_counts_init_def)
  have run: "boot_init pf e (kernel_statics g regs mem) = obind (production_post e ?k)
     (\<lambda>_ k. obind (init_keys e k)
     (\<lambda>_ k. obind (create_task pf (task_a_config e) k)
     (\<lambda>id_a k. obind (create_task pf (task_b_config e) k)
     (\<lambda>id_b k. obind (load_image load_task_hello (hello_image e) ''[BOOT] FATAL: task_hello loader FAIL'' k)
     (\<lambda>_ k. obind (load_image load_task_world (world_image e) ''[BOOT] FATAL: task_world loader FAIL'' k)
     (\<lambda>_ k. obind (native_create_task pf hello_config k)
     (\<lambda>_ k. obind (native_create_task pf world_config k)
     (\<lambda>_ k. obind (assign_legacy id_a id_b k)
     (\<lambda>_ k. obind (for_each BOOT_CHANNELS (\<lambda>(channel_id, producer, consumer).
                assign_or_halt ''[BOOT] FATAL: SAFE-2 native channel assignment failed''
                  (ucast channel_id) producer consumer) k)
     (\<lambda>_ k. Returned () (k\<lparr>IPC := seal_channels (IPC k)\<rparr>)))))))))))"
    by (simp add: boot_init_def h_def kernel_statics_def)
  have hello: "case hello_image e of (t, r, d) \<Rightarrow> fst (load_task_hello t r d m) = Inr ()" if "boot_healthy pf e g" for m
    using that by (auto simp: boot_healthy_def load_task_hello_def intro!: load_succeeds)
  have world: "case world_image e of (t, r, d) \<Rightarrow> fst (load_task_world t r d m) = Inr ()" if "boot_healthy pf e g" for m
    using that by (auto simp: boot_healthy_def load_task_world_def intro!: load_succeeds)
  show ?thesis unfolding run
    apply (rule boot_step_obind [OF boot_post [where h = h and st = ipc_init and n = 0 and pf = pf and g = g]])
       apply (use st in simp)
      apply simp
     apply (simp add: h_def)
    apply (erule boot_step_obind [OF boot_keys])
    apply (erule boot_step_obind [OF boot_creates(1) [OF assms(2)]])
    apply (elim conjE, erule boot_step_obind [OF boot_creates(2) [OF assms(2)]])
    apply (elim conjE, erule boot_step_obind [OF boot_load], erule hello)
    apply (erule boot_step_obind [OF boot_load], erule world)
    apply (erule boot_step_obind [OF boot_creates(3) [OF assms(2)]], erule boot_step_obind [OF boot_creates(4) [OF assms(2)]])
    apply (simp only:, erule boot_step_obind [OF boot_assign_legacy], erule boot_step_obind [OF boot_assign_native])
    apply (simp add: boot_seal)
    done
qed

lemma first_selected:
  assumes "boot_state pf h st 4 k"
  shows "fold (first_step (TASKS k)) [0..<4] (0, 255) = (0, 4)"
proof -
  have t: "boot_task pf i (TASKS k ! i)" if "i < 4" for i using assms that by (simp add: boot_state_def)
  then have r: "t_state (TASKS k ! i) = Ready" "t_priority (TASKS k ! i) = [4, 8, 6, 7] ! i" if "i < 4" for i
    using that by (auto simp: boot_task_def)
  have "[0..<4] = [0, 1, 2, 3 :: nat]" by (simp add: upt_rec)
  then show ?thesis
    using r [of 0] r [of 1] r [of 2] r [of 3] by (simp add: first_step_def)
qed

text \<open>The kernel as it enters the first task.\<close>

definition first_entered :: "kernel \<Rightarrow> kernel" where
  "first_entered k =
     (let ctx = t_context (TASKS k ! 0)
      in k\<lparr>TASKS := (TASKS k)[0 := (TASKS k ! 0)\<lparr>t_state := Running\<rparr>], CURRENT_TASK := 0,
           PMP := do_switch (task_switch (TASKS k ! 0)) (PMP k),
           live := (live k)\<lparr>ctx_ra := 0, ctx_sp := ctx_sp ctx, ctx_mepc := ctx_mepc ctx, ctx_mstatus := ctx_mstatus ctx\<rparr>\<rparr>)"

lemma boot_task_wf:
  assumes "platform_ok pf" "boot_state pf h st n k" "i < 8"
  shows "task_wf i (TASKS k ! i)"
proof (cases "i < n")
  case True
  then have "boot_task pf i (TASKS k ! i)" using assms(2) by (simp add: boot_state_def)
  then show ?thesis using stack_base_facts(3) [OF assms(1,3)] by (auto simp: task_wf_def boot_task_def)
next
  case False
  then have "TASKS k ! i = task_empty" using assms by (simp add: boot_state_def)
  then show ?thesis by (simp add: task_wf_def task_empty_def)
qed

lemma task_wf_running: "task_wf i t \<Longrightarrow> t_state t = Ready \<Longrightarrow> task_wf i (t\<lparr>t_state := Running\<rparr>)"
  by (auto simp: task_wf_def split: if_splits)

lemma start_first:
  assumes "platform_ok pf" "boot_state pf h st 4 k"
  shows "start_first_task k = Entered (first_entered k)"
proof -
  let ?t = "TASKS k ! 0"
  have k: "length (TASKS k) = 8" "TASK_COUNT k = 4" using assms(2) by (auto simp: boot_state_def)
  have bt: "t_state ?t = Ready" using assms(2) by (simp add: boot_state_def boot_task_def)
  then have wf: "task_wf 0 (?t\<lparr>t_state := Running\<rparr>)"
    using boot_task_wf [OF assms] by (intro task_wf_running) simp_all
  have sw: "task_switch (?t\<lparr>t_state := Running\<rparr>) = task_switch ?t" by (simp add: task_switch_def)
  show ?thesis
    using k first_selected [OF assms(2)] load_pmp_eq [OF wf]
    by (simp add: start_first_task_def map_task_def first_entered_def Let_def sw)
qed

lemma boot_pmp_current:
  assumes "platform_ok pf" "boot_state pf h st 4 k" "pmp_inv h" 
  shows "pmp_inv (PMP (first_entered k)) \<and> verify_pmp_integrity (PMP (first_entered k)) \<and> pmp_current (first_entered k)
    \<and> take 8 (pmp_entries (PMP (first_entered k))) = take 8 (pmp_entries h)"
proof -
  have k: "length (TASKS k) = 8" "PMP k = h" "t_state (TASKS k ! 0) = Ready"
    using assms(2) by (auto simp: boot_state_def boot_task_def)
  have ok: "switch_ok (task_switch (TASKS k ! 0))"
    by (rule task_switch_ok [OF boot_task_wf [OF assms(1,2)]]) (simp_all add: k)
  show ?thesis
    using do_switch_verifies [OF assms(3) ok] do_switch_entries [OF assms(3) ok] k
    by (simp add: pmp_current_def first_entered_def Let_def task_switch_def)
qed

lemma first_entered_sys_ok:
  assumes "platform_ok pf" "boot_state pf h st 4 k" "pmp_inv h" "boot_entries pf uart h"
  shows "sys_ok pf uart (first_entered k)"
proof -
  let ?f = "first_entered k"
  have f: "length (TASKS k) = 8" "TASKS ?f = (TASKS k)[0 := (TASKS k ! 0)\<lparr>t_state := Running\<rparr>]" "CURRENT_TASK ?f = 0"
    using assms(2) by (auto simp: boot_state_def first_entered_def Let_def)
  have "t_state (TASKS k ! 0) = Ready" using assms(2) by (simp add: boot_state_def boot_task_def)
  then have wf: "\<forall>i<8. task_wf i (TASKS ?f ! i)"
    using boot_task_wf [OF assms(1,2)] f task_wf_running by (auto simp: nth_list_update)
  have st: "t_state (TASKS k ! i) \<noteq> Running" "task_active (TASKS k ! i) \<Longrightarrow> boot_task pf i (TASKS k ! i)" if "i < 8" for i
    using that assms(2) by (cases "i < 4"; auto simp: boot_state_def boot_task_def task_empty_def task_active_def)+
  have run: "\<forall>i<8. t_state (TASKS ?f ! i) = Running \<longrightarrow> i = CURRENT_TASK ?f"
    using st(1) f by (auto simp: nth_list_update)
  note p = boot_pmp_current [OF assms(1-3)]
  have "shape ?f" "ipc_inv (IPC ?f)" "bb_inv (BLACKBOX ?f)" "broker_inv (BROKER ?f)" "length (CAP_FAIL_COUNT ?f) = 8"
    "length (WCET_MAX ?f) = 6" "length (WCET_LAST ?f) = 6"
    using assms(2) by (simp_all add: shape_def boot_state_def first_entered_def Let_def)
  then have "kernel_inv ?f" using wf run p unfolding kernel_inv_def by blast
  moreover have "stacks_ok pf ?f" unfolding stacks_ok_def
  proof (intro allI impI, elim conjE)
    fix i assume i: "i < 8" "task_active (TASKS ?f ! i)" "\<not> t_is_sntm_native (TASKS ?f ! i)"
    then have "boot_task pf i (TASKS k ! i)"
      using assms(2) st(2) [OF i(1)] f by (cases "i = 0") (simp_all add: boot_state_def)
    then show "t_stack_top (TASKS ?f ! i) = stack_base pf i + 8192 \<and> t_pmp_addr_napot (TASKS ?f ! i) = napot_encode (stack_base pf i) 13"
      using i(3) f by (cases "i = 0") (simp_all add: boot_task_def)
  qed
  ultimately show ?thesis using p assms(1,4) by (simp add: sys_ok_def boot_entries_def)
qed


text \<open>The roster of tasks: two legacy tasks with their stacks, two native ones, four empty slots.\<close>

definition roster :: "platform \<Rightarrow> kernel \<Rightarrow> bool" where
  "roster pf k \<longleftrightarrow> CURRENT_TASK k < 4
     \<and> (\<forall>i<4. t_id (TASKS k ! i) = of_nat i \<and> t_is_sntm_native (TASKS k ! i) = (2 \<le> i)
          \<and> (i < 2 \<longrightarrow> t_pmp_addr_napot (TASKS k ! i) = napot_encode (stack_base pf i) 13))
     \<and> (\<forall>i. 4 \<le> i \<and> i < 8 \<longrightarrow> \<not> task_active (TASKS k ! i))"

lemma first_entered_roster:
  assumes "boot_state pf h st 4 k"
  shows "roster pf (first_entered k)"
proof -
  have len: "length (TASKS k) = 8" using assms by (simp add: boot_state_def)
  have "boot_task pf i (TASKS k ! i)" if "i < 4" for i using assms that by (simp add: boot_state_def)
  then have "t_id (TASKS k ! i) = of_nat i \<and> t_is_sntm_native (TASKS k ! i) = (2 \<le> i)
      \<and> (i < 2 \<longrightarrow> t_pmp_addr_napot (TASKS k ! i) = napot_encode (stack_base pf i) 13)" if "i < 4" for i
    using that by (auto simp: boot_task_def)
  moreover have "\<not> task_active (TASKS k ! i)" if "4 \<le> i" "i < 8" for i
    using assms that by (simp add: boot_state_def task_active_def task_empty_def)
  ultimately show ?thesis using len
    by (simp add: roster_def first_entered_def Let_def nth_list_update)
qed

lemma rust_main_outcome:
  fixes e :: boot_env and pf :: platform and g :: pmp_unit
  defines "h \<equiv> init_pmp (linker pf) (uart_feature e) g"
  assumes "platform_ok pf" "unat (mtime_start e) + unat ticks_per_period < 2 ^ 64"
  shows "case rust_main pf e (kernel_statics g regs mem) of
      Returned _ _ \<Rightarrow> False
    | Halted r _ \<Rightarrow> \<not> boot_healthy pf e g \<and> (\<exists>msg. r = Fatal msg)
    | Entered k \<Rightarrow> \<exists>b. boot_state pf h (seal_channels boot_channels) 4 b \<and> mtimecmp b = mtime_start e + ticks_per_period
        \<and> k = first_entered b"
proof -
  let ?st = "seal_channels boot_channels" and ?c = "mtime_start e + ticks_per_period"
  have t: "\<exists>b. boot_state pf h ?st 4 b \<and> mtimecmp b = ?c \<and> start e k = Entered (first_entered b)"
    if k: "boot_state pf h ?st 4 k" for k
  proof -
    have "checked_add (mtime_start e) ticks_per_period = Some ?c"
      using assms(3) by (simp add: checked_add_Some_iff unat_word_ariths)
    then have "start e k = Entered (first_entered (k\<lparr>mtimecmp := ?c\<rparr>))"
      using start_first [OF assms(2), of h ?st] k by (simp add: start_def init_timer_def add_checked_def boot_state_fields)
    with k show ?thesis by (intro exI [of _ "k\<lparr>mtimecmp := ?c\<rparr>"]) (simp add: boot_state_fields)
  qed
  note init = boot_init_state [OF assms(2), of e g regs mem, folded h_def]
  show ?thesis
  proof (cases "boot_init pf e (kernel_statics g regs mem)")
    case (Returned x k)
    then obtain b where "boot_state pf h ?st 4 b" "mtimecmp b = ?c" "start e k = Entered (first_entered b)"
      using init t [of k] by auto
    with Returned show ?thesis by (auto simp: rust_main_def)
  qed (use init in \<open>simp_all add: rust_main_def\<close>)
qed

lemma rust_main_entered:
  assumes "platform_ok pf" "pmp_shape g" "warl_ok g" "unat (mtime_start e) + unat ticks_per_period < 2 ^ 64"
    and "rust_main pf e (kernel_statics g regs mem) = Entered k"
  shows "sys_ok pf (uart_feature e) k" "roster pf k" "CURRENT_TASK k = 0" "IPC k = seal_channels boot_channels"
proof -
  let ?h = "init_pmp (linker pf) (uart_feature e) g"
  have ld: "linker_ok (linker pf)" using assms(1) by (simp add: platform_ok_def)
  have h: "pmp_inv ?h" "boot_entries pf (uart_feature e) ?h"
    using init_pmp_inv [OF assms(2,3) ld] boot_kernel_entries [OF assms(2,3) ld] by (simp_all add: boot_entries_def)
  obtain b where b: "boot_state pf ?h (seal_channels boot_channels) 4 b" "k = first_entered b"
    using rust_main_outcome [OF assms(1,4), of g regs mem] assms(5) by auto
  show "sys_ok pf (uart_feature e) k" "roster pf k"
    using first_entered_sys_ok [OF assms(1) b(1) h] first_entered_roster [OF b(1)] b(2) by auto
  show "CURRENT_TASK k = 0" "IPC k = seal_channels boot_channels"
    using b by (simp_all add: first_entered_def Let_def boot_state_def)
qed

lemma boot_channel_owners: "CHANNEL_OWNERS boot_channels = [(0, 1), (1, 0), (2, 3)] @ replicate 5 (0xFF, 0xFF)"
proof -
  have "replicate 8 c = [c, c, c, c, c, c, c, c]" "replicate 5 c = [c, c, c, c, c]" for c :: "u8 \<times> u8"
    by (simp_all add: numeral_eq_Suc)
  then show ?thesis
    by (simp add: boot_channels_def legacy_channels_def assign_channel_def ipc_init_def)
qed

section \<open>Properties\<close>


text \<open>
  C20. Boot completes: on hardware that passes the power-on checks, with a provisioned key where the
  build asks for one, a secure-boot signature that verifies and images that fit their regions, boot
  reaches user mode.
\<close>
theorem boot_completes:
  assumes "platform_ok pf" "pmp_shape g" "warl_ok g" "unat (mtime_start e) + unat ticks_per_period < 2 ^ 64"
    and "boot_healthy pf e g"
  shows "\<exists>k. rust_main pf e (kernel_statics g regs mem) = Entered k"
  using rust_main_outcome [OF assms(1,4), of g regs mem] assms(5) by (auto split: outcome.splits)

section \<open>Witnesses\<close>

definition demo_platform :: platform where
  "demo_platform = \<lparr>linker = demo_linker, task_trampoline = 0x80001000, resume_address = 0x80002000,
     TASK_STACKS = 0x80020000, kernel_end = 0x80030000\<rparr>"

definition demo_env :: boot_env where
  "demo_env = \<lparr>csr_mtvec = 0x80000100, csr_misa = 0x8000000000141105, csr_medeleg = 0, csr_mideleg = 0,
     csr_mcounteren = 0, mtime_first = 100, mtime_second = 160, mtime_start = 5000, uart_feature = False,
     test_keys = True, production_otp = False, fast_sign = True, otp_key = None,
     ed = \<lparr>public_key_from_slice = Some, signature_from_slice = Some,
           public_key_verify = (\<lambda>pk msg sig. pk = QEMU_TEST_PUBKEY \<and> msg = [] \<and> sig = QEMU_TEST_SIGNATURE)\<rparr>,
     task_a_entry = 0x80003000, task_b_entry = 0x80004000,
     hello_image = ([0x13, 0, 0, 0], [1], [2]), world_image = ([0x13, 0, 0, 0], [3], [4])\<rparr>"

lemma demo_platform_ok: "platform_ok demo_platform"
  using demo_ok(3) by (simp add: platform_ok_def demo_platform_def) (simp add: demo_linker_def)

lemma demo_integrity: "verify_pmp_integrity (init_pmp demo_linker uart demo_pmp)"
proof -
  have same: "(replicate 8 c)[i := c] = replicate 8 c" if "i < 8" for i and c :: u64
    using that by (simp add: list_update_same_conv)
  have dyn: "pmpcfg2 (init_pmp demo_linker uart demo_pmp) = 0" "PMP_SHADOW_CFG2 (init_pmp demo_linker uart demo_pmp) = 0"
    "drop 8 (pmpaddr (init_pmp demo_linker uart demo_pmp)) = replicate 8 0"
    "PMP_SHADOW_DYN_ADDRS (init_pmp demo_linker uart demo_pmp) = replicate 8 0"
    by (simp_all add: init_pmp_def demo_pmp_def write_pmpaddr_def csrw_pmpaddr_def write_pmpcfg0_def Let_def upt_rec
      drop_update_swap same)
  note e = init_pmp_effect [OF demo_ok]
  have "pmpaddr (init_pmp demo_linker uart demo_pmp) ! (8 + i) = drop 8 (pmpaddr (init_pmp demo_linker uart demo_pmp)) ! i" for i
    using e(5) by (simp add: pmp_shape_def)
  then show ?thesis using e dyn by (simp add: verify_pmp_integrity_iff)
qed

lemma demo_healthy: "boot_healthy demo_platform demo_env demo_pmp"
  using demo_integrity
  by (simp add: boot_healthy_def demo_platform_def demo_env_def secure_boot_check_def ed25519_verify_def
      get_root_public_key_def segments_fit_def)

lemma demo_timer: "unat (mtime_start demo_env) + unat ticks_per_period < 2 ^ 64"
  by (simp add: demo_env_def ticks_per_period_def)


theorem boot_completes_witness:
  "\<exists>k. rust_main demo_platform demo_env (kernel_statics demo_pmp ctx_zero (\<lambda>_. 0)) = Entered k"
  by (rule boot_completes [OF demo_platform_ok demo_ok(1,2) demo_timer demo_healthy])


end
