(* ===== verification/System.thy ===== *)
theory System
  imports Boot
begin

text \<open>
  The composed system: boot, tasks running in user mode and the kernel's answers to traps, as a step
  relation. The laws of its steps are those of \<open>guarded_system\<close>; the properties of every reachable
  state and of every run follow from them.
\<close>

section \<open>Invariants of a system\<close>

text \<open>
  What the step lemmas of a system promise: its initial states satisfy the invariant, every step
  keeps it and relates the states before and after by a preorder.
\<close>

locale guarded_system =
  fixes starts :: "'s \<Rightarrow> bool" and step :: "'s \<Rightarrow> 's \<Rightarrow> bool" and inv :: "'s \<Rightarrow> bool" and within :: "'s \<Rightarrow> 's \<Rightarrow> bool"
  assumes start_inv: "starts s \<Longrightarrow> inv s"
    and step_inv: "inv s \<Longrightarrow> step s t \<Longrightarrow> inv t"
    and step_within: "inv s \<Longrightarrow> step s t \<Longrightarrow> within s t"
    and within_refl: "within s s"
    and within_trans: "within s t \<Longrightarrow> within t u \<Longrightarrow> within s u"
begin

lemma run_inv: "step\<^sup>*\<^sup>* s t \<Longrightarrow> inv s \<Longrightarrow> inv t"
  by (induction rule: rtranclp_induct) (auto intro: step_inv)

lemma run_within: "step\<^sup>*\<^sup>* s t \<Longrightarrow> inv s \<Longrightarrow> within s t"
proof (induction rule: rtranclp_induct)
  case base
  then show ?case by (simp add: within_refl)
next
  case (step t u)
  then show ?case using run_inv step_within within_trans by blast
qed

lemma reached_inv: "starts s \<Longrightarrow> step\<^sup>*\<^sup>* s t \<Longrightarrow> inv t"
  using start_inv run_inv by blast

lemma guarded_run:
  assumes "(\<lambda>s t. step s t \<and> P s)\<^sup>*\<^sup>* s t" "inv s"
  shows "inv t \<and> step\<^sup>*\<^sup>* s t"
proof -
  have "step\<^sup>*\<^sup>* s t" using assms(1) by (rule mono_rtranclp [rule_format, rotated]) simp
  with assms(2) show ?thesis using run_inv by blast
qed

end

section \<open>The running system\<close>

text \<open>
  The steps of the system once boot has entered the first task. In user mode the current task sets
  registers as it likes and stores where the PMP lets it; the privilege bits of \<open>mstatus\<close> are user
  mode. A trap runs the kernel from \<open>trap_entry\<close> to the return to user mode, by the trap exit or by
  the start of a fresh task. A kernel that has halted takes no step. The statics of the kernel are
  not in \<open>MEM\<close>: a store of a task into the kernel's own data, which the fixed entry 5 permits, is a
  change of \<open>MEM\<close> here and not of the statics.
\<close>

inductive sys_step :: "platform \<Rightarrow> kernel \<Rightarrow> kernel \<Rightarrow> bool" for pf where
  user_runs: "\<forall>a. mem a \<noteq> MEM k a \<longrightarrow> user_allowed (PMP k) Write a \<Longrightarrow> drop_bit 11 (ctx_mstatus regs) AND 3 = 0
    \<Longrightarrow> sys_step pf k (k\<lparr>live := regs, MEM := mem\<rparr>)"
| trap_returns: "timers_ok inp k \<Longrightarrow> trap_entry pf inp k = Returned r k' \<Longrightarrow> sys_step pf k k'"
| trap_enters: "timers_ok inp k \<Longrightarrow> trap_entry pf inp k = Entered k' \<Longrightarrow> sys_step pf k k'"

text \<open>A state boot enters user mode in.\<close>

definition boot_enters :: "platform \<Rightarrow> boot_env \<Rightarrow> kernel \<Rightarrow> bool" where
  "boot_enters pf e k \<longleftrightarrow> platform_ok pf \<and> unat (mtime_start e) + unat ticks_per_period < 2 ^ 64
     \<and> (\<exists>g regs mem. pmp_shape g \<and> warl_ok g \<and> rust_main pf e (kernel_statics g regs mem) = Entered k)"

lemma boot_entered:
  assumes "boot_enters pf e k"
  shows "sys_ok pf (uart_feature e) k" "roster pf k" "IPC k = seal_channels boot_channels"
proof -
  from assms obtain g regs mem where b: "platform_ok pf" "pmp_shape g" "warl_ok g"
    "unat (mtime_start e) + unat ticks_per_period < 2 ^ 64" "rust_main pf e (kernel_statics g regs mem) = Entered k"
    unfolding boot_enters_def by blast
  show "sys_ok pf (uart_feature e) k" "roster pf k" "IPC k = seal_channels boot_channels"
    using rust_main_entered [OF b] by auto
qed

lemma step_stores:
  assumes "sys_ok pf uart k" "sys_step pf k k'"
  shows "user_stores k k'"
  using assms(2)
proof (cases rule: sys_step.cases)
  case (user_runs mem regs)
  have "keeps k (k\<lparr>live := regs\<rparr>)" by (rule keeps_pc)
  moreover have "(k\<lparr>live := regs, MEM := mem\<rparr>)\<lparr>MEM := MEM k\<rparr> = k\<lparr>live := regs\<rparr>" by simp
  ultimately show ?thesis using user_runs by (simp add: user_stores_def)
next
  case (trap_returns inp r)
  then show ?thesis using trap_trap_entry [OF assms(1), of inp] by simp
next
  case (trap_enters inp)
  then show ?thesis using trap_trap_entry [OF assms(1), of inp] by simp
qed

text \<open>What no step changes.\<close>

definition confined :: "kernel \<Rightarrow> kernel \<Rightarrow> bool" where
  "confined k k' \<longleftrightarrow> (\<forall>i<MAX_TASKS. task_keeps (TASKS k ! i) (TASKS k' ! i))
     \<and> CHANNEL_OWNERS (IPC k') = CHANNEL_OWNERS (IPC k) \<and> CHANNELS_SEALED (IPC k') = CHANNELS_SEALED (IPC k)"

lemma stores_confined: "user_stores k k' \<Longrightarrow> kernel_inv k \<Longrightarrow> confined k k'"
  by (auto simp: user_stores_def keeps_def confined_def)

lemma stores_current:
  assumes "user_stores k k'" "kernel_inv k"
  shows "CURRENT_TASK k' = CURRENT_TASK k \<or> task_active (TASKS k ! CURRENT_TASK k')"
  using assms by (auto simp: user_stores_def keeps_def)

lemma stores_roster:
  assumes "user_stores k k'" "kernel_inv k" "roster pf k"
  shows "roster pf k'"
proof -
  have keep: "task_keeps (TASKS k ! i) (TASKS k' ! i)" if "i < 8" for i
    using stores_confined [OF assms(1,2)] that by (simp add: confined_def)
  have "kernel_inv (k'\<lparr>MEM := MEM k\<rparr>)" using assms by (simp add: user_stores_def keeps_def)
  then have "CURRENT_TASK k' < 8" by (simp add: kernel_inv_def shape_def)
  then have "CURRENT_TASK k' < 4"
    using stores_current [OF assms(1,2)] assms(3) by (auto simp: roster_def not_less)
  then show ?thesis using keep assms(3) by (auto simp: roster_def task_keeps_def task_identity_def)
qed

definition running :: "platform \<Rightarrow> bool \<Rightarrow> kernel \<Rightarrow> bool" where
  "running pf uart k \<longleftrightarrow> sys_ok pf uart k \<and> roster pf k"

interpretation sipahi: guarded_system "boot_enters pf e" "sys_step pf" "running pf (uart_feature e)" confined
  for pf e
proof unfold_locales
  show "running pf (uart_feature e) k" if "boot_enters pf e k" for k
    using boot_entered [OF that] by (simp add: running_def)
  fix k k' :: kernel
  assume k: "running pf (uart_feature e) k" "sys_step pf k k'"
  then have st: "user_stores k k'" and inv: "kernel_inv k" using step_stores by (auto simp: running_def sys_ok_def)
  show "running pf (uart_feature e) k'"
    using k user_stores_sys_ok [OF st] stores_roster [OF st inv] by (simp add: running_def)
  show "confined k k'" by (rule stores_confined [OF st inv])
qed (auto simp: confined_def intro: task_keeps_trans)

section \<open>Memory\<close>

lemma profiles_apart:
  assumes "get_pmp_profile t = Some p" "get_pmp_profile u = Some q" "t \<noteq> u"
    "r \<in> set (active_regions p)" "in_region a r" "s \<in> set (active_regions q)"
  shows "\<not> in_region a s"
proof -
  have "active_regions p \<noteq> []" "active_regions q \<noteq> []" using assms(4,6) by auto
  with assms native_profile_cases [of t p] native_profile_cases [of u q]
  consider "p = TASK_HELLO_PROFILE" "q = TASK_WORLD_PROFILE" | "p = TASK_WORLD_PROFILE" "q = TASK_HELLO_PROFILE"
    by (metis word_unat_eq_iff)
  then show ?thesis
    using assms(4-6) hello_regions [of r] hello_regions [of s] world_regions [of r] world_regions [of s]
    by cases (auto simp: in_region_def)
qed

text \<open>Native memory, seen from user mode: the current task reaches its own regions and nothing else.\<close>

lemma native_allowed:
  assumes run: "running pf uart k" and p: "get_pmp_profile (of_nat i) = Some p" "i < 8"
    and r: "r \<in> set (active_regions p)" "in_region a r"
  shows "user_allowed (PMP k) acc a \<longleftrightarrow> CURRENT_TASK k = i \<and> access_matches acc (reg_perm r)"
proof -
  let ?c = "CURRENT_TASK k"
  let ?t = "TASKS k ! ?c"
  have ok: "platform_ok pf" "linker_ok (linker pf)" "boot_entries pf uart (PMP k)" "?c < 4"
    "drop 8 (pmp_entries (PMP k)) = switch_entries (task_switch ?t)"
    and t: "t_id ?t = of_nat ?c" "t_is_sntm_native ?t = (2 \<le> ?c)"
      "?c < 2 \<Longrightarrow> t_pmp_addr_napot ?t = napot_encode (stack_base pf ?c) 13"
    using run by (auto simp: running_def sys_ok_def platform_ok_def pmp_current_def roster_def)
  have na: "unat NATIVE_TASK_BASE \<le> unat a"
    using generated_region_native [OF p(1) r(1)] r(2) by (simp add: in_region_def)
  have above: "pmp_data_end (linker pf) \<le> a"
    using na ok(2) by (simp add: linker_ok_def word_le_nat_alt)
  have "active_regions p \<noteq> []" using r(1) by auto
  then have i: "i = 2 \<or> i = 3"
    using native_profile_cases [OF p(1)] p(2) by (auto simp: unsigned_of_nat take_bit_eq_mod)
  show ?thesis
  proof (cases "?c < 2")
    case True
    have b: "unat (stack_base pf ?c) = unat (TASK_STACKS pf) + ?c * 8192" "8192 dvd unat (stack_base pf ?c)"
      using stack_base_unat [OF ok(1), of ?c] True ok(1) by (simp_all add: platform_ok_def)
    have "\<not> user_allowed (PMP k) acc a"
      using user_allowed_stack [OF ok(2,3) _ b(2) above, of acc] ok(1,5) t True b na
      by (simp add: task_switch_def platform_ok_def)
    with True i show ?thesis by auto
  next
    case False
    then have c: "?c = 2 \<or> ?c = 3" using ok(4) by auto
    then have "(of_nat ?c :: u8) = 2 \<or> (of_nat ?c :: u8) = 3" by auto
    from native_profile [OF this] obtain q where q: "get_pmp_profile (of_nat ?c) = Some q" by blast
    have al: "user_allowed (PMP k) acc a =
        (case find (in_region a) (active_regions q) of None \<Rightarrow> False | Some r \<Rightarrow> access_matches acc (reg_perm r))"
      using user_allowed_profile [OF ok(2,3) _ get_pmp_profile_ok [OF q] above, of acc] ok(5) t False q
      by (simp add: task_switch_def)
    show ?thesis
    proof (cases "?c = i")
      case True
      then have "q = p" using p q by simp
      then show ?thesis using al find_in_region [OF p(1) r] True by simp
    next
      case False
      have "find (in_region a) (active_regions q) = None"
        using profiles_apart [OF p(1) q _ r] False p(2) c i by (auto simp: find_None_iff)
      then show ?thesis using al False by simp
    qed
  qed
qed

lemma stores_native:
  assumes "running pf uart k" "user_stores k k'" "get_pmp_profile (of_nat i) = Some p" "i < 8"
    "r \<in> set (active_regions p)" "in_region a r" "MEM k' a \<noteq> MEM k a"
  shows "CURRENT_TASK k = i \<and> access_matches Write (reg_perm r)"
proof -
  have "user_allowed (PMP k) Write a" using assms(2,7) by (simp add: user_stores_def)
  then show ?thesis using native_allowed [OF assms(1,3-6)] by simp
qed

section \<open>Properties\<close>






end
