(* ===== verification/Demo.thy ===== *)
theory Demo
  imports System
begin

text \<open>
  An example platform, boot environment and kernel on which the hypotheses of the properties hold,
  and the properties applied there: system calls of the first task, a timer tick, an exit that
  switches tasks, and a run of the system from boot.
\<close>

section \<open>A booted kernel\<close>

text \<open>A kernel as boot leaves it, and the state in which it enters task 0.\<close>

definition demo_booted :: kernel where
  "demo_booted = (kernel_statics (init_pmp demo_linker False demo_pmp) ctx_zero (\<lambda>_. 0))
     \<lparr>TASKS := [legacy_task demo_platform 0 (task_a_config demo_env), legacy_task demo_platform 1 (task_b_config demo_env),
        native_task demo_platform hello_config 0x80600000 0x80608000,
        native_task demo_platform world_config 0x80700000 0x80708000,
        task_empty, task_empty, task_empty, task_empty],
      TASK_COUNT := 4, IPC := seal_channels boot_channels, BLACKBOX := bb_init bb_zero\<rparr>"

definition demo_kernel :: kernel where
  "demo_kernel = first_entered demo_booted"

lemma demo_boot_state:
  "boot_state demo_platform (init_pmp demo_linker False demo_pmp) (seal_channels boot_channels) 4 demo_booted"
proof -
  have four: "i < 4 \<Longrightarrow> i = 0 \<or> i = 1 \<or> i = 2 \<or> i = 3" for i :: nat by auto
  have eight: "4 \<le> i \<and> i < 8 \<Longrightarrow> i = 4 \<or> i = 5 \<or> i = 6 \<or> i = 7" for i :: nat by auto
  have pr: "\<exists>p. get_pmp_profile 2 = Some p \<and> 0 < region_count p" "\<exists>p. get_pmp_profile 3 = Some p \<and> 0 < region_count p"
    by (rule native_profile [of 2], simp, auto simp: word_gt_0) (rule native_profile [of 3], simp, auto simp: word_gt_0)
  have "boot_task demo_platform i (TASKS demo_booted ! i)" if "i < 4" for i
    using four [OF that] pr by (elim disjE) (simp_all add: demo_booted_def boot_task_def legacy_task_def native_task_def
        task_a_config_def task_b_config_def hello_config_def world_config_def)
  moreover have "TASKS demo_booted ! i = task_empty" if "4 \<le> i \<and> i < 8" for i
    using eight [OF that] by (elim disjE) (simp_all add: demo_booted_def)
  moreover have "ipc_inv (seal_channels boot_channels)"
    by (simp add: seal_channels_inv boot_channels_def legacy_channels_def assign_channel_inv)
  ultimately show ?thesis
    using demo_integrity [of False]
    by (simp add: boot_state_def) (simp add: demo_booted_def kernel_statics_def bb_init_inv broker_init_inv restart_counts_init_def)
qed

lemma demo_sys_ok: "sys_ok demo_platform False demo_kernel"
proof -
  have "linker demo_platform = demo_linker" by (simp add: demo_platform_def)
  then show ?thesis
    unfolding demo_kernel_def using init_pmp_inv [OF demo_ok, of False] boot_kernel_entries [OF demo_ok, of False]
    by (intro first_entered_sys_ok [OF demo_platform_ok demo_boot_state]) (simp_all add: boot_entries_def)
qed

lemma demo_inv: "kernel_inv demo_kernel"
  using demo_sys_ok by (simp add: sys_ok_def)

lemma demo_fields:
  "CURRENT_TASK demo_kernel = 0" "TASK_COUNT demo_kernel = 4" "TICK_COUNT demo_kernel = 0" "mtimecmp demo_kernel = 0"
  "CAP_FAIL_COUNT demo_kernel = replicate 8 0" "IPC demo_kernel = seal_channels boot_channels"
  "TASKS demo_kernel ! 0 = (legacy_task demo_platform 0 (task_a_config demo_env))\<lparr>t_state := Running\<rparr>"
  by (simp_all add: demo_kernel_def first_entered_def demo_booted_def kernel_statics_def Let_def)

text \<open>Task 0 asks to exit.\<close>

definition exit_input :: trap_input where
  "exit_input = \<lparr>mcause = 8, mtval = 0, mtime = 6000, cycles = (0, 10), reg_a7 = 5, reg_a0 = 0, reg_a1 = 0, reg_a2 = 0, reg_a3 = 0\<rparr>"

definition just_started :: "kernel \<Rightarrow> bool" where
  "just_started k \<longleftrightarrow> kernel_inv k \<and> CURRENT_TASK k = 0 \<and> TASK_COUNT k = 4
     \<and> (\<forall>i<4. t_state (TASKS k ! i) = (if i = 0 then Running else Ready) \<and> t_priority (TASKS k ! i) \<noteq> 255)
     \<and> drop_bit 11 (ctx_mstatus (live k)) AND 3 = 0"

lemma yield_switches:
  assumes "kernel_inv k" "TASK_COUNT k = 4" "t_state (TASKS k ! CURRENT_TASK k) = Isolated"
    "t_state (TASKS k ! i) = Ready" "t_priority (TASKS k ! i) \<noteq> 255" "i < 4"
  obtains k' where "schedule_yield pf k \<in> {Returned () k', Entered k'}" "keeps k k'" "CURRENT_TASK k' \<noteq> CURRENT_TASK k"
proof -
  let ?m = "do_priority_select_and_switch pf (CURRENT_TASK k) k"
  have y: "schedule_yield pf k = ?m" using assms(2) by (simp add: schedule_yield_def)
  obtain k' where k': "?m \<in> {Returned () k', Entered k'}" and st: "is_selectable_by_scheduler (t_state (TASKS k' ! i))"
  proof (rule switch_cases [OF assms(1), of pf], goal_cases)
    case 1
    then show ?case using assms(4) by (auto simp: is_selectable_by_scheduler_def)
  next
    case (2 b)
    have sh: "shape k" using assms(1) by (simp add: kernel_inv_def)
    have b: "b < 8" using best_upto_select(1) [OF sh 2(2)] assms(2) by simp
    have "is_selectable_by_scheduler (t_state (TASKS (switched pf b k) ! i))"
      using switched_fields(4) [OF sh b, of pf] switched_fields(5) [OF sh b, of i pf] assms(4,6)
      by (cases "i = b") (auto simp: is_selectable_by_scheduler_def)
    then show ?case using 2(1,3) by blast
  qed
  have keep: "keeps k k'" using keeps_switch [OF assms(1), of pf] k' by auto
  have c: "CURRENT_TASK k < 8" "TASK_COUNT k' = 4" using assms(1,2) keep by (auto simp: kernel_inv_def shape_def keeps_def)
  have tk: "task_keeps (TASKS k ! j) (TASKS k' ! j)" if "j < 8" for j using keep assms(1) that by (simp add: keeps_def)
  have "runs_highest k'" using switch_runs_highest [OF assms(1) _ k'] assms(2) by simp
  moreover have "t_priority (TASKS k' ! i) \<noteq> 255" using tk [of i] assms(5,6) by (simp add: task_keeps_def task_identity_def)
  ultimately have "t_state (TASKS k' ! CURRENT_TASK k') = Running" using st assms(6) c(2) by (auto simp: runs_highest_def)
  moreover have "t_state (TASKS k' ! CURRENT_TASK k) = Isolated" using tk [OF c(1)] assms(3) by (simp add: task_keeps_def)
  ultimately have "CURRENT_TASK k' \<noteq> CURRENT_TASK k" by auto
  then show ?thesis using that k' keep y by metis
qed

lemma isolate_started:
  assumes k: "kernel_inv k" "TASK_COUNT k = 4" and st: "\<forall>i<4. 0 < i \<longrightarrow> t_state (TASKS k ! i) = Ready"
  shows "isolate_task 0 k = Returned () (isolated 0 k)"
proof -
  have sh: "shape k" and len: "length (TASKS k) = 8" using k by (auto simp: kernel_inv_def shape_def)
  have "take 4 (TASKS k) = map ((!) (TASKS k)) [0..<4]" using len by (intro nth_equalityI) simp_all
  moreover have "[0..<4] = [0, 1, 2, 3 :: nat]" by (simp add: upt_rec)
  ultimately have "take 4 (TASKS k) = [TASKS k ! 0, TASKS k ! 1, TASKS k ! 2, TASKS k ! 3]" by simp
  then have "isolated_count (isolated 0 k) < 2"
    using k(2) st by (simp add: isolated_count_def isolated_def take_update_swap)
  then show ?thesis using isolate_task_eq [OF sh, of 0] k(2) by simp
qed

lemma exit_switches:
  assumes k: "just_started k"
  obtains r k' where "trap_entry pf exit_input k \<in> {Returned r k', Entered k'}" "CURRENT_TASK k' \<noteq> 0"
    "t_state (TASKS k' ! 0) = Isolated"
proof -
  let ?k = "k\<lparr>frame_mepc := ctx_mepc (live k) + 4\<rparr>"
  let ?t = "(TASKS k ! 0)\<lparr>t_syscall_count := t_syscall_count (TASKS k ! 0) + 1\<rparr>"
  let ?s = "?k\<lparr>TASKS := (TASKS k)[0 := ?t]\<rparr>"
  have inv: "kernel_inv k" and c: "CURRENT_TASK k = 0" "TASK_COUNT k = 4"
    and mpp: "drop_bit 11 (ctx_mstatus (live k)) AND 3 = 0"
    using k by (auto simp: just_started_def)
  have st: "t_state (TASKS k ! i) = (if i = 0 then Running else Ready)" "t_priority (TASKS k ! i) \<noteq> 255" if "i < 4" for i
    using k that by (auto simp: just_started_def)
  have len: "length (TASKS k) = 8" using inv by (simp add: kernel_inv_def shape_def)
  have inc: "increment_syscall_count ?k = Returned () ?s" using c len by (simp add: increment_syscall_count_def map_task_def)
  have kinv: "kernel_inv ?k" using keeps_pc(1) [of k] inv by (simp add: keeps_def)
  then have "shape ?k" by (simp add: kernel_inv_def)
  then obtain s where "increment_syscall_count ?k = Returned () s" "quiet ?k s" using increment_syscall_eq by blast
  then have sinv: "kernel_inv ?s" using inc quiet_kernel_inv [OF kinv] by simp
  have iso: "isolate_task 0 ?s = Returned () (isolated 0 ?s)"
    using st c len by (intro isolate_started [OF sinv]) auto
  let ?i = "isolated 0 ?s"
  have iinv: "kernel_inv ?i"
    using quiet_kernel_inv [OF sinv] quiet_isolate_task [of ?s 0] iso sinv by (auto simp: kernel_inv_def)
  obtain k' where y: "schedule_yield pf ?i \<in> {Returned () k', Entered k'}" "keeps ?i k'" "CURRENT_TASK k' \<noteq> 0"
    by (rule yield_switches [OF iinv, of 1 pf]) (use st [of 1] c len in \<open>auto simp: isolated_def\<close>)
  have "t_state (TASKS k' ! 0) = Isolated"
    using y(2) iinv len by (auto simp: keeps_def task_keeps_def isolated_def)
  moreover have "\<exists>r k2. trap_entry pf exit_input k \<in> {Returned r k2, Entered k2} \<and> TASKS k2 = TASKS k' \<and> CURRENT_TASK k2 = CURRENT_TASK k'"
    using y(1) inc iso c mpp
    by (auto simp: trap_entry_def exit_input_def trap_handler_def verify_mpp_is_user_mode_def dispatch_def
        SYSCALL_TABLE_def sys_exit_def current_task_id_def Let_def wcet_update_def)
  ultimately show ?thesis using that y(3) by metis
qed

lemma demo_started: "just_started demo_kernel"
proof -
  have four: "i < 4 \<Longrightarrow> i = 0 \<or> i = 1 \<or> i = 2 \<or> i = 3" for i :: nat by auto
  have "t_state (TASKS demo_kernel ! i) = (if i = 0 then Running else Ready) \<and> t_priority (TASKS demo_kernel ! i) \<noteq> 255"
    if "i < 4" for i
    using four [OF that] by (elim disjE) (simp_all add: demo_kernel_def first_entered_def demo_booted_def Let_def legacy_task_def
        native_task_def task_a_config_def task_b_config_def hello_config_def world_config_def)
  moreover have "drop_bit 11 (ctx_mstatus (live demo_kernel)) AND 3 = 0"
    by (simp add: demo_kernel_def first_entered_def demo_booted_def Let_def legacy_task_def fresh_context_def)
  ultimately show ?thesis using demo_inv demo_fields by (simp add: just_started_def)
qed

lemma demo_ptr: "is_valid_user_ptr 0 0x80020100 64 acc demo_kernel = Returned True demo_kernel"
  using demo_fields by (simp add: is_valid_user_ptr_def is_task_sntm_native_def task_stack_range_def get_task_def Let_def
      legacy_task_def task_a_config_def stack_base_def demo_platform_def checked_add_def)

lemma demo_budget: "\<exists>k'. budget_step demo_platform 0 demo_kernel = Returned () k'"
  using demo_fields demo_inv by (simp add: budget_step_def get_task_def map_task_def Let_def legacy_task_def task_a_config_def kernel_inv_def shape_def saturating_sub_def)

lemma demo_ipc:
  "CHANNEL_OWNERS (IPC demo_kernel) = [(0, 1), (1, 0), (2, 3)] @ replicate 5 (0xFF, 0xFF)"
  "IPC_CHANNELS (IPC demo_kernel) = replicate 8 spsc_new"
  using demo_fields(6) boot_channel_owners
  by (simp_all add: seal_channels_def) (simp add: boot_channels_def legacy_channels_def assign_channel_def ipc_init_def)

lemma demo_send: "\<exists>k'. sys_ipc_send 0 0x80020100 demo_kernel = Returned E_OK k'"
  using demo_fields demo_ptr demo_ipc demo_inv
  by (auto simp: sys_ipc_send_def Let_def current_task_id_def can_send_def check_ipc_rate_def increment_ipc_send_def
      map_task_def get_task_def get_channel_def legacy_task_def task_empty_def kernel_inv_def shape_def spsc_send_def spsc_new_def)

lemma demo_cap:
  "sys_cap_invoke demo_platform 0x80 3 1 0 demo_kernel =
     Returned E_NO_CAPABILITY (demo_kernel\<lparr>CAP_FAIL_COUNT := (replicate 8 0)[0 := 1]\<rparr>)"
proof -
  have "\<not> local_cap_check 0 3 1"
    by (simp add: local_cap_check_def cap_from_u8_def LOCAL_CAP_TABLE_def cap_allows_def)
  moreover have "unat (0 :: u8) < 8" by simp
  ultimately show ?thesis
    using demo_fields by (simp add: sys_cap_invoke_def Let_def current_task_id_def count_cap_result_eq saturating_add_def word_le_nat_alt)
qed


theorem valid_user_ptr_sound_witness:
  "user_allowed (PMP demo_kernel) Write 0x80020105"
proof -
  have "is_valid_user_ptr (current_task_id demo_kernel) 0x80020100 64 Write demo_kernel = Returned True demo_kernel"
    using demo_ptr demo_fields(1) by (simp add: current_task_id_def)
  with valid_user_ptr_sound [of demo_platform demo_kernel False] demo_sys_ok
  have "\<forall>i<64. user_allowed (PMP demo_kernel) Write (0x80020100 + of_nat i)" by (fastforce simp: sys_ok_def)
  then show ?thesis by (auto dest: spec [of _ 5])
qed

theorem sys_ipc_send_exact_witness:
  "\<exists>k'. sys_ipc_send 0 0x80020100 demo_kernel = Returned E_OK k' \<and> channel k' 0 = [read_msg (MEM demo_kernel) 0x80020100]"
proof -
  have "channel demo_kernel 0 = []" using demo_ipc by (simp add: channel_def spsc_content_def spsc_len_def spsc_new_def)
  then show ?thesis using sys_ipc_send_exact [OF demo_inv, of 0 "0x80020100"] demo_send by fastforce
qed

theorem sys_ipc_recv_exact_witness:
  "\<exists>r k'. sys_ipc_recv 1 0x80020100 demo_kernel = Returned r k' \<and> r \<noteq> E_OK \<and> MEM k' = MEM demo_kernel"
proof -
  have "channel demo_kernel 1 = []" using demo_ipc by (simp add: channel_def spsc_content_def spsc_len_def spsc_new_def)
  then show ?thesis using sys_ipc_recv_exact [OF demo_inv, of 1 "0x80020100"] by fastforce
qed

theorem dispatch_no_kernel_address_witness:
  "\<exists>r k'. dispatch demo_platform (0, 10) 6 0x80 3 1 0 demo_kernel = Returned r k' \<and> \<not> (0x80000000 \<le> r \<and> r < 0x80030000)"
proof -
  have "dispatch demo_platform (0, 10) 6 0x80 3 1 0 demo_kernel = Returned E_INVALID_SYSCALL demo_kernel"
    by (simp add: dispatch_def)
  moreover have "kernel_end demo_platform \<le> NATIVE_TASK_BASE" "text_start (linker demo_platform) = 0x80000000" "kernel_end demo_platform = 0x80030000"
    by (simp_all add: demo_platform_def demo_linker_def)
  ultimately show ?thesis using dispatch_no_kernel_address [of demo_platform "(0, 10)" 6 "0x80" 3 1 0 demo_kernel] by fastforce
qed

theorem cap_denials_isolate_witness:
  "\<exists>k'. sys_cap_invoke demo_platform 0x80 3 1 0 demo_kernel = Returned E_NO_CAPABILITY k' \<and> CAP_FAIL_COUNT k' ! 0 = 1"
  using cap_denials_isolate [OF demo_inv _ _ demo_cap, of 0] demo_fields demo_cap by auto

theorem local_cap_resource_truncated_witness:
  "sys_cap_invoke demo_platform 0x80 0x100 2 0 demo_kernel = sys_cap_invoke demo_platform 0x80 0 2 0 demo_kernel"
  using local_cap_resource_truncated [of "0x100" demo_platform 2 0 demo_kernel] by simp

lemma demo_timers: "timers_ok exit_input demo_kernel"
  using demo_fields by (simp add: timers_ok_def exit_input_def)


theorem trap_fail_closed_witness:
  "\<exists>msg s. trap_entry demo_platform (exit_input\<lparr>mcause := 12\<rparr>) demo_kernel = Halted (Fatal msg) s \<and> TASKS s = TASKS demo_kernel"
  using trap_fail_closed [of "exit_input\<lparr>mcause := 12\<rparr>" demo_platform demo_kernel] by auto

lemma demo_tasks:
  "TASKS demo_kernel = [(legacy_task demo_platform 0 (task_a_config demo_env))\<lparr>t_state := Running\<rparr>,
     legacy_task demo_platform 1 (task_b_config demo_env), native_task demo_platform hello_config 0x80600000 0x80608000,
     native_task demo_platform world_config 0x80700000 0x80708000, task_empty, task_empty, task_empty, task_empty]"
  by (simp add: demo_kernel_def first_entered_def demo_booted_def Let_def)

lemma demo_degraded: "\<not> DEGRADED demo_kernel"
  by (simp add: demo_kernel_def first_entered_def demo_booted_def kernel_statics_def Let_def)

lemma demo_tick: "\<exists>s. tick_phases demo_platform demo_kernel = Returned () s"
proof -
  have v: "verify_pmp_integrity (PMP demo_kernel)" using demo_inv by (simp add: kernel_inv_def)
  have up: "[0..<4] = [0, 1, 2, 3 :: nat]" by (simp add: upt_rec)
  have le: "\<not> 10 \<le> (1 :: u32)" "\<not> 50 \<le> (1 :: u32)" "\<not> 100 \<le> (1 :: u32)" by (simp_all add: word_le_nat_alt)
  show ?thesis
    using v demo_degraded
    by (simp add: tick_phases_def check_integrity_def demo_fields try_recover_from_degrade_def up watchdog_step_def
      get_task_def map_task_def Let_def demo_tasks update_first_def period_step_def legacy_task_def native_task_def
      task_a_config_def task_b_config_def hello_config_def world_config_def should_watchdog_timeout_def budget_step_def saturating_sub_def task_empty_def saturating_add_def le)
qed



section \<open>A run of the system\<close>

text \<open>Boot on the example platform enters user mode, and task 0 sets its registers.\<close>

lemma demo_boots:
  obtains k0 where "boot_enters demo_platform demo_env k0" "just_started (k0\<lparr>live := ctx_zero\<rparr>)"
    "timers_ok exit_input (k0\<lparr>live := ctx_zero\<rparr>)" "sys_step demo_platform k0 (k0\<lparr>live := ctx_zero\<rparr>)"
proof -
  let ?run = "rust_main demo_platform demo_env (kernel_statics demo_pmp ctx_zero (\<lambda>_. 0))"
  have out: "case ?run of Halted r s \<Rightarrow> False | Returned x s \<Rightarrow> False
    | Entered k \<Rightarrow> \<exists>h b. boot_state demo_platform h (seal_channels boot_channels) 4 b \<and> mtimecmp b = mtime_start demo_env + ticks_per_period
        \<and> k = first_entered b"
    using rust_main_outcome [OF demo_platform_ok demo_timer, of demo_pmp ctx_zero "\<lambda>_. 0"] demo_healthy
    by (auto split: outcome.splits)
  then obtain k0 h b where k0: "?run = Entered k0" "boot_state demo_platform h (seal_channels boot_channels) 4 b"
    "mtimecmp b = mtime_start demo_env + ticks_per_period" "k0 = first_entered b" by (auto split: outcome.splits)
  have en: "boot_enters demo_platform demo_env k0"
    using k0(1) demo_platform_ok demo_timer demo_ok by (auto simp: boot_enters_def)
  have inv: "kernel_inv (k0\<lparr>live := ctx_zero\<rparr>)"
    using boot_entered(1) [OF en] keeps_pc(2) [of k0 ctx_zero] by (auto simp: sys_ok_def keeps_def)
  have b: "length (TASKS b) = 8" "TASK_COUNT b = 4" "TICK_COUNT b = 0" using k0(2) by (auto simp: boot_state_def)
  have bt: "boot_task demo_platform i (TASKS b ! i)" if "i < 4" for i using k0(2) that by (simp add: boot_state_def)
  have four: "i < 4 \<Longrightarrow> i = 0 \<or> i = 1 \<or> i = 2 \<or> i = 3" for i :: nat by auto
  have "t_priority (TASKS b ! i) \<noteq> 255 \<and> t_state (TASKS b ! i) = Ready" if "i < 4" for i
    using bt [OF that] four [OF that] by (elim disjE) (auto simp: boot_task_def)
  then have js: "just_started (k0\<lparr>live := ctx_zero\<rparr>)"
    using inv b k0(4) by (auto simp: just_started_def first_entered_def Let_def nth_list_update ctx_zero_def)
  have tm: "timers_ok exit_input (k0\<lparr>live := ctx_zero\<rparr>)"
    using k0(3,4) b by (simp add: timers_ok_def exit_input_def first_entered_def Let_def demo_env_def ticks_per_period_def)
  have "sys_step demo_platform k0 (k0\<lparr>live := ctx_zero, MEM := MEM k0\<rparr>)"
    by (rule user_runs) (simp_all add: ctx_zero_def)
  then show ?thesis using that [OF en js tm] by simp
qed


text \<open>The first byte of task 2's code.\<close>

lemma demo_region:
  obtains p r where "get_pmp_profile (of_nat 2) = Some p" "r \<in> set (active_regions p)" "in_region 0x80600000 r" "reg_perm r = PERM_RX"
proof -
  have p: "get_pmp_profile (of_nat 2) = Some TASK_HELLO_PROFILE" by (simp add: get_pmp_profile_def PMP_PROFILES_def)
  let ?r = "active_regions TASK_HELLO_PROFILE ! 0"
  have r: "?r = \<lparr>reg_base = 0x80600000, reg_size = 0x4000, reg_encoding = Napot 0x201807ff 14, reg_perm = PERM_RX\<rparr>"
    unfolding active_generated by (simp add: TASK_HELLO_PROFILE_def)
  have "?r \<in> set (active_regions TASK_HELLO_PROFILE)"
    using native_regions(1) [of TASK_HELLO_PROFILE] by (intro nth_mem) simp
  then show ?thesis using that [OF p] r by (simp add: in_region_def)
qed





end
