(* ===== verification/Rust_Text.thy ===== *)
theory Rust_Text
  imports Prelude
begin

text \<open>
  The parts of Rust's \<open>str\<close>, \<open>Vec\<close> and integer formatting that the host tools under
  \<open>src/tools\<close> use. A \<open>char\<close> of the model is the Unicode scalar with the same number, so texts
  are Latin-1; this is enough for manifests, reports and PEM files, which are ASCII. Results of the
  tools are sums: \<open>Inl\<close> an error, \<open>Inr\<close> a value.
\<close>

section \<open>Results\<close>

text \<open>The \<open>?\<close> operator, and the way the tools turn a vector of errors into a \<open>Result\<close>.\<close>

fun and_then :: "'e + 'a \<Rightarrow> ('a \<Rightarrow> 'e + 'b) \<Rightarrow> 'e + 'b" where
  "and_then (Inl e) f = Inl e"
| "and_then (Inr x) f = f x"

lemma and_then_Inr_iff: "and_then r f = Inr y \<longleftrightarrow> (\<exists>x. r = Inr x \<and> f x = Inr y)"
  by (cases r) auto

definition errs_result :: "'e list \<Rightarrow> 'e list + unit" where
  "errs_result errs = (if errs = [] then Inr () else Inl errs)"

fun err_list :: "'e list + unit \<Rightarrow> 'e list" where
  "err_list (Inl es) = es"
| "err_list (Inr _) = []"

lemma err_list_errs_result [simp]: "err_list (errs_result es) = es"
  by (simp add: errs_result_def)

lemma errs_result_Inr_iff [simp]: "errs_result es = Inr () \<longleftrightarrow> es = []"
  by (simp add: errs_result_def)

section \<open>Characters and substrings\<close>

definition is_whitespace :: "char \<Rightarrow> bool" where
  "is_whitespace c = (let n = (of_char c :: nat) in 9 \<le> n \<and> n \<le> 13 \<or> n = 32 \<or> n = 0x85 \<or> n = 0xA0)"

definition is_ascii_uppercase :: "char \<Rightarrow> bool" where
  "is_ascii_uppercase c = (let n = (of_char c :: nat) in 65 \<le> n \<and> n \<le> 90)"

definition is_ascii_alphanumeric :: "char \<Rightarrow> bool" where
  "is_ascii_alphanumeric c =
     (let n = (of_char c :: nat) in 48 \<le> n \<and> n \<le> 57 \<or> 65 \<le> n \<and> n \<le> 90 \<or> 97 \<le> n \<and> n \<le> 122)"

definition trim_start :: "string \<Rightarrow> string" where
  "trim_start s = dropWhile is_whitespace s"

definition trim_end :: "string \<Rightarrow> string" where
  "trim_end s = rev (dropWhile is_whitespace (rev s))"

definition trim :: "string \<Rightarrow> string" where
  "trim s = trim_end (trim_start s)"

definition starts_with :: "string \<Rightarrow> string \<Rightarrow> bool" where
  "starts_with p s = (take (length p) s = p)"

definition strip_prefix :: "string \<Rightarrow> string \<Rightarrow> string option" where
  "strip_prefix p s = (if starts_with p s then Some (drop (length p) s) else None)"

text \<open>\<open>str::find\<close>: the index of the first occurrence.\<close>

fun str_find :: "string \<Rightarrow> string \<Rightarrow> nat option" where
  "str_find p [] = (if p = [] then Some 0 else None)"
| "str_find p (c # s) = (if starts_with p (c # s) then Some 0 else map_option Suc (str_find p s))"

text \<open>
  \<open>str::lines\<close>: the pieces between newlines, without the newline and a carriage return before it;
  a last piece that is empty is not a line.
\<close>

fun split_lines :: "string \<Rightarrow> string \<Rightarrow> string list" where
  "split_lines acc [] = (if acc = [] then [] else [rev acc])"
| "split_lines acc (c # s) =
     (if c = CHR 0x0A
      then rev (case acc of [] \<Rightarrow> acc | r # acc' \<Rightarrow> if r = CHR 0x0D then acc' else acc) # split_lines [] s
      else split_lines (c # acc) s)"

definition str_lines :: "string \<Rightarrow> string list" where
  "str_lines s = split_lines [] s"

text \<open>\<open>Path::join\<close> on Unix paths.\<close>

definition path_join :: "string \<Rightarrow> string \<Rightarrow> string" where
  "path_join a b = (if starts_with ''/'' b then b else if a = [] \<or> last a = CHR ''/'' then a @ b else a @ ''/'' @ b)"

lemma starts_with_append [simp]: "starts_with p (p @ s)"
  by (simp add: starts_with_def)

lemma strip_prefix_append [simp]: "strip_prefix p (p @ s) = Some s"
  by (simp add: strip_prefix_def)

lemma trim_end_id: "s = [] \<or> \<not> is_whitespace (last s) \<Longrightarrow> trim_end s = s"
  by (cases s rule: rev_cases) (auto simp: trim_end_def)

lemma trim_id: "s = [] \<or> \<not> is_whitespace (hd s) \<and> \<not> is_whitespace (last s) \<Longrightarrow> trim s = s"
  unfolding trim_def using trim_end_id [of s] by (cases s) (auto simp: trim_start_def trim_end_def)

lemma trim_Nil_iff: "trim s = [] \<longleftrightarrow> list_all is_whitespace s"
proof -
  have "trim s = [] \<longleftrightarrow> (\<forall>c\<in>set (trim_start s). is_whitespace c)"
    by (simp add: trim_def trim_end_def dropWhile_eq_Nil_conv)
  also have "\<dots> \<longleftrightarrow> (\<forall>c\<in>set s. is_whitespace c)"
    unfolding trim_start_def by (induction s) auto
  finally show ?thesis by (simp add: list_all_iff)
qed

lemma split_lines_line:
  assumes "CHR 0x0A \<notin> set l" "l = [] \<or> last l \<noteq> CHR 0x0D" "acc = [] \<or> l \<noteq> []"
  shows "split_lines acc (l @ CHR 0x0A # s) = (rev acc @ l) # split_lines [] s"
  using assms
proof (induction l arbitrary: acc)
  case Nil
  then show ?case by simp
next
  case (Cons c l)
  show ?case
  proof (cases "l = []")
    case True
    then show ?thesis using Cons.prems by auto
  next
    case False
    then show ?thesis using Cons.prems Cons.IH [of "c # acc"] by auto
  qed
qed

text \<open>Whole lines joined with newlines come back as they were.\<close>

definition is_line :: "string \<Rightarrow> bool" where
  "is_line l \<longleftrightarrow> CHR 0x0A \<notin> set l \<and> (l = [] \<or> last l \<noteq> CHR 0x0D)"

definition unlines :: "string list \<Rightarrow> string" where
  "unlines ls = concat (map (\<lambda>l. l @ [CHR 0x0A]) ls)"

lemma unlines_simps [simp]:
  "unlines [] = []" "unlines (l # ls) = l @ CHR 0x0A # unlines ls"
  "unlines (xs @ ys) = unlines xs @ unlines ys"
  by (simp_all add: unlines_def)

lemma str_lines_unlines: "list_all is_line ls \<Longrightarrow> str_lines (unlines ls) = ls"
  unfolding str_lines_def
  by (induction ls) (simp_all add: split_lines_line [where acc = "[]", simplified] is_line_def)

section \<open>Numbers as text\<close>

text \<open>\<open>char::to_digit\<close>, \<open>from_str_radix\<close> and \<open>parse\<close> for unsigned integers below \<open>bound\<close>.\<close>

definition to_digit :: "nat \<Rightarrow> char \<Rightarrow> nat option" where
  "to_digit radix c =
     (let n = of_char c;
          v = (if 48 \<le> n \<and> n \<le> 57 then Some (n - 48)
               else if 97 \<le> n \<and> n \<le> 122 then Some (n - 87)
               else if 65 \<le> n \<and> n \<le> 90 then Some (n - 55) else None)
      in case v of Some d \<Rightarrow> if d < radix then Some d else None | None \<Rightarrow> None)"

fun digits_value :: "nat \<Rightarrow> nat \<Rightarrow> string \<Rightarrow> nat option" where
  "digits_value radix acc [] = Some acc"
| "digits_value radix acc (c # s) =
     (case to_digit radix c of None \<Rightarrow> None | Some d \<Rightarrow> digits_value radix (acc * radix + d) s)"

definition from_str_radix :: "nat \<Rightarrow> nat \<Rightarrow> string \<Rightarrow> nat option" where
  "from_str_radix radix bound s =
     (let digits = (case s of c # rest \<Rightarrow> if c = CHR ''+'' \<and> rest \<noteq> [] then rest else s | [] \<Rightarrow> [])
      in if digits = [] then None
         else case digits_value radix 0 digits of
             Some n \<Rightarrow> if n < bound then Some n else None
           | None \<Rightarrow> None)"

definition digit_char :: "nat \<Rightarrow> char" where
  "digit_char d = char_of (if d < 10 then 48 + d else 87 + d)"

text \<open>The digits of \<open>{}\<close> and \<open>{:x}\<close>.\<close>

fun fmt_radix :: "nat \<Rightarrow> nat \<Rightarrow> string" where
  "fmt_radix radix n =
     (if radix < 2 \<or> n < radix then [digit_char n]
      else fmt_radix radix (n div radix) @ [digit_char (n mod radix)])"

declare fmt_radix.simps [simp del]

abbreviation fmt_dec :: "nat \<Rightarrow> string" where "fmt_dec \<equiv> fmt_radix 10"
abbreviation fmt_hex :: "nat \<Rightarrow> string" where "fmt_hex \<equiv> fmt_radix 16"

lemma to_digit_char: "d < radix \<Longrightarrow> radix \<le> 36 \<Longrightarrow> to_digit radix (digit_char d) = Some d"
  by (simp add: to_digit_def digit_char_def Let_def)

lemma digits_value_append:
  "digits_value radix acc (s @ t) =
     (case digits_value radix acc s of None \<Rightarrow> None | Some n \<Rightarrow> digits_value radix n t)"
  by (induction s arbitrary: acc) (simp_all split: option.splits)

lemma digits_value_fmt:
  "2 \<le> radix \<Longrightarrow> radix \<le> 36 \<Longrightarrow> digits_value radix 0 (fmt_radix radix n) = Some n"
proof (induction n rule: less_induct)
  case (less n)
  show ?case
  proof (cases "n < radix")
    case True
    then show ?thesis using less.prems by (simp add: fmt_radix.simps to_digit_char)
  next
    case False
    then have "n div radix < n" using less.prems by (intro div_less_dividend) auto
    then show ?thesis using less False
      by (subst fmt_radix.simps) (simp add: digits_value_append to_digit_char)
  qed
qed

lemma fmt_radix_not_Nil [simp]: "fmt_radix radix n \<noteq> []"
  by (subst fmt_radix.simps) simp

lemma fmt_radix_chars:
  assumes "2 \<le> radix" "radix \<le> 36" "c \<in> set (fmt_radix radix n)"
  shows "\<exists>d<radix. c = digit_char d"
  using assms
proof (induction n rule: less_induct)
  case (less n)
  show ?case
  proof (cases "n < radix")
    case True
    then show ?thesis using less.prems by (auto simp: fmt_radix.simps)
  next
    case False
    then have lt: "n div radix < n" using less.prems by (intro div_less_dividend) auto
    have "c = digit_char (n mod radix) \<or> c \<in> set (fmt_radix radix (n div radix))"
      using less.prems False fmt_radix.simps [of radix n] by auto
    then show ?thesis
    proof
      assume "c = digit_char (n mod radix)"
      then show ?thesis using less.prems by (intro exI [of _ "n mod radix"]) simp
    next
      assume "c \<in> set (fmt_radix radix (n div radix))"
      then show ?thesis using less.IH [OF lt] less.prems by blast
    qed
  qed
qed

lemma digit_char_plain:
  assumes "d < 36"
  shows "\<not> is_whitespace (digit_char d)" "digit_char d \<noteq> CHR ''+''"
    "digit_char d \<noteq> CHR 0x0A" "digit_char d \<noteq> CHR 0x0D"
proof -
  have n: "(of_char (digit_char d) :: nat) = (if d < 10 then 48 + d else 87 + d)"
    using assms by (simp add: digit_char_def)
  then show "\<not> is_whitespace (digit_char d)"
    using assms by (simp add: is_whitespace_def Let_def)
  have "digit_char d \<noteq> c" if "(of_char c :: nat) < 48" for c
    using that n by (auto split: if_splits)
  then show "digit_char d \<noteq> CHR ''+''" "digit_char d \<noteq> CHR 0x0A" "digit_char d \<noteq> CHR 0x0D"
    by simp_all
qed

text \<open>A printed number parses to itself.\<close>

lemma from_str_radix_fmt:
  assumes "2 \<le> radix" "radix \<le> 36" "n < bound"
  shows "from_str_radix radix bound (fmt_radix radix n) = Some n"
proof -
  obtain c s where cs: "fmt_radix radix n = c # s" by (cases "fmt_radix radix n") auto
  then have "c \<in> set (fmt_radix radix n)" by simp
  from fmt_radix_chars [OF assms(1,2) this] obtain d where "d < radix" "c = digit_char d" by blast
  with assms(2) have "c \<noteq> CHR ''+''" using digit_char_plain(2) [of d] by simp
  then show ?thesis using assms digits_value_fmt [of radix n] unfolding from_str_radix_def
    by (simp add: cs)
qed

lemma fmt_radix_line:
  assumes "2 \<le> radix" "radix \<le> 36"
  shows "is_line (fmt_radix radix n)" "trim (fmt_radix radix n) = fmt_radix radix n"
    "list_all (\<lambda>c. \<not> is_whitespace c) (fmt_radix radix n)"
proof -
  have p: "\<not> is_whitespace c \<and> c \<noteq> CHR 0x0A \<and> c \<noteq> CHR 0x0D" if "c \<in> set (fmt_radix radix n)" for c
    using fmt_radix_chars [OF assms that] assms(2) digit_char_plain by (metis order_less_le_trans)
  then show "is_line (fmt_radix radix n)" unfolding is_line_def
    by (metis fmt_radix_not_Nil last_in_set)
  show "list_all (\<lambda>c. \<not> is_whitespace c) (fmt_radix radix n)" using p by (simp add: list_all_iff)
  show "trim (fmt_radix radix n) = fmt_radix radix n"
    using p by (intro trim_id) simp
qed

section \<open>Little-endian words\<close>

text \<open>\<open>to_le_bytes\<close> and \<open>from_le_bytes\<close> at any width; \<open>k\<close> is the number of bytes.\<close>

fun le_value :: "u8 list \<Rightarrow> 'a::len word" where
  "le_value [] = 0"
| "le_value (b # bs) = ucast b OR push_bit 8 (le_value bs)"

primrec le_encode :: "nat \<Rightarrow> 'a::len word \<Rightarrow> u8 list" where
  "le_encode 0 x = []"
| "le_encode (Suc k) x = ucast x # le_encode k (drop_bit 8 x)"

lemma length_le_encode [simp]: "length (le_encode k x) = k"
  by (induction k arbitrary: x) simp_all

lemma le_value_encode: "le_value (le_encode k x) = take_bit (8 * k) x"
proof (induction k arbitrary: x)
  case (Suc k)
  show ?case unfolding le_encode.simps le_value.simps Suc
    by (rule bit_word_eqI) (auto simp: bit_simps dest: bit_imp_le_length)
qed simp

end
