(* ===== verification/Manifest.thy ===== *)
theory Manifest
  imports Pmp_Isolation Rust_Text
begin

text \<open>
  The build manifest and its validator: \<open>tools/sntm-validate/src/manifest.rs\<close> (the schema),
  \<open>napot.rs\<close> (the host-side NAPOT encoding) and \<open>validate.rs\<close> (the checks). Each check
  returns the vector of its messages, one constructor of \<open>manifest_error\<close> per message with the
  values it prints. The TOML parser is a library: a manifest is the deserialised structure, a
  \<open>Cargo.toml\<close> is what reading and parsing it gave.
\<close>

section \<open>Schema (manifest.rs)\<close>

record KernelEntry =
  k_name :: string
  k_version :: string
  k_reserved_size :: usize
  k_binary :: string
  k_stack_size :: usize

definition default_reserved_size :: usize where
  "default_reserved_size = 0x600000"

record PlatformEntry =
  p_target :: string
  p_machine :: string
  p_pmp_entries :: u8
  p_ram_base :: usize
  p_ram_size :: usize

record RegionEntry =
  r_name :: string
  r_base :: usize
  r_size :: usize
  r_perm :: string

record LocalCapGrant =
  g_resource_id :: u8
  g_action :: string

record TaskEntry =
  t_name :: string
  t_binary :: string
  t_task_id :: u8
  t_priority :: u8
  t_period_ticks :: u32
  t_budget_cycles :: u32
  t_dal_level :: string
  t_trust_tier :: string
  t_waiver_reason :: string
  t_demo_feature_waivers :: "string list"
  t_regions :: "RegionEntry list"
  t_local_caps :: "LocalCapGrant list"
  t_stack_margin_override :: "u32 option"

definition default_trust_tier :: string where
  "default_trust_tier = ''safe''"

record ResourceEntry =
  rs_id :: u8
  rs_name :: string
  rs_kind :: string

record ChannelEntry =
  c_id :: u8
  c_producer :: string
  c_consumer :: string
  c_message :: string
  c_size :: usize
  c_period_ms :: "u32 option"

record Manifest =
  m_kernel :: KernelEntry
  m_platform :: PlatformEntry
  m_tasks :: "TaskEntry list"
  m_resources :: "ResourceEntry list"
  m_channels :: "ChannelEntry list"

datatype DalLevel = DAL_A | DAL_B | DAL_C | DAL_D

definition DalLevel_parse :: "string \<Rightarrow> DalLevel option" where
  "DalLevel_parse s =
     (if s = ''A'' then Some DAL_A else if s = ''B'' then Some DAL_B
      else if s = ''C'' then Some DAL_C else if s = ''D'' then Some DAL_D else None)"

text \<open>\<open>toml::Value\<close>, and what \<open>check_demo_waiver_cargo\<close> finds at \<open>tasks/<name>/Cargo.toml\<close>.\<close>

datatype toml_value = TString string | TInteger int | TFloat | TBoolean bool | TDatetime
  | TArray "toml_value list" | TTable "(string \<times> toml_value) list"

datatype cargo_file = Cargo_missing | Cargo_unreadable string | Cargo_not_toml string | Cargo toml_value

section \<open>NAPOT helpers (napot.rs)\<close>

fun ilog2_nat :: "nat \<Rightarrow> nat" where
  "ilog2_nat n = (if n < 2 then 0 else Suc (ilog2_nat (n div 2)))"

declare ilog2_nat.simps [simp del]

definition napot_size_log2 :: "u64 \<Rightarrow> u64 \<Rightarrow> u8 option" where
  "napot_size_log2 base sz =
     (if sz < 8 then None
      else if sz AND (sz - 1) \<noteq> 0 then None
      else if base AND (sz - 1) \<noteq> 0 then None
      else Some (of_nat (ilog2_nat (unat sz))))"

definition napot_pmpaddr :: "u64 \<Rightarrow> u8 \<Rightarrow> u64" where
  "napot_pmpaddr base size_log2 =
     (let m = push_bit (unat (size_log2 - 3)) 1 - 1 in drop_bit 2 base OR m)"

section \<open>Checks (validate.rs)\<close>

datatype manifest_error =
    Duplicate_task_id u8 string string
  | Too_many_regions string nat
  | Not_napot string string usize usize
  | Intra_overlap string string string
  | Cross_overlap string string string string
  | Kernel_overlap string string usize usize
  | Pmp_budget nat nat
  | Invalid_dal string string
  | Invalid_tier string string
  | Missing_waiver_reason string
  | Dal_forbids_unsafe string DalLevel
  | Waivers_with_unsafe string
  | Empty_waiver string
  | Cargo_toml_missing string "string list"
  | Cargo_read_error string string
  | Cargo_parse_error string string
  | Features_not_table string
  | Features_missing string "string list"
  | Waiver_orphan string string
  | Waiver_default_on string string
  | Resource_id_range string u8
  | Resource_id_duplicate u8 string string
  | Resource_name_empty u8
  | Resource_name_duplicate string u8 u8
  | Resource_name_chars string
  | Resource_kind_empty string
  | Channel_id_range u8
  | Channel_id_duplicate u8 string string
  | Producer_orphan u8 string
  | Consumer_orphan u8 string
  | Self_loop u8 string
  | Size_zero u8
  | Size_too_big u8 usize
  | Message_empty u8
  | Message_not_pascal u8 string
  | Message_chars u8 string
  | Message_duplicate string u8 u8
  | Cap_resource_range string u8
  | Cap_resource_orphan string u8
  | Cap_duplicate string u8
  | Cap_action_invalid string string u8

abbreviation (input) RESERVED_LOW_PMP_ENTRIES :: nat where "RESERVED_LOW_PMP_ENTRIES \<equiv> 8"
abbreviation (input) MAX_REGIONS_PER_TASK :: nat where "MAX_REGIONS_PER_TASK \<equiv> 6"
abbreviation (input) KERNEL_BASE :: usize where "KERNEL_BASE \<equiv> 0x80000000"
abbreviation (input) V_MAX_IPC_CHANNELS :: u8 where "V_MAX_IPC_CHANNELS \<equiv> 8"
abbreviation (input) V_IPC_MSG_SIZE :: usize where "V_IPC_MSG_SIZE \<equiv> 64"
abbreviation (input) V_MAX_RESOURCES :: u8 where "V_MAX_RESOURCES \<equiv> 4"

text \<open>The copies of the kernel's overlap and alignment tests.\<close>

definition host_regions_overlap :: "usize \<Rightarrow> usize \<Rightarrow> usize \<Rightarrow> usize \<Rightarrow> bool" where
  "host_regions_overlap a_base a_size b_base b_size =
     (if a_size = 0 \<or> b_size = 0 then False
      else let a_end = saturating_add a_base a_size; b_end = saturating_add b_base b_size
      in \<not> (a_end \<le> b_base \<or> b_end \<le> a_base))"

definition host_valid_napot_alignment :: "usize \<Rightarrow> usize \<Rightarrow> bool" where
  "host_valid_napot_alignment base sz =
     (if sz < 8 then False
      else if sz AND (sz - 1) \<noteq> 0 then False
      else base AND (sz - 1) = 0)"

fun task_id_loop :: "(u8 \<rightharpoonup> string) \<Rightarrow> TaskEntry list \<Rightarrow> manifest_error list" where
  "task_id_loop seen [] = []"
| "task_id_loop seen (t # ts) =
     (case seen (t_task_id t) of
        Some prev \<Rightarrow> [Duplicate_task_id (t_task_id t) prev (t_name t)]
      | None \<Rightarrow> []) @ task_id_loop (seen(t_task_id t \<mapsto> t_name t)) ts"

definition check_task_id_uniqueness :: "TaskEntry list \<Rightarrow> manifest_error list + unit" where
  "check_task_id_uniqueness tasks = errs_result (task_id_loop Map.empty tasks)"

definition check_napot_alignment :: "TaskEntry list \<Rightarrow> manifest_error list + unit" where
  "check_napot_alignment tasks = errs_result (concat (map (\<lambda>t.
     (if MAX_REGIONS_PER_TASK < length (t_regions t)
      then [Too_many_regions (t_name t) (length (t_regions t))] else []) @
     concat (map (\<lambda>r. if \<not> host_valid_napot_alignment (r_base r) (r_size r)
       then [Not_napot (t_name t) (r_name r) (r_base r) (r_size r)] else []) (t_regions t))) tasks))"

definition entries_overlap :: "RegionEntry \<Rightarrow> RegionEntry \<Rightarrow> bool" where
  "entries_overlap a b = host_regions_overlap (r_base a) (r_size a) (r_base b) (r_size b)"

definition check_intra_task_overlap :: "TaskEntry list \<Rightarrow> manifest_error list + unit" where
  "check_intra_task_overlap tasks = errs_result (concat (map (\<lambda>t.
     let rs = t_regions t in
     concat (map (\<lambda>i. concat (map (\<lambda>j.
       if entries_overlap (rs ! i) (rs ! j)
       then [Intra_overlap (t_name t) (r_name (rs ! i)) (r_name (rs ! j))] else [])
       [i + 1..<length rs])) [0..<length rs])) tasks))"

definition check_cross_task_overlap :: "TaskEntry list \<Rightarrow> manifest_error list + unit" where
  "check_cross_task_overlap tasks = errs_result (concat (map (\<lambda>i. concat (map (\<lambda>j.
     let ta = tasks ! i; tb = tasks ! j in
     concat (map (\<lambda>ra. concat (map (\<lambda>rb.
       if entries_overlap ra rb
       then [Cross_overlap (t_name ta) (r_name ra) (t_name tb) (r_name rb)] else [])
       (t_regions tb))) (t_regions ta)))
     [i + 1..<length tasks])) [0..<length tasks]))"

definition check_kernel_task_overlap :: "Manifest \<Rightarrow> manifest_error list + unit" where
  "check_kernel_task_overlap m = errs_result (concat (map (\<lambda>t. concat (map (\<lambda>r.
     if host_regions_overlap (r_base r) (r_size r) KERNEL_BASE (k_reserved_size (m_kernel m))
     then [Kernel_overlap (t_name t) (r_name r) (r_base r) (r_size r)] else []) (t_regions t))) (m_tasks m)))"

definition check_pmp_budget :: "Manifest \<Rightarrow> manifest_error list + unit" where
  "check_pmp_budget m =
     (let max_per_task = fold (\<lambda>t. max (length (t_regions t))) (m_tasks m) 0;
          required = RESERVED_LOW_PMP_ENTRIES + max_per_task;
          available = unat (p_pmp_entries (m_platform m))
      in if required > available then Inl [Pmp_budget max_per_task available] else Inr ())"

definition task_profile_errors :: "TaskEntry \<Rightarrow> manifest_error list" where
  "task_profile_errors t =
     (case DalLevel_parse (t_dal_level t) of
        None \<Rightarrow> [Invalid_dal (t_name t) (t_dal_level t)]
      | Some dal \<Rightarrow>
          (let tier = t_trust_tier t in
           if tier \<noteq> ''safe'' \<and> tier \<noteq> ''trusted_unsafe'' then [Invalid_tier (t_name t) tier]
           else (if tier = ''trusted_unsafe'' \<and> trim (t_waiver_reason t) = []
                 then [Missing_waiver_reason (t_name t)] else []) @
                (if tier = ''trusted_unsafe'' \<and> (dal = DAL_A \<or> dal = DAL_B)
                 then [Dal_forbids_unsafe (t_name t) dal] else []) @
                (if tier = ''trusted_unsafe'' \<and> t_demo_feature_waivers t \<noteq> []
                 then [Waivers_with_unsafe (t_name t)] else []) @
                concat (map (\<lambda>w. if trim w = [] then [Empty_waiver (t_name t)] else [])
                  (t_demo_feature_waivers t))))"

definition check_safe_native_profile :: "Manifest \<Rightarrow> manifest_error list + unit" where
  "check_safe_native_profile m = errs_result (concat (map task_profile_errors (m_tasks m)))"

fun toml_as_str :: "toml_value \<Rightarrow> string option" where
  "toml_as_str (TString s) = Some s"
| "toml_as_str _ = None"

fun toml_get :: "string \<Rightarrow> toml_value \<Rightarrow> toml_value option" where
  "toml_get k (TTable t) = map_of t k"
| "toml_get k _ = None"

definition default_features :: "(string \<times> toml_value) list \<Rightarrow> string list" where
  "default_features features =
     (case map_of features ''default'' of
        Some (TArray arr) \<Rightarrow> List.map_filter toml_as_str arr
      | _ \<Rightarrow> [])"

definition task_cargo_errors :: "(string \<Rightarrow> cargo_file) \<Rightarrow> TaskEntry \<Rightarrow> manifest_error list" where
  "task_cargo_errors cargo t =
     (let waivers = t_demo_feature_waivers t in
      if waivers = [] then []
      else case cargo (t_name t) of
          Cargo_missing \<Rightarrow> [Cargo_toml_missing (t_name t) waivers]
        | Cargo_unreadable e \<Rightarrow> [Cargo_read_error (t_name t) e]
        | Cargo_not_toml e \<Rightarrow> [Cargo_parse_error (t_name t) e]
        | Cargo parsed \<Rightarrow>
            (case toml_get ''features'' parsed of
               None \<Rightarrow> [Features_missing (t_name t) waivers]
             | Some (TTable features) \<Rightarrow>
                 concat (map (\<lambda>w.
                   if map_of features w = None then [Waiver_orphan (t_name t) w]
                   else if w \<in> set (default_features features) then [Waiver_default_on (t_name t) w]
                   else []) waivers)
             | Some _ \<Rightarrow> [Features_not_table (t_name t)]))"

definition check_demo_waiver_cargo :: "(string \<Rightarrow> cargo_file) \<Rightarrow> Manifest \<Rightarrow> manifest_error list + unit" where
  "check_demo_waiver_cargo cargo m = errs_result (concat (map (task_cargo_errors cargo) (m_tasks m)))"

fun resource_loop :: "(u8 \<rightharpoonup> string) \<Rightarrow> (string \<rightharpoonup> u8) \<Rightarrow> ResourceEntry list \<Rightarrow> manifest_error list" where
  "resource_loop seen_ids seen_names [] = []"
| "resource_loop seen_ids seen_names (r # rs) =
     (if V_MAX_RESOURCES \<le> rs_id r then [Resource_id_range (rs_name r) (rs_id r)] else []) @
     (case seen_ids (rs_id r) of
        Some prev \<Rightarrow> [Resource_id_duplicate (rs_id r) prev (rs_name r)] | None \<Rightarrow> []) @
     (if trim (rs_name r) = [] then [Resource_name_empty (rs_id r)]
      else (case seen_names (rs_name r) of
              Some prev_id \<Rightarrow> [Resource_name_duplicate (rs_name r) prev_id (rs_id r)] | None \<Rightarrow> []) @
           (if list_ex (\<lambda>c. is_whitespace c \<or> c = CHR ''.'') (rs_name r)
            then [Resource_name_chars (rs_name r)] else [])) @
     (if trim (rs_kind r) = [] then [Resource_kind_empty (rs_name r)] else []) @
     resource_loop (seen_ids(rs_id r \<mapsto> rs_name r))
       (if trim (rs_name r) = [] then seen_names else seen_names(rs_name r \<mapsto> rs_id r)) rs"

definition check_resources :: "Manifest \<Rightarrow> manifest_error list + unit" where
  "check_resources m = errs_result (resource_loop Map.empty Map.empty (m_resources m))"

fun channel_loop ::
  "string list \<Rightarrow> (u8 \<rightharpoonup> string) \<Rightarrow> (string \<rightharpoonup> u8) \<Rightarrow> ChannelEntry list \<Rightarrow> manifest_error list" where
  "channel_loop task_names seen_ids seen_messages [] = []"
| "channel_loop task_names seen_ids seen_messages (c # cs) =
     (if V_MAX_IPC_CHANNELS \<le> c_id c then [Channel_id_range (c_id c)] else []) @
     (case seen_ids (c_id c) of
        Some prev \<Rightarrow> [Channel_id_duplicate (c_id c) prev (c_message c)] | None \<Rightarrow> []) @
     (if c_producer c \<notin> set task_names then [Producer_orphan (c_id c) (c_producer c)] else []) @
     (if c_consumer c \<notin> set task_names then [Consumer_orphan (c_id c) (c_consumer c)] else []) @
     (if c_producer c = c_consumer c then [Self_loop (c_id c) (c_producer c)] else []) @
     (if c_size c = 0 then [Size_zero (c_id c)] else []) @
     (if V_IPC_MSG_SIZE < c_size c then [Size_too_big (c_id c) (c_size c)] else []) @
     (if trim (c_message c) = [] then [Message_empty (c_id c)]
      else (if \<not> is_ascii_uppercase (hd (c_message c)) then [Message_not_pascal (c_id c) (c_message c)] else []) @
           (if list_ex (\<lambda>ch. \<not> is_ascii_alphanumeric ch) (c_message c)
            then [Message_chars (c_id c) (c_message c)] else []) @
           (case seen_messages (c_message c) of
              Some prev_id \<Rightarrow> [Message_duplicate (c_message c) prev_id (c_id c)] | None \<Rightarrow> [])) @
     channel_loop task_names (seen_ids(c_id c \<mapsto> c_message c))
       (if trim (c_message c) = [] then seen_messages else seen_messages(c_message c \<mapsto> c_id c)) cs"

definition check_channels :: "Manifest \<Rightarrow> manifest_error list + unit" where
  "check_channels m =
     errs_result (channel_loop (map t_name (m_tasks m)) Map.empty Map.empty (m_channels m))"

definition CAP_ACTIONS :: "string list" where
  "CAP_ACTIONS = [''None'', ''Read'', ''Write'', ''ReadWrite'', ''Execute'', ''All'']"

fun grant_loop :: "string \<Rightarrow> u8 list \<Rightarrow> u8 list \<Rightarrow> LocalCapGrant list \<Rightarrow> manifest_error list" where
  "grant_loop name resource_ids seen [] = []"
| "grant_loop name resource_ids seen (g # gs) =
     (if V_MAX_RESOURCES \<le> g_resource_id g
      then Cap_resource_range name (g_resource_id g) # grant_loop name resource_ids seen gs
      else (if g_resource_id g \<notin> set resource_ids then [Cap_resource_orphan name (g_resource_id g)] else []) @
           (if g_resource_id g \<in> set seen then [Cap_duplicate name (g_resource_id g)] else []) @
           (if g_action g \<in> set CAP_ACTIONS then []
            else [Cap_action_invalid name (g_action g) (g_resource_id g)]) @
           grant_loop name resource_ids (g_resource_id g # seen) gs)"

definition check_local_caps :: "Manifest \<Rightarrow> manifest_error list + unit" where
  "check_local_caps m = errs_result (concat (map (\<lambda>t.
     grant_loop (t_name t) (map rs_id (m_resources m)) [] (t_local_caps t)) (m_tasks m)))"

text \<open>\<open>validate_all\<close>: the \<open>Cargo.toml\<close> check runs only when the manifest's path is known.\<close>

definition validate_all :: "Manifest \<Rightarrow> (string \<Rightarrow> cargo_file) option \<Rightarrow> manifest_error list + unit" where
  "validate_all m manifest_path =
     (let errors = [];
          errors = errors @ err_list (check_task_id_uniqueness (m_tasks m));
          errors = errors @ err_list (check_napot_alignment (m_tasks m));
          errors = errors @ err_list (check_intra_task_overlap (m_tasks m));
          errors = errors @ err_list (check_cross_task_overlap (m_tasks m));
          errors = errors @ err_list (check_kernel_task_overlap m);
          errors = errors @ err_list (check_pmp_budget m);
          errors = errors @ err_list (check_safe_native_profile m);
          errors = errors @ (case manifest_path of
             Some cargo \<Rightarrow> err_list (check_demo_waiver_cargo cargo m) | None \<Rightarrow> []);
          errors = errors @ err_list (check_resources m);
          errors = errors @ err_list (check_channels m);
          errors = errors @ err_list (check_local_caps m)
      in errs_result errors)"

end
