(* ===== verification/Manifest_Spec.thy ===== *)
theory Manifest_Spec
  imports Manifest
begin

text \<open>
  What an accepted manifest satisfies, stated without the loops of the validator: the address sets of
  the regions, the identifiers and the policy of the trust tiers. Each check accepts exactly the
  manifests that satisfy its clause.
\<close>

section \<open>Powers of two\<close>

lemma ilog2_nat_bounds: "0 < n \<Longrightarrow> 2 ^ ilog2_nat n \<le> n \<and> n < 2 * 2 ^ ilog2_nat n"
proof (induction n rule: ilog2_nat.induct)
  case (1 n)
  show ?case
  proof (cases "n < 2")
    case True
    then show ?thesis using 1 by (simp add: ilog2_nat.simps)
  next
    case False
    then have "2 ^ ilog2_nat (n div 2) \<le> n div 2 \<and> n div 2 < 2 * 2 ^ ilog2_nat (n div 2)"
      using 1 by simp
    moreover have "ilog2_nat n = Suc (ilog2_nat (n div 2))" using False by (simp add: ilog2_nat.simps)
    ultimately have "2 ^ ilog2_nat n \<le> 2 * (n div 2)" "2 * Suc (n div 2) \<le> 2 * 2 ^ ilog2_nat n" by auto
    moreover have "2 * (n div 2) \<le> n" "n < 2 * Suc (n div 2)" by simp_all
    ultimately show ?thesis by linarith
  qed
qed

lemma ilog2_nat_power [simp]: "ilog2_nat (2 ^ k) = k"
  by (induction k) (subst ilog2_nat.simps, simp)+

lemma pow2_iff:
  fixes w :: u64
  assumes "w \<noteq> 0"
  shows "w AND (w - 1) = 0 \<longleftrightarrow> (\<exists>k<64. unat w = 2 ^ k)"
proof
  assume z: "w AND (w - 1) = 0"
  define k where "k = ilog2_nat (unat w)"
  have pos: "0 < unat w" using assms by (simp add: unat_gt_0)
  have b: "2 ^ k \<le> unat w" "unat w < 2 * 2 ^ k" using ilog2_nat_bounds [OF pos] by (simp_all add: k_def)
  have k64: "k < 64"
  proof (rule ccontr)
    assume "\<not> k < 64"
    then have "(2::nat) ^ 64 \<le> 2 ^ k" by (intro power_increasing) auto
    with b(1) unat_less [of w] show False by simp
  qed
  have bit_k: "bit v k" if "2 ^ k \<le> unat v" "unat v < 2 * 2 ^ k" for v :: u64
  proof -
    have "unat v div 2 ^ k = 1" using that by (intro div_nat_eqI) auto
    then have "bit (unat v) k" by (simp add: bit_iff_odd)
    then show ?thesis by (simp add: bit_unsigned_iff)
  qed
  have "unat w = 2 ^ k"
  proof (rule ccontr)
    assume "unat w \<noteq> 2 ^ k"
    then have "2 ^ k \<le> unat (w - 1)" "unat (w - 1) < 2 * 2 ^ k"
      using b pos by (simp_all add: unat_minus_one assms)
    then have "bit (w AND (w - 1)) k" using bit_k b by (simp add: bit_and_iff)
    with z show False by simp
  qed
  with k64 show "\<exists>k<64. unat w = 2 ^ k" by blast
next
  assume "\<exists>k<64. unat w = 2 ^ k"
  then obtain k where "k < 64" "unat w = 2 ^ k" by blast
  then have w: "w = push_bit k 1" by (simp add: word_unat_eq_iff push_bit_eq_mult unat_pow2)
  have "w - 1 = mask k" by (simp add: w mask_eq_exp_minus_1 push_bit_eq_mult)
  then show "w AND (w - 1) = 0" unfolding w by (auto intro!: bit_word_eqI simp: bit_simps)
qed

lemma and_pow2_minus_1:
  fixes b w :: u64
  assumes "unat w = 2 ^ k" "k < 64"
  shows "b AND (w - 1) = 0 \<longleftrightarrow> 2 ^ k dvd unat b"
proof -
  have "w = 2 ^ k" using assms by (simp add: word_unat_eq_iff unat_pow2)
  then have "b AND (w - 1) = take_bit k b" by (simp add: take_bit_eq_mask mask_eq_exp_minus_1)
  also have "\<dots> = 0 \<longleftrightarrow> take_bit k (unat b) = 0" by (simp add: word_unat_eq_iff unsigned_take_bit_eq)
  finally show ?thesis by (simp add: take_bit_eq_mod dvd_eq_mod_eq_0)
qed

definition napot_aligned :: "usize \<Rightarrow> usize \<Rightarrow> bool" where
  "napot_aligned base sz \<longleftrightarrow> (\<exists>k. 3 \<le> k \<and> k < 64 \<and> unat sz = 2 ^ k \<and> 2 ^ k dvd unat base)"

lemma host_napot_iff: "host_valid_napot_alignment base sz \<longleftrightarrow> napot_aligned base sz"
proof (cases "sz < 8")
  case True
  then have lt: "unat sz < 2 ^ 3" by (simp add: word_less_nat_alt)
  have "\<not> napot_aligned base sz"
  proof
    assume "napot_aligned base sz"
    then obtain k where "3 \<le> k" "unat sz = 2 ^ k" by (auto simp: napot_aligned_def)
    moreover from \<open>3 \<le> k\<close> have "(2::nat) ^ 3 \<le> 2 ^ k" by (intro power_increasing) auto
    ultimately show False using lt by linarith
  qed
  with True show ?thesis by (simp add: host_valid_napot_alignment_def)
next
  case False
  then have ge: "2 ^ 3 \<le> unat sz" by (simp add: word_less_nat_alt)
  then have nz: "sz \<noteq> 0" by auto
  have "host_valid_napot_alignment base sz \<longleftrightarrow> (\<exists>k<64. unat sz = 2 ^ k) \<and> base AND (sz - 1) = 0"
    using False pow2_iff [OF nz] by (simp add: host_valid_napot_alignment_def)
  also have "\<dots> \<longleftrightarrow> (\<exists>k<64. unat sz = 2 ^ k \<and> 2 ^ k dvd unat base)"
    using and_pow2_minus_1 by metis
  also have "\<dots> \<longleftrightarrow> napot_aligned base sz"
  proof -
    have "3 \<le> k" if "unat sz = 2 ^ k" for k
      using ge that by (simp only: power_increasing_iff)
    then show ?thesis unfolding napot_aligned_def by blast
  qed
  finally show ?thesis .
qed

lemma napot_aligned_base: "napot_aligned base sz \<Longrightarrow> unat base < 2 ^ 64 - 1"
proof -
  assume "napot_aligned base sz"
  then obtain k where k: "3 \<le> k" "2 ^ k dvd unat base" by (auto simp: napot_aligned_def)
  have "(2::nat) dvd 2 ^ k" using k(1) by (intro dvd_power) auto
  then have "2 dvd unat base" using k(2) dvd_trans by blast
  then show ?thesis using unat_less [of base] by (auto elim!: dvdE)
qed

section \<open>Address sets\<close>

definition addrs :: "usize \<Rightarrow> usize \<Rightarrow> usize set" where
  "addrs base sz = {x. unat base \<le> unat x \<and> unat x < unat base + unat sz}"

lemma host_overlap_iff:
  assumes "unat a < 2 ^ 64 - 1" "unat b < 2 ^ 64 - 1"
  shows "host_regions_overlap a n b m \<longleftrightarrow> addrs a n \<inter> addrs b m \<noteq> {}"
proof -
  have "host_regions_overlap a n b m \<longleftrightarrow>
      unat n \<noteq> 0 \<and> unat m \<noteq> 0 \<and> unat b < unat a + unat n \<and> unat a < unat b + unat m"
    using assms
    by (auto simp: host_regions_overlap_def Let_def word_le_nat_alt unat_saturating_add not_le unat_eq_0 min_def)
  also have "\<dots> \<longleftrightarrow> addrs a n \<inter> addrs b m \<noteq> {}"
  proof
    assume *: "unat n \<noteq> 0 \<and> unat m \<noteq> 0 \<and> unat b < unat a + unat n \<and> unat a < unat b + unat m"
    show "addrs a n \<inter> addrs b m \<noteq> {}"
    proof (cases "unat a \<le> unat b")
      case True
      with * have "b \<in> addrs a n \<inter> addrs b m" by (simp add: addrs_def)
      then show ?thesis by blast
    next
      case False
      with * have "a \<in> addrs a n \<inter> addrs b m" by (simp add: addrs_def)
      then show ?thesis by blast
    qed
  qed (auto simp: addrs_def)
  finally show ?thesis .
qed

abbreviation entry_addrs :: "RegionEntry \<Rightarrow> usize set" where
  "entry_addrs r \<equiv> addrs (r_base r) (r_size r)"

abbreviation entry_aligned :: "RegionEntry \<Rightarrow> bool" where
  "entry_aligned r \<equiv> napot_aligned (r_base r) (r_size r)"

lemma entries_overlap_iff:
  "entry_aligned r \<Longrightarrow> entry_aligned s \<Longrightarrow> entries_overlap r s \<longleftrightarrow> entry_addrs r \<inter> entry_addrs s \<noteq> {}"
  unfolding entries_overlap_def by (intro host_overlap_iff napot_aligned_base)

section \<open>The clauses of a valid manifest\<close>

definition shapes_ok :: "Manifest \<Rightarrow> bool" where
  "shapes_ok m \<longleftrightarrow> (\<forall>t\<in>set (m_tasks m). length (t_regions t) \<le> 6 \<and> (\<forall>r\<in>set (t_regions t). entry_aligned r))"

definition separated :: "Manifest \<Rightarrow> bool" where
  "separated m \<longleftrightarrow>
     (\<forall>t\<in>set (m_tasks m). sorted_wrt (\<lambda>r s. entry_addrs r \<inter> entry_addrs s = {}) (t_regions t))
     \<and> sorted_wrt (\<lambda>t u. \<forall>r\<in>set (t_regions t). \<forall>s\<in>set (t_regions u). entry_addrs r \<inter> entry_addrs s = {}) (m_tasks m)
     \<and> (\<forall>t\<in>set (m_tasks m). \<forall>r\<in>set (t_regions t).
          entry_addrs r \<inter> addrs KERNEL_BASE (k_reserved_size (m_kernel m)) = {})"

definition budget_ok :: "Manifest \<Rightarrow> bool" where
  "budget_ok m \<longleftrightarrow> 8 \<le> unat (p_pmp_entries (m_platform m))
     \<and> (\<forall>t\<in>set (m_tasks m). 8 + length (t_regions t) \<le> unat (p_pmp_entries (m_platform m)))"

definition tier_ok :: "TaskEntry \<Rightarrow> bool" where
  "tier_ok t \<longleftrightarrow> t_dal_level t \<in> {''A'', ''B'', ''C'', ''D''}
     \<and> (t_trust_tier t = ''safe'' \<or>
        t_trust_tier t = ''trusted_unsafe'' \<and> t_dal_level t \<in> {''C'', ''D''}
          \<and> \<not> list_all is_whitespace (t_waiver_reason t) \<and> t_demo_feature_waivers t = [])
     \<and> (\<forall>w\<in>set (t_demo_feature_waivers t). \<not> list_all is_whitespace w)"

definition waivers_off :: "(string \<Rightarrow> cargo_file) \<Rightarrow> TaskEntry \<Rightarrow> bool" where
  "waivers_off cargo t \<longleftrightarrow> (t_demo_feature_waivers t \<noteq> [] \<longrightarrow>
     (\<exists>parsed features. cargo (t_name t) = Cargo parsed \<and> toml_get ''features'' parsed = Some (TTable features)
        \<and> (\<forall>w\<in>set (t_demo_feature_waivers t). w \<in> fst ` set features \<and> w \<notin> set (default_features features))))"

definition resource_entry_ok :: "ResourceEntry \<Rightarrow> bool" where
  "resource_entry_ok r \<longleftrightarrow> unat (rs_id r) < 4 \<and> rs_name r \<noteq> []
     \<and> (\<forall>c\<in>set (rs_name r). \<not> is_whitespace c \<and> c \<noteq> CHR ''.'') \<and> \<not> list_all is_whitespace (rs_kind r)"

definition resources_ok :: "Manifest \<Rightarrow> bool" where
  "resources_ok m \<longleftrightarrow> distinct (map rs_id (m_resources m)) \<and> distinct (map rs_name (m_resources m))
     \<and> (\<forall>r\<in>set (m_resources m). resource_entry_ok r)"

definition channels_ok :: "Manifest \<Rightarrow> bool" where
  "channels_ok m \<longleftrightarrow> distinct (map c_id (m_channels m)) \<and> distinct (map c_message (m_channels m))
     \<and> (\<forall>c\<in>set (m_channels m). unat (c_id c) < 8
          \<and> c_producer c \<in> t_name ` set (m_tasks m) \<and> c_consumer c \<in> t_name ` set (m_tasks m)
          \<and> c_producer c \<noteq> c_consumer c \<and> 0 < unat (c_size c) \<and> unat (c_size c) \<le> 64
          \<and> c_message c \<noteq> [] \<and> is_ascii_uppercase (hd (c_message c))
          \<and> (\<forall>ch\<in>set (c_message c). is_ascii_alphanumeric ch))"

definition grants_ok :: "Manifest \<Rightarrow> bool" where
  "grants_ok m \<longleftrightarrow> (\<forall>t\<in>set (m_tasks m). distinct (map g_resource_id (t_local_caps t))
     \<and> (\<forall>g\<in>set (t_local_caps t). unat (g_resource_id g) < 4
          \<and> g_resource_id g \<in> rs_id ` set (m_resources m) \<and> g_action g \<in> set CAP_ACTIONS))"

definition manifest_valid :: "Manifest \<Rightarrow> (string \<Rightarrow> cargo_file) option \<Rightarrow> bool" where
  "manifest_valid m mp \<longleftrightarrow> distinct (map t_task_id (m_tasks m)) \<and> shapes_ok m \<and> separated m \<and> budget_ok m
     \<and> (\<forall>t\<in>set (m_tasks m). tier_ok t)
     \<and> (case mp of None \<Rightarrow> True | Some cargo \<Rightarrow> \<forall>t\<in>set (m_tasks m). waivers_off cargo t)
     \<and> resources_ok m \<and> channels_ok m \<and> grants_ok m"

section \<open>Each check decides its clause\<close>

named_theorems check_iff

lemma task_id_loop_Nil:
  "task_id_loop seen ts = [] \<longleftrightarrow> distinct (map t_task_id ts) \<and> (\<forall>t\<in>set ts. seen (t_task_id t) = None)"
  by (induction ts arbitrary: seen) (auto intro: image_eqI [OF sym] split: option.splits)

lemma check_task_id_iff [check_iff]:
  "err_list (check_task_id_uniqueness ts) = [] \<longleftrightarrow> distinct (map t_task_id ts)"
  by (simp add: check_task_id_uniqueness_def task_id_loop_Nil)

lemma concat_map_Nil: "concat (map f xs) = [] \<longleftrightarrow> (\<forall>x\<in>set xs. f x = [])"
  by auto

lemma if_Nil: "(if b then [] else x # xs) = [] \<longleftrightarrow> b" "(if b then x # xs else []) = [] \<longleftrightarrow> \<not> b"
  by auto

lemma check_napot_iff [check_iff]: "err_list (check_napot_alignment (m_tasks m)) = [] \<longleftrightarrow> shapes_ok m"
  by (auto simp: check_napot_alignment_def shapes_ok_def host_napot_iff if_Nil concat_map_Nil)

lemma pairs_upt:
  "(\<forall>i\<in>set [0..<length xs]. \<forall>j\<in>set [i + 1..<length xs]. P (xs ! i) (xs ! j)) \<longleftrightarrow> sorted_wrt P xs"
  unfolding sorted_wrt_iff_nth_less by (auto simp: Suc_le_eq)

lemma sorted_wrt_cong':
  "(\<And>x y. x \<in> set xs \<Longrightarrow> y \<in> set xs \<Longrightarrow> P x y \<longleftrightarrow> Q x y) \<Longrightarrow> sorted_wrt P xs \<longleftrightarrow> sorted_wrt Q xs"
  by (induction xs) auto

lemma check_intra_iff:
  "err_list (check_intra_task_overlap ts) = [] \<longleftrightarrow>
     (\<forall>t\<in>set ts. sorted_wrt (\<lambda>r s. \<not> entries_overlap r s) (t_regions t))"
  unfolding check_intra_task_overlap_def
  unfolding Let_def err_list_errs_result concat_map_Nil if_Nil pairs_upt [where P = "\<lambda>r s. \<not> entries_overlap r s"] ..

lemma check_cross_iff:
  "err_list (check_cross_task_overlap ts) = [] \<longleftrightarrow>
     sorted_wrt (\<lambda>t u. \<forall>r\<in>set (t_regions t). \<forall>s\<in>set (t_regions u). \<not> entries_overlap r s) ts"
  unfolding check_cross_task_overlap_def
  unfolding Let_def err_list_errs_result concat_map_Nil if_Nil
    pairs_upt [where P = "\<lambda>t u. \<forall>r\<in>set (t_regions t). \<forall>s\<in>set (t_regions u). \<not> entries_overlap r s"] ..

lemma check_kernel_iff:
  "err_list (check_kernel_task_overlap m) = [] \<longleftrightarrow> (\<forall>t\<in>set (m_tasks m). \<forall>r\<in>set (t_regions t).
     \<not> host_regions_overlap (r_base r) (r_size r) KERNEL_BASE (k_reserved_size (m_kernel m)))"
  unfolding check_kernel_task_overlap_def by (auto simp: if_Nil concat_map_Nil)

lemma checks_separated_iff:
  assumes "shapes_ok m"
  shows "err_list (check_intra_task_overlap (m_tasks m)) = [] \<and> err_list (check_cross_task_overlap (m_tasks m)) = []
     \<and> err_list (check_kernel_task_overlap m) = [] \<longleftrightarrow> separated m"
proof -
  have al: "entry_aligned r" if "t \<in> set (m_tasks m)" "r \<in> set (t_regions t)" for t r
    using assms that by (auto simp: shapes_ok_def)
  have kernel: "host_regions_overlap (r_base r) (r_size r) KERNEL_BASE n \<longleftrightarrow> entry_addrs r \<inter> addrs KERNEL_BASE n \<noteq> {}"
    if "t \<in> set (m_tasks m)" "r \<in> set (t_regions t)" for t r n
    using napot_aligned_base [OF al [OF that]] by (intro host_overlap_iff) simp_all
  have intra: "sorted_wrt (\<lambda>r s. \<not> entries_overlap r s) (t_regions t) \<longleftrightarrow>
      sorted_wrt (\<lambda>r s. entry_addrs r \<inter> entry_addrs s = {}) (t_regions t)" if "t \<in> set (m_tasks m)" for t
    using al [OF that] by (intro sorted_wrt_cong') (simp add: entries_overlap_iff)
  have cross: "sorted_wrt (\<lambda>t u. \<forall>r\<in>set (t_regions t). \<forall>s\<in>set (t_regions u). \<not> entries_overlap r s) (m_tasks m) \<longleftrightarrow>
      sorted_wrt (\<lambda>t u. \<forall>r\<in>set (t_regions t). \<forall>s\<in>set (t_regions u). entry_addrs r \<inter> entry_addrs s = {}) (m_tasks m)"
    using al by (intro sorted_wrt_cong') (simp add: entries_overlap_iff)
  show ?thesis
    unfolding check_intra_iff check_cross_iff check_kernel_iff separated_def cross
    using intra kernel by simp
qed

lemma fold_max_le: "fold (\<lambda>t. max (f t)) ts n \<le> (k::nat) \<longleftrightarrow> n \<le> k \<and> (\<forall>t\<in>set ts. f t \<le> k)"
  by (induction ts arbitrary: n) auto

lemma check_budget_iff [check_iff]: "err_list (check_pmp_budget m) = [] \<longleftrightarrow> budget_ok m"
proof -
  let ?x = "fold (\<lambda>t. max (length (t_regions t))) (m_tasks m) 0" and ?a = "unat (p_pmp_entries (m_platform m))"
  have "err_list (check_pmp_budget m) = [] \<longleftrightarrow> 8 \<le> ?a \<and> ?x \<le> ?a - 8"
    by (auto simp: check_pmp_budget_def Let_def)
  also have "\<dots> \<longleftrightarrow> budget_ok m" unfolding budget_ok_def fold_max_le by auto
  finally show ?thesis .
qed

lemma task_profile_iff: "task_profile_errors t = [] \<longleftrightarrow> tier_ok t"
  unfolding task_profile_errors_def tier_ok_def DalLevel_parse_def
  by (auto simp: Let_def trim_Nil_iff if_Nil concat_map_Nil split: option.splits)

lemma check_profile_iff [check_iff]:
  "err_list (check_safe_native_profile m) = [] \<longleftrightarrow> (\<forall>t\<in>set (m_tasks m). tier_ok t)"
  by (simp add: check_safe_native_profile_def concat_map_Nil task_profile_iff)

lemma task_cargo_iff: "task_cargo_errors cargo t = [] \<longleftrightarrow> waivers_off cargo t"
proof -
  have wl: "(if a then [x] else if b then [y] else []) = [] \<longleftrightarrow> \<not> a \<and> \<not> b" for a b and x y :: manifest_error
    by simp
  show ?thesis
    unfolding task_cargo_errors_def waivers_off_def Let_def concat_map_Nil wl map_of_eq_None_iff
    by (auto split: cargo_file.splits option.splits toml_value.splits simp: concat_map_Nil wl map_of_eq_None_iff simp del: concat_eq_Nil_conv)
qed

lemma check_cargo_iff [check_iff]:
  "err_list (check_demo_waiver_cargo cargo m) = [] \<longleftrightarrow> (\<forall>t\<in>set (m_tasks m). waivers_off cargo t)"
  by (simp add: check_demo_waiver_cargo_def concat_map_Nil task_cargo_iff)

lemma resource_loop_Cons:
  "resource_loop ids names (r # rs) = [] \<longleftrightarrow>
     resource_entry_ok r \<and> ids (rs_id r) = None \<and> names (rs_name r) = None
     \<and> resource_loop (ids(rs_id r \<mapsto> rs_name r)) (names(rs_name r \<mapsto> rs_id r)) rs = []"
proof (cases "trim (rs_name r) = []")
  case True
  then have "list_all is_whitespace (rs_name r)" by (simp add: trim_Nil_iff)
  then have "\<not> resource_entry_ok r" unfolding resource_entry_ok_def by (cases "rs_name r") auto
  with True show ?thesis by simp
next
  case False
  then have ne: "rs_name r \<noteq> []" by (auto simp: trim_Nil_iff)
  have "list_ex (\<lambda>c. is_whitespace c \<or> c = CHR ''.'') (rs_name r) \<longleftrightarrow>
      \<not> (\<forall>c\<in>set (rs_name r). \<not> is_whitespace c \<and> c \<noteq> CHR ''.'')"
    by (auto simp: list_ex_iff)
  with ne have ok: "resource_entry_ok r \<longleftrightarrow> \<not> 4 \<le> rs_id r \<and> \<not> list_ex (\<lambda>c. is_whitespace c \<or> c = CHR ''.'') (rs_name r)
      \<and> trim (rs_kind r) \<noteq> []"
    unfolding resource_entry_ok_def trim_Nil_iff by (simp add: word_le_nat_alt not_le)
  from False show ?thesis unfolding ok by (auto simp: if_Nil split: option.splits)
qed

lemma resource_loop_Nil:
  "resource_loop ids names rs = [] \<longleftrightarrow>
     distinct (map rs_id rs) \<and> distinct (map rs_name rs)
     \<and> (\<forall>r\<in>set rs. ids (rs_id r) = None \<and> names (rs_name r) = None \<and> resource_entry_ok r)"
proof (induction rs arbitrary: ids names)
  case (Cons r rs)
  then show ?case unfolding resource_loop_Cons by (auto intro: image_eqI [OF sym])
qed simp

lemma check_resources_iff [check_iff]: "err_list (check_resources m) = [] \<longleftrightarrow> resources_ok m"
  by (simp add: check_resources_def resource_loop_Nil resources_ok_def)

lemma alnum_not_space: "is_ascii_alphanumeric c \<Longrightarrow> \<not> is_whitespace c"
  by (auto simp: is_ascii_alphanumeric_def is_whitespace_def Let_def)

lemma channel_loop_Nil:
  "channel_loop ns ids ms cs = [] \<longleftrightarrow>
     distinct (map c_id cs) \<and> distinct (map c_message cs)
     \<and> (\<forall>c\<in>set cs. ids (c_id c) = None \<and> ms (c_message c) = None \<and> unat (c_id c) < 8
          \<and> c_producer c \<in> set ns \<and> c_consumer c \<in> set ns
          \<and> c_producer c \<noteq> c_consumer c \<and> 0 < unat (c_size c) \<and> unat (c_size c) \<le> 64
          \<and> c_message c \<noteq> [] \<and> is_ascii_uppercase (hd (c_message c))
          \<and> (\<forall>ch\<in>set (c_message c). is_ascii_alphanumeric ch))"
proof (induction cs arbitrary: ids ms)
  case (Cons c cs)
  have id8: "8 \<le> c_id c \<longleftrightarrow> \<not> unat (c_id c) < 8" and sz: "64 < c_size c \<longleftrightarrow> \<not> unat (c_size c) \<le> 64"
    "c_size c = 0 \<longleftrightarrow> \<not> 0 < unat (c_size c)"
    by (auto simp: word_le_nat_alt word_less_nat_alt unat_eq_0)
  show ?case
  proof (cases "trim (c_message c) = []")
    case True
    then have "list_all is_whitespace (c_message c)" by (simp add: trim_Nil_iff)
    then have "\<not> (c_message c \<noteq> [] \<and> (\<forall>ch\<in>set (c_message c). is_ascii_alphanumeric ch))"
      using alnum_not_space by (cases "c_message c") auto
    with True show ?thesis by auto
  next
    case False
    then have ne: "c_message c \<noteq> []" by (auto simp: trim_Nil_iff)
    have ex: "list_ex (\<lambda>ch. \<not> is_ascii_alphanumeric ch) (c_message c) \<longleftrightarrow> \<not> (\<forall>ch\<in>set (c_message c). is_ascii_alphanumeric ch)"
      by (auto simp: list_ex_iff)
    show ?thesis using False ne
      by (auto simp: Cons.IH id8 sz ex if_Nil intro: image_eqI [OF sym] split: option.splits)
  qed
qed simp

lemma check_channels_iff [check_iff]: "err_list (check_channels m) = [] \<longleftrightarrow> channels_ok m"
  by (simp add: check_channels_def channel_loop_Nil channels_ok_def)

lemma grant_loop_Nil:
  "grant_loop n ids seen gs = [] \<longleftrightarrow> distinct (map g_resource_id gs)
     \<and> (\<forall>g\<in>set gs. unat (g_resource_id g) < 4 \<and> g_resource_id g \<in> set ids \<and> g_resource_id g \<notin> set seen
          \<and> g_action g \<in> set CAP_ACTIONS)"
  by (induction gs arbitrary: seen) (auto simp: word_le_nat_alt not_le intro: image_eqI [OF sym])

lemma check_local_caps_iff [check_iff]: "err_list (check_local_caps m) = [] \<longleftrightarrow> grants_ok m"
  by (auto simp: check_local_caps_def grant_loop_Nil grants_ok_def concat_map_Nil)

lemma validate_all_iff: "validate_all m mp = Inr () \<longleftrightarrow> manifest_valid m mp"
proof -
  have "validate_all m mp = Inr () \<longleftrightarrow>
      err_list (check_task_id_uniqueness (m_tasks m)) = [] \<and> err_list (check_napot_alignment (m_tasks m)) = []
      \<and> (err_list (check_intra_task_overlap (m_tasks m)) = [] \<and> err_list (check_cross_task_overlap (m_tasks m)) = []
         \<and> err_list (check_kernel_task_overlap m) = [])
      \<and> err_list (check_pmp_budget m) = [] \<and> err_list (check_safe_native_profile m) = []
      \<and> (case mp of None \<Rightarrow> True | Some cargo \<Rightarrow> err_list (check_demo_waiver_cargo cargo m) = [])
      \<and> err_list (check_resources m) = [] \<and> err_list (check_channels m) = [] \<and> err_list (check_local_caps m) = []"
    by (auto simp: validate_all_def split: option.splits)
  also have "\<dots> \<longleftrightarrow> manifest_valid m mp"
    unfolding check_iff manifest_valid_def using checks_separated_iff by (auto split: option.splits)
  finally show ?thesis .
qed

end
