(* ===== verification/Codegen.thy ===== *)
theory Codegen
  imports Manifest_Spec Capability
begin

text \<open>
  The generator of the kernel's constant tables, \<open>tools/sntm-validate/src/codegen.rs\<close>. The model
  returns the tables the emitted Rust text denotes: the profiles of \<open>pmp/generated.rs\<close> and the rows
  and channels of \<open>capability/cap_generated.rs\<close>. The theorems carry what the validator accepted
  through the generator to the registers: tasks of an accepted manifest cannot reach each other.
\<close>

section \<open>Tables (codegen.rs)\<close>

definition parse_perm :: "string \<Rightarrow> Permission" where
  "parse_perm s =
     (if s = ''RX'' then PERM_RX else if s = ''R'' then PERM_R else if s = ''RW'' then PERM_RW else PERM_NONE)"

definition emit_region :: "RegionEntry \<Rightarrow> Region" where
  "emit_region r =
     (let encoding = (case napot_size_log2 (r_base r) (r_size r) of
            Some log2 \<Rightarrow> Napot (napot_pmpaddr (r_base r) log2) log2
          | None \<Rightarrow> Tor (r_base r) (r_base r + r_size r))
      in \<lparr>reg_base = r_base r, reg_size = r_size r, reg_encoding = encoding, reg_perm = parse_perm (r_perm r)\<rparr>)"

definition emit_task_profile :: "TaskEntry \<Rightarrow> PmpProfile" where
  "emit_task_profile t =
     \<lparr>region_count = of_nat (length (t_regions t)),
      regions = map emit_region (t_regions t) @ replicate (6 - length (t_regions t)) region_none\<rparr>"

text \<open>\<open>HashMap\<close> insertion in order: a later entry with the same key replaces an earlier one.\<close>

definition tid_map :: "TaskEntry list \<Rightarrow> u8 \<rightharpoonup> TaskEntry" where
  "tid_map tasks = fold (\<lambda>t m. m(t_task_id t \<mapsto> t)) tasks Map.empty"

definition generate_pmp_profiles_rs :: "Manifest \<Rightarrow> PmpProfile list" where
  "generate_pmp_profiles_rs m =
     map (\<lambda>slot. case tid_map (m_tasks m) (of_nat slot) of
        Some t \<Rightarrow> emit_task_profile t | None \<Rightarrow> PROFILE_EMPTY) [0..<MAX_TASKS]"

definition action_to_variant :: "string \<Rightarrow> CapAction" where
  "action_to_variant a =
     (if a = ''None'' then CapNone else if a = ''Read'' then CapRead else if a = ''Write'' then CapWrite
      else if a = ''ReadWrite'' then CapReadWrite else if a = ''Execute'' then CapExecute
      else if a = ''All'' then CapAll else CapNone)"

definition cap_row :: "TaskEntry \<Rightarrow> CapAction list" where
  "cap_row t =
     fold (\<lambda>g r. if unat (g_resource_id g) < MAX_RESOURCES
                  then r[unat (g_resource_id g) := action_to_variant (g_action g)] else r)
       (t_local_caps t) (replicate MAX_RESOURCES CapNone)"

definition name_to_id :: "TaskEntry list \<Rightarrow> string \<rightharpoonup> u8" where
  "name_to_id tasks = fold (\<lambda>t m. m(t_name t \<mapsto> t_task_id t)) tasks Map.empty"

definition generate_cap_table_rs :: "Manifest \<Rightarrow> CapAction list list \<times> (u8 \<times> u8 \<times> u8) list" where
  "generate_cap_table_rs m =
     (map (\<lambda>slot. case tid_map (m_tasks m) (of_nat slot) of
         Some t \<Rightarrow> cap_row t | None \<Rightarrow> replicate MAX_RESOURCES CapNone) [0..<MAX_TASKS],
      map (\<lambda>c. (c_id c,
         case name_to_id (m_tasks m) (c_producer c) of Some i \<Rightarrow> i | None \<Rightarrow> 0xFF,
         case name_to_id (m_tasks m) (c_consumer c) of Some i \<Rightarrow> i | None \<Rightarrow> 0xFF)) (m_channels m))"

section \<open>NAPOT encoding of the host tool\<close>

lemma napot_size_log2_iff:
  "napot_size_log2 base sz = Some l \<longleftrightarrow>
     (\<exists>k. 3 \<le> k \<and> k < 64 \<and> unat sz = 2 ^ k \<and> 2 ^ k dvd unat base \<and> l = of_nat k)"
proof -
  have "napot_size_log2 base sz = Some l \<longleftrightarrow>
      host_valid_napot_alignment base sz \<and> l = of_nat (ilog2_nat (unat sz))"
    by (auto simp: napot_size_log2_def host_valid_napot_alignment_def)
  then show ?thesis unfolding host_napot_iff napot_aligned_def by auto
qed

lemma napot_size_log2_None: "napot_size_log2 base sz = None \<longleftrightarrow> \<not> napot_aligned base sz"
  by (metis napot_size_log2_iff napot_aligned_def not_None_eq)

lemma unat_u8_of_nat: "k < 64 \<Longrightarrow> unat (of_nat k :: u8) = k"
  by (simp add: unsigned_of_nat take_bit_nat_eq_self)

lemma napot_pmpaddr_encode:
  assumes "3 \<le> k" "k < 64"
  shows "napot_pmpaddr base (of_nat k) = napot_encode base k"
proof -
  have "(3::u8) \<le> of_nat k" using assms by (simp add: word_le_nat_alt unat_u8_of_nat)
  then have "unat (of_nat k - 3 :: u8) = k - 3" using assms by (simp add: unat_sub unat_u8_of_nat)
  then show ?thesis by (simp add: napot_pmpaddr_def napot_encode_def mask_eq_exp_minus_1 push_bit_eq_mult)
qed

text \<open>Decoding a NAPOT address: the trailing ones give the size, the rest the base.\<close>

fun trailing_ones :: "nat \<Rightarrow> u64 \<Rightarrow> nat" where
  "trailing_ones 0 w = 0"
| "trailing_ones (Suc n) w = (if bit w 0 then Suc (trailing_ones n (drop_bit 1 w)) else 0)"

definition napot_decode :: "u64 \<Rightarrow> u64 \<times> nat" where
  "napot_decode a = (let k = trailing_ones 64 a in (push_bit 2 (a AND NOT (mask k)), k + 3))"

lemma trailing_ones_eq: "k < n \<Longrightarrow> (\<forall>i<k. bit w i) \<Longrightarrow> \<not> bit w k \<Longrightarrow> trailing_ones n w = k"
proof (induction n arbitrary: w k)
  case (Suc n)
  show ?case
  proof (cases k)
    case 0
    then show ?thesis using Suc.prems by simp
  next
    case (Suc j)
    have "trailing_ones n (drop_bit 1 w) = j"
      using Suc.prems Suc by (intro Suc.IH) (auto simp: bit_simps)
    then show ?thesis using Suc.prems Suc by simp
  qed
qed simp

text \<open>
  Round trip of the NAPOT encoding: whenever the host tool accepts base and size, decoding the
  register value it emits gives back base and size, and the hardware's matching rule accepts exactly
  the addresses of the region.
\<close>
theorem napot_encoding_roundtrip:
  assumes "napot_size_log2 base sz = Some l"
  shows "napot_decode (napot_pmpaddr base l) = (base, unat l) \<and> unat sz = 2 ^ unat l
     \<and> (napot_match (napot_pmpaddr base l) (drop_bit 2 addr) \<longleftrightarrow> addr \<in> addrs base sz)"
proof -
  from assms obtain k where k: "3 \<le> k" "k < 64" "unat sz = 2 ^ k" "2 ^ k dvd unat base" "l = of_nat k"
    by (auto simp: napot_size_log2_iff)
  have l: "unat l = k" using k(2,5) by (simp add: unat_u8_of_nat)
  have enc: "napot_pmpaddr base l = napot_encode base k" using k by (simp add: napot_pmpaddr_encode)
  have low: "\<not> bit base i" if "i < k" for i
  proof -
    from k(4) have "take_bit k (unat base) = 0" by (simp add: take_bit_eq_mod)
    then have "take_bit k base = 0" by (simp add: word_unat_eq_iff unsigned_take_bit_eq)
    then show ?thesis using that by (metis bit_take_bit_iff bit_0_eq bot_apply bot_bool_def)
  qed
  have "trailing_ones 64 (napot_encode base k) = k - 3"
    using k low by (intro trailing_ones_eq) (auto simp: napot_encode_def bit_simps)
  moreover have "push_bit 2 (napot_encode base k AND NOT (mask (k - 3))) = base"
  proof (rule bit_word_eqI)
    fix n
    assume "n < LENGTH(64)"
    show "bit (push_bit 2 (napot_encode base k AND NOT (mask (k - 3)))) n = bit base n"
    proof (cases "n < 2")
      case True
      then show ?thesis using low k(1) by (simp add: bit_simps)
    next
      case False
      then have "Suc (Suc (n - 2)) = n" by simp
      moreover have "n < k" if "n - 2 < k - 3" using that False by arith
      ultimately show ?thesis using low [of n] \<open>n < LENGTH(64)\<close> False
        by (auto simp: napot_encode_def bit_simps)
    qed
  qed
  ultimately have "napot_decode (napot_pmpaddr base l) = (base, unat l)"
    using k(1) by (simp add: napot_decode_def enc l)
  then show ?thesis
    using napot_match_range [OF k(1,2,4), of addr] k(3) by (simp add: enc l addrs_def)
qed

section \<open>The tables of an accepted manifest\<close>

lemma fold_map_upd_distinct:
  assumes "distinct (map f xs)"
  shows "fold (\<lambda>x m. m(f x \<mapsto> g x)) xs m0 k = (case find (\<lambda>x. f x = k) xs of Some x \<Rightarrow> Some (g x) | None \<Rightarrow> m0 k)"
  using assms
proof (induction xs arbitrary: m0)
  case (Cons x xs)
  have "find (\<lambda>y. f y = f x) xs = None" using Cons.prems by (auto simp: find_None_iff intro: image_eqI [OF sym])
  with Cons show ?case by (auto split: option.splits)
qed simp

lemma tid_map_Some_iff:
  assumes "distinct (map t_task_id ts)"
  shows "tid_map ts k = Some t \<longleftrightarrow> t \<in> set ts \<and> t_task_id t = k"
proof -
  have "t = u" if "t \<in> set ts" "u \<in> set ts" "t_task_id t = t_task_id u" for t u
    using that assms by (simp add: distinct_map inj_on_def)
  then show ?thesis
    unfolding tid_map_def fold_map_upd_distinct [OF assms]
    by (auto split: option.splits simp: find_None_iff find_Some_iff in_set_conv_nth) (metis nth_mem)+
qed

lemma u8_slot: "i < 8 \<Longrightarrow> unat (of_nat i :: u8) = i"
  by (rule unat_u8_of_nat) simp

lemma generated_profile:
  assumes "distinct (map t_task_id (m_tasks m))" "t \<in> set (m_tasks m)" "unat (t_task_id t) < 8"
  shows "generate_pmp_profiles_rs m ! unat (t_task_id t) = emit_task_profile t"
proof -
  have "tid_map (m_tasks m) (t_task_id t) = Some t" using assms(1,2) by (simp add: tid_map_Some_iff)
  then show ?thesis using assms(3) by (simp add: generate_pmp_profiles_rs_def)
qed

lemma generated_profile_cases:
  assumes "distinct (map t_task_id (m_tasks m))" "p \<in> set (generate_pmp_profiles_rs m)"
  shows "p = PROFILE_EMPTY \<or> (\<exists>t\<in>set (m_tasks m). p = emit_task_profile t)"
proof -
  from assms(2) obtain k where "p = (case tid_map (m_tasks m) k of Some t \<Rightarrow> emit_task_profile t | None \<Rightarrow> PROFILE_EMPTY)"
    by (auto simp: generate_pmp_profiles_rs_def)
  then show ?thesis using tid_map_Some_iff [OF assms(1), of k] by (cases "tid_map (m_tasks m) k") auto
qed

lemma active_emit:
  "length (t_regions t) \<le> 6 \<Longrightarrow> active_regions (emit_task_profile t) = map emit_region (t_regions t)"
  by (simp add: active_regions_def emit_task_profile_def unat_u8_of_nat)

lemma parse_perm_cases: "parse_perm s \<in> {PERM_RX, PERM_R, PERM_RW, PERM_NONE}"
  by (simp add: parse_perm_def)

lemmas perm_defs = PERM_RX_def PERM_R_def PERM_RW_def PERM_NONE_def

lemma emit_region_simps [simp]:
  "reg_base (emit_region r) = r_base r" "reg_size (emit_region r) = r_size r"
  "reg_perm (emit_region r) = parse_perm (r_perm r)"
  by (simp_all add: emit_region_def Let_def)

lemma emit_region_encoding:
  assumes "entry_aligned r"
  obtains k where "3 \<le> k" "k < 64" "unat (r_size r) = 2 ^ k" "2 ^ k dvd unat (r_base r)"
    "reg_encoding (emit_region r) = Napot (napot_encode (r_base r) k) (of_nat k)"
proof -
  from assms obtain k where k: "3 \<le> k" "k < 64" "unat (r_size r) = 2 ^ k" "2 ^ k dvd unat (r_base r)"
    by (auto simp: napot_aligned_def)
  then have "napot_size_log2 (r_base r) (r_size r) = Some (of_nat k)" by (auto simp: napot_size_log2_iff)
  with k show ?thesis by (intro that [of k]) (simp_all add: emit_region_def Let_def napot_pmpaddr_encode)
qed

lemma region_ok_emit:
  assumes "entry_aligned r" "unat (r_base r) + unat (r_size r) < 2 ^ 55"
  shows "region_ok (emit_region r)" "length (region_plan (emit_region r)) = 1"
proof -
  from assms(1) obtain k where k: "3 \<le> k" "k < 64" "unat (r_size r) = 2 ^ k" "2 ^ k dvd unat (r_base r)"
    "reg_encoding (emit_region r) = Napot (napot_encode (r_base r) k) (of_nat k)"
    by (rule emit_region_encoding)
  from assms(2) k(3) have "(2::nat) ^ k < 2 ^ 55" by linarith
  then have k55: "k < 55" by (simp only: power_strict_increasing_iff)
  have "r_size r = 2 ^ k" using k by (simp add: word_unat_eq_iff unat_pow2)
  with k k55 assms(2) show "region_ok (emit_region r)"
    using parse_perm_cases [of "r_perm r"] by (auto simp: region_ok_def perm_defs unat_u8_of_nat)
  show "length (region_plan (emit_region r)) = 1" by (simp add: region_plan_def k(5))
qed

text \<open>All regions end below the range the address registers can hold.\<close>

definition below_pmp_range :: "Manifest \<Rightarrow> bool" where
  "below_pmp_range m \<longleftrightarrow>
     (\<forall>t\<in>set (m_tasks m). \<forall>r\<in>set (t_regions t). unat (r_base r) + unat (r_size r) < 2 ^ 55)"

lemma profile_ok_emit:
  assumes "shapes_ok m" "below_pmp_range m" "t \<in> set (m_tasks m)"
  shows "profile_ok (emit_task_profile t)"
proof -
  have six: "length (t_regions t) \<le> 6" using assms by (simp add: shapes_ok_def)
  have r: "region_ok (emit_region r) \<and> length (region_plan (emit_region r)) = 1" if "r \<in> set (t_regions t)" for r
    using assms that region_ok_emit [of r] by (auto simp: shapes_ok_def below_pmp_range_def)
  have "length (concat (map region_plan (map emit_region rs))) = length rs" if "set rs \<subseteq> set (t_regions t)" for rs
    using that r by (induction rs) auto
  from this [of "t_regions t"] six r show ?thesis
    by (auto simp: profile_ok_def active_emit list_all_iff)
qed

lemma sorted_wrt_unique:
  "sorted_wrt D xs \<Longrightarrow> x \<in> set xs \<Longrightarrow> y \<in> set xs \<Longrightarrow> \<not> D x y \<Longrightarrow> \<not> D y x \<Longrightarrow> x = y"
  by (induction xs) auto

lemma separated_unique:
  assumes "separated m" "t \<in> set (m_tasks m)" "u \<in> set (m_tasks m)" "r \<in> set (t_regions t)" "s \<in> set (t_regions u)"
    and "a \<in> entry_addrs r" "a \<in> entry_addrs s"
  shows "t = u"
proof (rule sorted_wrt_unique)
  show "sorted_wrt (\<lambda>t u. \<forall>r\<in>set (t_regions t). \<forall>s\<in>set (t_regions u). entry_addrs r \<inter> entry_addrs s = {}) (m_tasks m)"
    using assms(1) by (simp add: separated_def)
qed (use assms in blast)+

lemma separated_region_unique:
  assumes "separated m" "t \<in> set (m_tasks m)" "r \<in> set (t_regions t)" "s \<in> set (t_regions t)"
    and "a \<in> entry_addrs r" "a \<in> entry_addrs s"
  shows "r = s"
proof (rule sorted_wrt_unique)
  show "sorted_wrt (\<lambda>r s. entry_addrs r \<inter> entry_addrs s = {}) (t_regions t)"
    using assms(1,2) by (simp add: separated_def)
qed (use assms in blast)+

lemma in_region_emit: "in_region a (emit_region r) \<longleftrightarrow> a \<in> entry_addrs r"
  by (simp add: in_region_def addrs_def)

lemma find_emit:
  assumes "separated m" "t \<in> set (m_tasks m)"
  shows "(case find (in_region a) (map emit_region (t_regions t)) of
      None \<Rightarrow> False | Some r \<Rightarrow> access_matches acc (reg_perm r)) \<longleftrightarrow>
    (\<exists>r\<in>set (t_regions t). a \<in> entry_addrs r \<and> access_matches acc (parse_perm (r_perm r)))"
proof (cases "find (in_region a) (map emit_region (t_regions t))")
  case None
  then have "\<forall>r\<in>set (t_regions t). a \<notin> entry_addrs r" by (auto simp: find_None_iff in_region_emit)
  with None show ?thesis by auto
next
  case (Some q)
  then have "q \<in> set (map emit_region (t_regions t))" "in_region a q"
    by (auto simp: find_Some_iff)
  then obtain r where r: "r \<in> set (t_regions t)" "q = emit_region r" "a \<in> entry_addrs r"
    by (auto simp: in_region_emit)
  with Some separated_region_unique [OF assms] show ?thesis by auto
qed

text \<open>
  C8. Isolation from the manifest to the registers: when the validator accepts a manifest whose
  regions lie below the range of the address registers, then after boot and any sequence of switches
  that ends with the generated profile of a task, an address from the native task base on is
  accessible from user mode exactly when one of the task's own regions contains it with that
  permission; no address of another task's region is accessible.
\<close>
theorem validated_manifest_isolates:
  assumes "validate_all m mp = Inr ()" "below_pmp_range m"
    and t: "t \<in> set (m_tasks m)" "unat (t_task_id t) < MAX_TASKS"
    and hw: "pmp_shape h" "warl_ok h" "linker_ok ld" "list_all switch_ok sws" "NATIVE_TASK_BASE \<le> addr"
  shows "let g = fold do_switch (sws @ [To_profile (generate_pmp_profiles_rs m ! unat (t_task_id t))]) (init_pmp ld uart h)
    in (user_allowed g acc addr \<longleftrightarrow>
         (\<exists>r\<in>set (t_regions t). addr \<in> entry_addrs r \<and> access_matches acc (parse_perm (r_perm r))))
     \<and> (\<forall>u\<in>set (m_tasks m). \<forall>s\<in>set (t_regions u). u \<noteq> t \<and> addr \<in> entry_addrs s \<longrightarrow> \<not> user_allowed g acc addr)"
proof -
  have v: "distinct (map t_task_id (m_tasks m))" "shapes_ok m" "separated m"
    using assms(1) by (auto simp: validate_all_iff manifest_valid_def)
  have p: "generate_pmp_profiles_rs m ! unat (t_task_id t) = emit_task_profile t"
    using generated_profile [OF v(1) t(1)] t(2) by simp
  have ok: "profile_ok (emit_task_profile t)" by (rule profile_ok_emit [OF v(2) assms(2) t(1)])
  have six: "length (t_regions t) \<le> 6" using v(2) t(1) by (simp add: shapes_ok_def)
  define g where "g = fold do_switch (sws @ [To_profile (generate_pmp_profiles_rs m ! unat (t_task_id t))]) (init_pmp ld uart h)"
  have exact: "user_allowed g acc addr \<longleftrightarrow>
      (\<exists>r\<in>set (t_regions t). addr \<in> entry_addrs r \<and> access_matches acc (parse_perm (r_perm r)))"
    unfolding g_def p user_allowed_after_switch [OF hw(1-4) ok hw(5)] active_emit [OF six]
    by (rule find_emit [OF v(3) t(1)])
  then show ?thesis unfolding Let_def g_def [symmetric] using separated_unique [OF v(3) _ t(1)] by blast
qed

text \<open>
  C38. Type of the generated table: for every accepted manifest it has one profile per task slot, each
  with six region slots of which the first \<open>region_count\<close> (at most six) are the manifest's regions,
  and no profile has a region that is both writable and executable.
\<close>
theorem generated_table_typed:
  assumes "validate_all m mp = Inr ()"
  shows "length (generate_pmp_profiles_rs m) = MAX_TASKS
    \<and> list_all (\<lambda>p. length (regions p) = 6 \<and> unat (region_count p) \<le> 6
         \<and> active_regions p = take (unat (region_count p)) (regions p) \<and> write_xor_execute p)
       (generate_pmp_profiles_rs m)"
proof -
  have v: "distinct (map t_task_id (m_tasks m))" "shapes_ok m"
    using assms by (auto simp: validate_all_iff manifest_valid_def)
  have "length (regions p) = 6 \<and> unat (region_count p) \<le> 6
      \<and> active_regions p = take (unat (region_count p)) (regions p) \<and> write_xor_execute p"
    if p: "p \<in> set (generate_pmp_profiles_rs m)" for p
  proof -
    consider "p = PROFILE_EMPTY" | t where "t \<in> set (m_tasks m)" "p = emit_task_profile t"
      using generated_profile_cases [OF v(1) p] by blast
    then show ?thesis
    proof cases
      case 1
      then show ?thesis by (simp add: PROFILE_EMPTY_def active_regions_def write_xor_execute_def)
    next
      case 2
      then have six: "length (t_regions t) \<le> 6" using v(2) by (simp add: shapes_ok_def)
      have "\<not> (perm_w (parse_perm s) \<and> perm_x (parse_perm s))" for s
        using parse_perm_cases [of s] by (auto simp: perm_defs)
      then have "write_xor_execute p" unfolding 2(2) write_xor_execute_def active_emit [OF six]
        by (simp add: list_all_iff)
      then show ?thesis using six 2(2)
        by (simp add: emit_task_profile_def active_regions_def unat_u8_of_nat)
    qed
  qed
  then show ?thesis by (simp add: list_all_iff) (simp add: generate_pmp_profiles_rs_def)
qed

section \<open>Capability rows and channels\<close>

lemma length_cap_row [simp]: "length (cap_row t) = MAX_RESOURCES"
proof -
  have "length (fold (\<lambda>g r. if unat (g_resource_id g) < MAX_RESOURCES
      then r[unat (g_resource_id g) := action_to_variant (g_action g)] else r) gs xs) = length xs"
    for gs :: "LocalCapGrant list" and xs
    by (induction gs arbitrary: xs) auto
  then show ?thesis by (simp add: cap_row_def)
qed

lemma cap_row_loop:
  assumes "distinct (map g_resource_id gs)" "length xs = 4" "i < 4"
  shows "fold (\<lambda>g r. if unat (g_resource_id g) < 4
      then r[unat (g_resource_id g) := action_to_variant (g_action g)] else r) gs xs ! i =
    (case find (\<lambda>g. unat (g_resource_id g) = i) gs of Some g \<Rightarrow> action_to_variant (g_action g) | None \<Rightarrow> xs ! i)"
  using assms
proof (induction gs arbitrary: xs)
  case (Cons g gs)
  have "find (\<lambda>g. unat (g_resource_id g) = i) gs = None" if "unat (g_resource_id g) = i"
    using Cons.prems(1) that by (auto simp: find_None_iff unsigned_word_eqI)
      (metis image_eqI unsigned_word_eqI)
  with Cons show ?case by (auto split: option.splits simp: nth_list_update)
qed simp

lemma cap_row_nth:
  assumes "distinct (map g_resource_id (t_local_caps t))" "i < 4"
  shows "cap_row t ! i =
    (case find (\<lambda>g. unat (g_resource_id g) = i) (t_local_caps t) of
       Some g \<Rightarrow> action_to_variant (g_action g) | None \<Rightarrow> CapNone)"
  unfolding cap_row_def using cap_row_loop [OF assms(1) _ assms(2)] assms(2) by (simp split: option.splits)

lemma name_to_id_mem: "n \<in> t_name ` set ts \<Longrightarrow> \<exists>t\<in>set ts. t_name t = n \<and> name_to_id ts n = Some (t_task_id t)"
proof -
  have "fold (\<lambda>t m. m(t_name t \<mapsto> t_task_id t)) ts m0 n = m0 n \<and> n \<notin> t_name ` set ts
      \<or> (\<exists>t\<in>set ts. t_name t = n \<and> fold (\<lambda>t m. m(t_name t \<mapsto> t_task_id t)) ts m0 n = Some (t_task_id t))" for m0
  proof (induction ts arbitrary: m0)
    case (Cons t ts)
    from Cons [of "m0(t_name t \<mapsto> t_task_id t)"] show ?case by auto
  qed simp
  then show "n \<in> t_name ` set ts \<Longrightarrow> \<exists>t\<in>set ts. t_name t = n \<and> name_to_id ts n = Some (t_task_id t)"
    unfolding name_to_id_def by (metis (no_types, lifting))
qed


end
