(* ===== verification/Stack_Report.thy ===== *)
theory Stack_Report
  imports Rust_Text
begin

text \<open>
  The reader of stack reports, kept twice in the repository: \<open>tools/sntm-validate/src/stackreport.rs\<close>
  and \<open>tools/sntm-cert-gen/src/stackreport.rs\<close>. The two copies of \<open>parse\<close> are the same text;
  each tool has its own wrapper.
\<close>

abbreviation UNKNOWN_SENTINEL :: u32 where "UNKNOWN_SENTINEL \<equiv> 0xFFFFFFFF"

definition EXPECTED_BANNER_PREFIX :: string where
  "EXPECTED_BANNER_PREFIX = ''SNTM-STACK v''"

record ParsedReport =
  status_pass :: bool
  max_stack_bytes :: u32
  reason :: "string option"

datatype report_error = Invalid_status string | Invalid_hex string | Invalid_decimal string
  | Missing_banner | Missing_status | Missing_max_stack | Analysis_fail string | Unknown_value

text \<open>The variables of the loop: banner seen, status, value, reason.\<close>

record report_scan =
  saw_banner :: bool
  scan_status :: "bool option"
  scan_max :: "u32 option"
  scan_reason :: "string option"

definition scan_start :: report_scan where
  "scan_start = \<lparr>saw_banner = False, scan_status = None, scan_max = None, scan_reason = None\<rparr>"

definition parse_max :: "string \<Rightarrow> report_error + u32" where
  "parse_max v =
     (if v = ''0xFFFFFFFF'' \<or> v = ''0xffffffff'' then Inr UNKNOWN_SENTINEL
      else case strip_prefix ''0x'' v of
          Some hex \<Rightarrow> (case from_str_radix 16 (2 ^ 32) hex of
              Some n \<Rightarrow> Inr (of_nat n) | None \<Rightarrow> Inl (Invalid_hex v))
        | None \<Rightarrow> (case from_str_radix 10 (2 ^ 32) v of
              Some n \<Rightarrow> Inr (of_nat n) | None \<Rightarrow> Inl (Invalid_decimal v)))"

definition scan_line :: "string \<Rightarrow> report_scan \<Rightarrow> report_error + report_scan" where
  "scan_line raw s =
     (let line = trim_end raw in
      if starts_with EXPECTED_BANNER_PREFIX line then Inr (s\<lparr>saw_banner := True\<rparr>)
      else case strip_prefix ''status:'' line of
          Some rest \<Rightarrow>
            (let v = trim rest in
             if v = ''PASS'' then Inr (s\<lparr>scan_status := Some True\<rparr>)
             else if v = ''FAIL'' then Inr (s\<lparr>scan_status := Some False\<rparr>)
             else Inl (Invalid_status v))
        | None \<Rightarrow>
            (case strip_prefix ''max_stack_bytes:'' line of
               Some rest \<Rightarrow> and_then (parse_max (trim rest)) (\<lambda>n. Inr (s\<lparr>scan_max := Some n\<rparr>))
             | None \<Rightarrow>
                 (case strip_prefix ''reason:'' line of
                    Some rest \<Rightarrow> Inr (s\<lparr>scan_reason := Some (trim rest)\<rparr>)
                  | None \<Rightarrow> Inr s)))"

fun scan_report :: "string list \<Rightarrow> report_scan \<Rightarrow> report_error + report_scan" where
  "scan_report [] s = Inr s"
| "scan_report (l # ls) s = and_then (scan_line l s) (scan_report ls)"

definition parse_report :: "string \<Rightarrow> report_error + ParsedReport" where
  "parse_report rep =
     and_then (scan_report (str_lines rep) scan_start) (\<lambda>s.
       if \<not> saw_banner s then Inl Missing_banner
       else case scan_status s of
           None \<Rightarrow> Inl Missing_status
         | Some p \<Rightarrow>
             (case scan_max s of
                None \<Rightarrow> Inl Missing_max_stack
              | Some n \<Rightarrow> Inr \<lparr>status_pass = p, max_stack_bytes = n, reason = scan_reason s\<rparr>))"

text \<open>\<open>sntm-validate\<close>: a failed or unknown analysis is an error.\<close>

definition parse_max_stack_bytes :: "string \<Rightarrow> report_error + u32" where
  "parse_max_stack_bytes rep =
     and_then (parse_report rep) (\<lambda>p.
       if \<not> status_pass p
       then Inl (Analysis_fail (case reason p of Some r \<Rightarrow> r | None \<Rightarrow> ''unspecified''))
       else if max_stack_bytes p = UNKNOWN_SENTINEL then Inl Unknown_value
       else Inr (max_stack_bytes p))"

text \<open>\<open>sntm-cert-gen\<close>: a failed, unknown or malformed report is the sentinel.\<close>

definition parse_max_stack_or_unknown :: "string \<Rightarrow> u32" where
  "parse_max_stack_or_unknown rep =
     (case parse_report rep of
        Inr p \<Rightarrow> if status_pass p \<and> max_stack_bytes p \<noteq> UNKNOWN_SENTINEL then max_stack_bytes p else UNKNOWN_SENTINEL
      | Inl _ \<Rightarrow> UNKNOWN_SENTINEL)"

text \<open>The two wrappers agree: the certificate carries a number exactly when the validator has one.\<close>

lemma report_wrappers_agree:
  "parse_max_stack_or_unknown rep = (case parse_max_stack_bytes rep of Inr n \<Rightarrow> n | Inl _ \<Rightarrow> UNKNOWN_SENTINEL)"
  by (cases "parse_report rep") (auto simp: parse_max_stack_or_unknown_def parse_max_stack_bytes_def)

lemma parse_max_stack_bytes_known: "parse_max_stack_bytes rep = Inr n \<Longrightarrow> n \<noteq> UNKNOWN_SENTINEL"
  by (cases "parse_report rep") (auto simp: parse_max_stack_bytes_def split: if_splits)

section \<open>Lines the reader skips\<close>

lemma scan_report_append:
  "scan_report (xs @ ys) s = and_then (scan_report xs s) (scan_report ys)"
proof (induction xs arbitrary: s)
  case (Cons x xs)
  show ?case by (cases "scan_line x s") (simp_all add: Cons)
qed simp

definition ignored_line :: "string \<Rightarrow> bool" where
  "ignored_line l \<longleftrightarrow> (\<forall>p\<in>{EXPECTED_BANNER_PREFIX, ''status:'', ''max_stack_bytes:'', ''reason:''}.
     \<not> starts_with p (trim_end l))"

lemma scan_ignored: "ignored_line l \<Longrightarrow> scan_line l s = Inr s"
  by (simp add: ignored_line_def scan_line_def Let_def strip_prefix_def)

lemma scan_report_ignored: "list_all ignored_line ls \<Longrightarrow> scan_report ls s = Inr s"
  by (induction ls) (simp_all add: scan_ignored)

text \<open>A line that begins with another character than the four keywords is skipped.\<close>

lemma trim_end_prefix: "\<exists>ws. s = trim_end s @ ws"
  unfolding trim_end_def
  by (rule exI [of _ "rev (takeWhile is_whitespace (rev s))"]) (metis rev_append rev_rev_ident takeWhile_dropWhile_id)

lemma ignored_by_head:
  assumes "l = [] \<or> hd l \<notin> {CHR ''S'', CHR ''s'', CHR ''m'', CHR ''r''}"
  shows "ignored_line l"
proof -
  obtain ws where ws: "l = trim_end l @ ws" using trim_end_prefix [of l] by blast
  have "\<not> starts_with p (trim_end l)" if p: "p \<noteq> []" "hd p \<in> {CHR ''S'', CHR ''s'', CHR ''m'', CHR ''r''}" for p
  proof
    assume "starts_with p (trim_end l)"
    then have "p @ drop (length p) (trim_end l) = trim_end l"
      unfolding starts_with_def by (metis append_take_drop_id)
    then have "l = p @ drop (length p) (trim_end l) @ ws" using ws by (metis append_assoc)
    then have "l \<noteq> [] \<and> hd l = hd p" using p(1) by (metis append_is_Nil_conv hd_append2)
    with assms p(2) show False by simp
  qed
  then show ?thesis by (simp add: ignored_line_def EXPECTED_BANNER_PREFIX_def)
qed

lemma ignored_prefix:
  assumes "starts_with q l" "\<And>p. p \<in> {EXPECTED_BANNER_PREFIX, ''status:'', ''max_stack_bytes:'', ''reason:''} \<Longrightarrow>
    take (min (length p) (length q)) p \<noteq> take (min (length p) (length q)) q"
  shows "ignored_line l"
proof -
  obtain ws where ws: "l = trim_end l @ ws" using trim_end_prefix [of l] by blast
  have "\<not> starts_with p (trim_end l)"
    if "p \<in> {EXPECTED_BANNER_PREFIX, ''status:'', ''max_stack_bytes:'', ''reason:''}" for p
  proof
    assume "starts_with p (trim_end l)"
    then have "p @ drop (length p) (trim_end l) = trim_end l"
      unfolding starts_with_def by (metis append_take_drop_id)
    then have "take (length p) l = p" using ws by (metis append_assoc append_eq_conv_conj)
    moreover have "take (length q) l = q" using assms(1) by (simp add: starts_with_def)
    ultimately have "take (min (length p) (length q)) p = take (min (length p) (length q)) q"
      by (metis min.commute take_take min.idem)
    with assms(2) [OF that] show False by simp
  qed
  then show ?thesis by (simp add: ignored_line_def)
qed

end
