(* ===== verification/Channel_Gen.thy ===== *)
theory Channel_Gen
  imports Manifest_Spec
begin

text \<open>
  The typed channel wrappers as source text: \<open>generate_channels_rs\<close> of
  \<open>tools/sntm-validate/src/codegen.rs\<close> with its header, the lines it writes for a channel and the
  conversion of message names into function names. Texts are the bytes of the file; the three
  characters outside ASCII are their UTF-8 sequences.
\<close>

section \<open>Function names\<close>

definition to_lowercase :: "char \<Rightarrow> char" where
  "to_lowercase c = char_of ((of_char c :: nat) + 32)"

fun snake_loop :: "nat \<Rightarrow> string \<Rightarrow> string" where
  "snake_loop i [] = []"
| "snake_loop i (ch # s) =
     (if is_ascii_uppercase ch then (if 0 < i then ''_'' else []) @ [to_lowercase ch] else [ch]) @ snake_loop (i + 1) s"

definition pascal_to_snake :: "string \<Rightarrow> string" where
  "pascal_to_snake s = snake_loop 0 s"

section \<open>The text\<close>

definition EM_DASH :: string where "EM_DASH = [CHR 0xE2, CHR 0x80, CHR 0x94]"
definition ARROW :: string where "ARROW = [CHR 0xE2, CHR 0x86, CHR 0x92]"

definition bars :: "nat \<Rightarrow> string" where
  "bars n = concat (replicate n [CHR 0xE2, CHR 0x94, CHR 0x80])"

definition CHANNELS_HEADER :: "string list" where
  \<open>CHANNELS_HEADER =
    [''//! GENERATED FILE '' @ EM_DASH @ '' DO NOT EDIT.'',
     ''//!'',
     ''//! Source: sipahi.toml ['' @ ''[channel]] entries.'',
     ''//! Run `bash scripts/regen_safe_codegen.sh` to regenerate.'',
     ''//! SAFE-2 (sprint-u31): typed IPC API per CR-4 safety gate template.'',
     ''//!'',
     ''//! Drift detection: CI runs sntm-validate --output-channels + git diff.'',
     ''//!'',
     ''//! Per CR-4 safety gates: each struct enforces:'',
     ''//!   - size_of::<T>() == manifest size_field    (compile-time assert)'',
     ''//!   - size_of::<T>() <= IPC_MSG_SIZE           (compile-time assert)'',
     ''//!   - align_of::<T>() <= 8                     (compile-time assert)'',
     ''//!   - repr(C, align(8)) for stable ABI'',
     ''//!   - send: Message::empty() before copy '' @ ARROW @ '' no padding leak'',
     ''//!   - recv: copy_nonoverlapping(_, _, size_of::<T>()) '' @ ARROW @ '' only first N bytes'',
     [],
     ''// Without per-task features, the cfg-gated wrappers vanish and the imports'',
     ''// look unused '' @ EM_DASH @ '' but they are referenced by the generated send/recv bodies'',
     ''// once any `task_*` feature is enabled. Suppress the false-positive warning'',
     ''// (also dodges a rustc 1.96 annotate_snippets ICE on the warning render).'',
     ''#![allow(unused_imports)]'',
     [],
     ''use crate::ipc::Message;'',
     ''use crate::syscall;'',
     ''use crate::Error;'',
     []]\<close>

text \<open>The structure with its compile-time assertions, the producer's wrapper and the consumer's.\<close>

definition channel_struct :: "ChannelEntry \<Rightarrow> string list" where
  \<open>channel_struct c =
    [''// '' @ bars 3 @ '' channel '' @ fmt_dec (unat (c_id c)) @ '' ('' @ c_producer c @ '' '' @ ARROW @ '' '' @ c_consumer c @ '') '' @ bars 27,
     [],
     ''/// Typed IPC message body for channel '' @ fmt_dec (unat (c_id c)) @ '' ('' @ c_message c @ '').'',
     ''/// SAFE-2 invariant: size = '' @ fmt_dec (unat (c_size c)) @ '' bytes, repr(C, align(8)).'',
     ''#[repr(C, align(8))]'',
     ''#[derive(Clone, Copy, Debug)]'',
     ''pub struct '' @ c_message c @ '' {'',
     ''    /// Opaque payload (manifest size = '' @ fmt_dec (unat (c_size c)) @ '' bytes).'',
     ''    pub bytes: [u8; '' @ fmt_dec (unat (c_size c)) @ ''],'',
     ''}'',
     [],
     ''// CR-4 compile-time safety gates'',
     ''const _: () = assert!(core::mem::size_of::<'' @ c_message c @ ''>() == '' @ fmt_dec (unat (c_size c)) @ '');'',
     ''const _: () = assert!(core::mem::size_of::<'' @ c_message c @ ''>() <= Message::SIZE);'',
     ''const _: () = assert!(core::mem::align_of::<'' @ c_message c @ ''>() <= 8);'',
     []]\<close>

definition send_wrapper :: "ChannelEntry \<Rightarrow> string \<Rightarrow> string list" where
  \<open>send_wrapper c snake =
    [''/// Send a typed `'' @ c_message c @ ''` message on channel '' @ fmt_dec (unat (c_id c)) @ '' ('' @ c_producer c @ '' '' @ ARROW @ '' '' @ c_consumer c @ '').'',
     ''/// Cfg-gated: only compiles when `task_'' @ c_producer c @ ''` feature is enabled.'',
     ''#[cfg(feature = "task_'' @ c_producer c @ ''")]'',
     ''#[inline]'',
     ''pub fn send_'' @ snake @ ''(msg: &'' @ c_message c @ '') -> Result<(), Error> {'',
     ''    const CHANNEL_ID: u8 = '' @ fmt_dec (unat (c_id c)) @ '';'',
     ''    // CR-4: zero-init buf prevents padding-byte leakage; only size_of::<T>() bytes copied.'',
     ''    let mut buf = Message::empty();'',
     ''    // SAFETY: T is repr(C, align(8)); size asserted at compile time; buf has IPC_MSG_SIZE bytes;'',
     ''    // source and dest non-overlapping (distinct stack allocations).'',
     ''    unsafe {'',
     ''        core::ptr::copy_nonoverlapping('',
     ''            msg as *const _ as *const u8,'',
     ''            buf.data.as_mut_ptr(),'',
     ''            core::mem::size_of::<'' @ c_message c @ ''>(),'',
     ''        );'',
     ''    }'',
     ''    syscall::ipc_send(CHANNEL_ID, &buf)'',
     ''}'',
     []]\<close>

definition recv_wrapper :: "ChannelEntry \<Rightarrow> string \<Rightarrow> string list" where
  \<open>recv_wrapper c snake =
    [''/// Receive a typed `'' @ c_message c @ ''` message on channel '' @ fmt_dec (unat (c_id c)) @ '' ('' @ c_producer c @ '' '' @ ARROW @ '' '' @ c_consumer c @ '').'',
     ''/// `Ok(None)` = empty channel (non-blocking).'',
     ''/// Cfg-gated: only compiles when `task_'' @ c_consumer c @ ''` feature is enabled.'',
     ''#[cfg(feature = "task_'' @ c_consumer c @ ''")]'',
     ''#[inline]'',
     ''pub fn recv_'' @ snake @ ''() -> Result<Option<'' @ c_message c @ ''>, Error> {'',
     ''    const CHANNEL_ID: u8 = '' @ fmt_dec (unat (c_id c)) @ '';'',
     ''    let mut buf = Message::empty();'',
     ''    match syscall::ipc_recv(CHANNEL_ID, &mut buf) {'',
     ''        Ok(true) => {'',
     ''            let mut out = core::mem::MaybeUninit::<'' @ c_message c @ ''>::uninit();'',
     ''            // SAFETY: kernel returned IPC_MSG_SIZE bytes; we read only size_of::<T>().'',
     ''            unsafe {'',
     ''                core::ptr::copy_nonoverlapping('',
     ''                    buf.data.as_ptr(),'',
     ''                    out.as_mut_ptr() as *mut u8,'',
     ''                    core::mem::size_of::<'' @ c_message c @ ''>(),'',
     ''                );'',
     ''                Ok(Some(out.assume_init()))'',
     ''            }'',
     ''        }'',
     ''        Ok(false) => Ok(None),'',
     ''        Err(e) => Err(e),'',
     ''    }'',
     ''}'',
     []]\<close>

definition emit_channel_struct_and_wrappers :: "ChannelEntry \<Rightarrow> string list" where
  "emit_channel_struct_and_wrappers c =
     (let snake = pascal_to_snake (c_message c) in channel_struct c @ send_wrapper c snake @ recv_wrapper c snake)"

definition generate_channels_rs :: "Manifest \<Rightarrow> string" where
  \<open>generate_channels_rs m =
     unlines CHANNELS_HEADER @
     (if m_channels m = [] then unlines [''// (no ['' @ ''[channel]] entries in manifest)'']
      else concat (map (\<lambda>c. unlines (emit_channel_struct_and_wrappers c)) (m_channels m)))\<close>

section \<open>Names do not collide\<close>

fun unsnake :: "string \<Rightarrow> string" where
  "unsnake [] = []"
| "unsnake [c] = [c]"
| "unsnake (c # d # s) = (if c = CHR ''_'' then char_of ((of_char d :: nat) - 32) # unsnake s else c # unsnake (d # s))"

lemma unsnake_plain: "c \<noteq> CHR ''_'' \<Longrightarrow> unsnake (c # s) = c # unsnake s"
  by (cases s) simp_all

lemma of_char_lowercase: "is_ascii_uppercase c \<Longrightarrow> (of_char (to_lowercase c) :: nat) = of_char c + 32"
  by (simp add: to_lowercase_def is_ascii_uppercase_def Let_def)

lemma unsnake_upper: "is_ascii_uppercase c \<Longrightarrow> unsnake (CHR ''_'' # to_lowercase c # s) = c # unsnake s"
  by (simp add: of_char_lowercase)

lemma alnum_not_underscore: "is_ascii_alphanumeric c \<Longrightarrow> c \<noteq> CHR ''_''"
  by (auto simp: is_ascii_alphanumeric_def Let_def)

lemma unsnake_loop: "list_all is_ascii_alphanumeric s \<Longrightarrow> unsnake (snake_loop (Suc i) s) = s"
proof (induction s arbitrary: i)
  case (Cons c s)
  then show ?case
    using unsnake_upper [of c "snake_loop (Suc (Suc i)) s"] unsnake_plain [OF alnum_not_underscore, of c "snake_loop (Suc (Suc i)) s"]
    by (cases "is_ascii_uppercase c") simp_all
qed simp

text \<open>Different message names, as the validator admits them, give different function names.\<close>

definition pascal_name :: "string \<Rightarrow> bool" where
  "pascal_name s \<longleftrightarrow> s \<noteq> [] \<and> is_ascii_uppercase (hd s) \<and> list_all is_ascii_alphanumeric s"

lemma pascal_to_snake_inj: "inj_on pascal_to_snake {s. pascal_name s}"
proof (rule inj_onI)
  fix s t
  assume "s \<in> {s. pascal_name s}" "t \<in> {s. pascal_name s}" and eq: "pascal_to_snake s = pascal_to_snake t"
  then obtain c s' d t' where st: "s = c # s'" "t = d # t'" "is_ascii_uppercase c" "is_ascii_uppercase d"
    "list_all is_ascii_alphanumeric s'" "list_all is_ascii_alphanumeric t'"
    by (cases s; cases t) (auto simp: pascal_name_def)
  with eq have e: "to_lowercase c = to_lowercase d" "snake_loop (Suc 0) s' = snake_loop (Suc 0) t'"
    by (simp_all only: pascal_to_snake_def snake_loop.simps) auto
  have "(of_char c :: nat) = of_char d"
    using of_char_lowercase [OF st(3)] of_char_lowercase [OF st(4)] e(1) by (metis add_right_cancel)
  moreover have "s' = t'" using unsnake_loop [OF st(5), of 0] unsnake_loop [OF st(6), of 0] e(2) by metis
  ultimately show "s = t" using st(1,2) by simp
qed

text \<open>
  The generated channel file defines every name once: for an accepted manifest the structure names
  are distinct, and so are the names of the send and of the receive functions, which the conversion
  into snake case keeps apart.
\<close>
theorem wrapper_names_distinct:
  assumes "validate_all m mp = Inr ()"
  shows "distinct (map c_message (m_channels m)) \<and> distinct (map (\<lambda>c. pascal_to_snake (c_message c)) (m_channels m))"
proof -
  have ok: "channels_ok m" using assms by (simp add: validate_all_iff manifest_valid_def)
  then have d: "distinct (map c_message (m_channels m))" by (simp add: channels_ok_def)
  have "c_message ` set (m_channels m) \<subseteq> {s. pascal_name s}"
    using ok by (auto simp: channels_ok_def pascal_name_def list_all_iff)
  then have "inj_on pascal_to_snake (set (map c_message (m_channels m)))"
    using pascal_to_snake_inj by (auto intro: inj_on_subset)
  then have "distinct (map pascal_to_snake (map c_message (m_channels m)))" using d by (subst distinct_map) simp
  then show ?thesis using d by (simp add: comp_def)
qed

end
