(* ===== verification/Sntm_Validate.thy ===== *)
theory Sntm_Validate
  imports Codegen Stack_Report Channel_Gen
begin

text \<open>
  The rest of \<open>tools/sntm-validate\<close>: the stack bound check of \<open>validate.rs\<close>, the command line
  of \<open>main.rs\<close> with its exit codes, and the repository's own manifest \<open>sipahi.toml\<close>. Files are
  read and written through a record of the file system's answers.
\<close>

section \<open>Stack bound (validate.rs)\<close>

abbreviation (input) STACK_ANALYSIS_MARGIN_BYTES :: u32 where "STACK_ANALYSIS_MARGIN_BYTES \<equiv> 256"
abbreviation (input) STACK_UNKNOWN_SENTINEL :: u32 where "STACK_UNKNOWN_SENTINEL \<equiv> 0xFFFFFFFF"

datatype stack_error = Stack_unknown string | No_stack_region string | Stack_size_overflow string usize
  | Margin_overflow string u32 u32 | Stack_too_small string u32 u32 u32

definition stack_margin :: "TaskEntry \<Rightarrow> u32" where
  "stack_margin t = (case t_stack_margin_override t of Some v \<Rightarrow> v | None \<Rightarrow> STACK_ANALYSIS_MARGIN_BYTES)"

definition check_stack_bounds :: "TaskEntry \<Rightarrow> u32 \<Rightarrow> stack_error list + unit" where
  "check_stack_bounds task observed_max =
     (if observed_max = STACK_UNKNOWN_SENTINEL then Inl [Stack_unknown (t_name task)]
      else case find (\<lambda>r. r_name r = ''stack'') (t_regions task) of
          None \<Rightarrow> Inl [No_stack_region (t_name task)]
        | Some r \<Rightarrow>
            (if \<not> unat (r_size r) < 2 ^ 32 then Inl [Stack_size_overflow (t_name task) (r_size r)]
             else let stack_size = ucast (r_size r) :: u32; margin = stack_margin task
             in case checked_add observed_max margin of
                 None \<Rightarrow> Inl [Margin_overflow (t_name task) observed_max margin]
               | Some required \<Rightarrow>
                   if stack_size < required
                   then Inl [Stack_too_small (t_name task) stack_size observed_max margin]
                   else Inr ()))"

text \<open>
  The stack check is exact: it accepts an observed maximum precisely when the analysis produced one
  and the region named \<open>stack\<close> (the first of that name, below 4 GiB) holds it plus the margin,
  computed without wrap-around.
\<close>
lemma check_stack_bounds_iff:
  "check_stack_bounds t observed = Inr () \<longleftrightarrow> observed \<noteq> 0xFFFFFFFF \<and>
     (\<exists>r. find (\<lambda>r. r_name r = ''stack'') (t_regions t) = Some r \<and> unat (r_size r) < 2 ^ 32
        \<and> unat observed + unat (stack_margin t) \<le> unat (r_size r))"
proof (cases "find (\<lambda>r. r_name r = ''stack'') (t_regions t)")
  case None
  then show ?thesis by (simp add: check_stack_bounds_def)
next
  case (Some r)
  show ?thesis
  proof (cases "unat (r_size r) < 2 ^ 32")
    case True
    then have sz: "unat (ucast (r_size r) :: u32) = unat (r_size r)"
      by (simp add: unsigned_ucast_eq take_bit_nat_eq_self)
    show ?thesis
    proof (cases "checked_add observed (stack_margin t)")
      case None
      then have "2 ^ 32 \<le> unat observed + unat (stack_margin t)" by (simp add: checked_add_None_iff)
      with None Some True show ?thesis by (simp add: check_stack_bounds_def)
    next
      case (Some req)
      then have "unat req = unat observed + unat (stack_margin t)" by (simp add: checked_add_Some_iff)
      with Some \<open>find _ _ = Some r\<close> True sz show ?thesis
        by (simp add: check_stack_bounds_def word_less_nat_alt not_less Let_def)
    qed
  qed (simp add: check_stack_bounds_def Some)
qed

section \<open>Command line (main.rs)\<close>

record validate_options =
  manifest_path :: "string option"
  output_rs_path :: "string option"
  output_cap_path :: "string option"
  output_channels_path :: "string option"
  call_stack_report :: "string option"
  task_name :: "string option"

definition no_options :: validate_options where
  "no_options = \<lparr>manifest_path = None, output_rs_path = None, output_cap_path = None,
     output_channels_path = None, call_stack_report = None, task_name = None\<rparr>"

text \<open>The arguments after the program name; \<open>Inl\<close> is an exit code.\<close>

fun validate_args :: "string list \<Rightarrow> validate_options \<Rightarrow> nat + validate_options" where
  "validate_args [] o' = Inr o'"
| "validate_args (a # rest) o' =
     (if a = ''--manifest'' then
        (case rest of [] \<Rightarrow> Inl 2 | v # rest' \<Rightarrow> validate_args rest' (o'\<lparr>manifest_path := Some v\<rparr>))
      else if a = ''--output-rs'' then
        (case rest of [] \<Rightarrow> Inl 2 | v # rest' \<Rightarrow> validate_args rest' (o'\<lparr>output_rs_path := Some v\<rparr>))
      else if a = ''--output-cap-table'' then
        (case rest of [] \<Rightarrow> Inl 2 | v # rest' \<Rightarrow> validate_args rest' (o'\<lparr>output_cap_path := Some v\<rparr>))
      else if a = ''--output-channels'' then
        (case rest of [] \<Rightarrow> Inl 2 | v # rest' \<Rightarrow> validate_args rest' (o'\<lparr>output_channels_path := Some v\<rparr>))
      else if a = ''--call-stack-report'' then
        (case rest of [] \<Rightarrow> Inl 2 | v # rest' \<Rightarrow> validate_args rest' (o'\<lparr>call_stack_report := Some v\<rparr>))
      else if a = ''--task-name'' then
        (case rest of [] \<Rightarrow> Inl 2 | v # rest' \<Rightarrow> validate_args rest' (o'\<lparr>task_name := Some v\<rparr>))
      else if a = ''-h'' \<or> a = ''--help'' then Inl 0
      else Inl 2)"

text \<open>
  The environment: text of a file, the TOML library on a manifest, the \<open>Cargo.toml\<close> of a task next
  to the manifest, and whether a file can be created and written.
\<close>

record host_env =
  read_text :: "string \<Rightarrow> string option"
  toml_manifest :: "string \<Rightarrow> Manifest option"
  cargo_of :: "string \<Rightarrow> string \<Rightarrow> cargo_file"
  can_write :: "string \<Rightarrow> bool"

datatype artefact = Pmp_table string "PmpProfile list"
  | Cap_table string "CapAction list list \<times> (u8 \<times> u8 \<times> u8) list" | Channels_api string string

text \<open>An output file, when asked for: exit code 1 if it cannot be written.\<close>

definition emit :: "host_env \<Rightarrow> string option \<Rightarrow> (string \<Rightarrow> artefact) \<Rightarrow> artefact list \<Rightarrow> nat + artefact list" where
  "emit env path mk out =
     (case path of None \<Rightarrow> Inr out | Some p \<Rightarrow> if can_write env p then Inr (out @ [mk p]) else Inl 1)"

definition stack_report_code :: "host_env \<Rightarrow> validate_options \<Rightarrow> Manifest \<Rightarrow> nat" where
  "stack_report_code env o' m =
     (case (call_stack_report o', task_name o') of
        (Some rep_path, Some tn) \<Rightarrow>
          (case read_text env rep_path of None \<Rightarrow> 1
           | Some rep \<Rightarrow>
               (case parse_max_stack_bytes rep of Inl _ \<Rightarrow> 1
                | Inr observed_max \<Rightarrow>
                    (case find (\<lambda>t. t_name t = tn) (m_tasks m) of None \<Rightarrow> 1
                     | Some task \<Rightarrow> (case check_stack_bounds task observed_max of Inl _ \<Rightarrow> 1 | Inr _ \<Rightarrow> 0))))
      | (None, None) \<Rightarrow> 0
      | _ \<Rightarrow> 2)"

definition validate_run :: "host_env \<Rightarrow> validate_options \<Rightarrow> nat \<times> artefact list" where
  "validate_run env o' =
     (case manifest_path o' of None \<Rightarrow> (2, [])
      | Some path \<Rightarrow>
          (case read_text env path of None \<Rightarrow> (1, [])
           | Some content \<Rightarrow>
               (case toml_manifest env content of None \<Rightarrow> (1, [])
                | Some m \<Rightarrow>
                    (case validate_all m (Some (cargo_of env path)) of Inl _ \<Rightarrow> (1, [])
                     | Inr _ \<Rightarrow>
                         (case emit env (output_rs_path o') (\<lambda>p. Pmp_table p (generate_pmp_profiles_rs m)) [] of
                            Inl c \<Rightarrow> (c, [])
                          | Inr out \<Rightarrow>
                              (case emit env (output_cap_path o') (\<lambda>p. Cap_table p (generate_cap_table_rs m)) out of
                                 Inl c \<Rightarrow> (c, out)
                               | Inr out \<Rightarrow>
                                   (case emit env (output_channels_path o') (\<lambda>p. Channels_api p (generate_channels_rs m)) out of
                                      Inl c \<Rightarrow> (c, out)
                                    | Inr out \<Rightarrow> (stack_report_code env o' m, out))))))))"

definition validate_main :: "host_env \<Rightarrow> string list \<Rightarrow> nat \<times> artefact list" where
  "validate_main env args =
     (case validate_args args no_options of Inl code \<Rightarrow> (code, []) | Inr o' \<Rightarrow> validate_run env o')"

text \<open>The tables a file may contain are those of one accepted manifest.\<close>

fun artefact_of :: "Manifest \<Rightarrow> artefact \<Rightarrow> bool" where
  "artefact_of m (Pmp_table _ t) \<longleftrightarrow> t = generate_pmp_profiles_rs m"
| "artefact_of m (Cap_table _ t) \<longleftrightarrow> t = generate_cap_table_rs m"
| "artefact_of m (Channels_api _ t) \<longleftrightarrow> t = generate_channels_rs m"

lemma emit_artefact:
  "emit env path mk out = Inr out' \<Longrightarrow> list_all (artefact_of m) out \<Longrightarrow> (\<And>p. artefact_of m (mk p))
     \<Longrightarrow> list_all (artefact_of m) out'"
  by (auto simp: emit_def split: option.splits if_splits)

lemma validate_run_outputs:
  assumes "snd (validate_run env o') \<noteq> [] \<or> fst (validate_run env o') = 0"
  shows "\<exists>path content m. manifest_path o' = Some path \<and> read_text env path = Some content
    \<and> toml_manifest env content = Some m \<and> validate_all m (Some (cargo_of env path)) = Inr ()
    \<and> list_all (artefact_of m) (snd (validate_run env o'))
    \<and> (fst (validate_run env o') = 0 \<longrightarrow> stack_report_code env o' m = 0)"
proof -
  have e: "emit env p mk out = Inl c \<Longrightarrow> c = 1" for p mk out c
    by (auto simp: emit_def split: option.splits if_splits)
  from assms obtain path content m where m: "manifest_path o' = Some path" "read_text env path = Some content"
    "toml_manifest env content = Some m" "validate_all m (Some (cargo_of env path)) = Inr ()"
    by (auto simp: validate_run_def split: option.splits sum.splits)
  have nil: "list_all (artefact_of m) []" by simp
  have "list_all (artefact_of m) (snd (validate_run env o')) \<and> (fst (validate_run env o') = 0 \<longrightarrow> stack_report_code env o' m = 0)"
    using emit_artefact [where m = m, OF _ nil] emit_artefact [where m = m] e
    by (fastforce simp: validate_run_def m split: sum.splits)
  with m show ?thesis by (intro exI conjI) auto
qed

text \<open>
  Fail-closed tool: \<open>sntm-validate\<close> writes tables only for a manifest it accepted, and they are
  that manifest's tables; when it exits with 0 after being given a stack report for a task, the task's
  stack region holds the reported maximum plus the margin.
\<close>
lemma validate_main_outputs:
  assumes "snd (validate_main env args) \<noteq> [] \<or> fst (validate_main env args) = 0 \<and> call_stack_report opts = Some rep \<and> task_name opts = Some tn"
    and "validate_args args no_options = Inr opts"
  shows "\<exists>m cargo. validate_all m (Some cargo) = Inr () \<and> list_all (artefact_of m) (snd (validate_main env args))
    \<and> (fst (validate_main env args) = 0 \<and> call_stack_report opts = Some rep \<and> task_name opts = Some tn \<longrightarrow>
        (\<exists>txt n t. read_text env rep = Some txt \<and> parse_max_stack_bytes txt = Inr n
           \<and> find (\<lambda>t. t_name t = tn) (m_tasks m) = Some t \<and> check_stack_bounds t n = Inr ()))"
proof -
  have main: "validate_main env args = validate_run env opts" using assms(2) by (simp add: validate_main_def)
  with assms(1) have "snd (validate_run env opts) \<noteq> [] \<or> fst (validate_run env opts) = 0" by auto
  from validate_run_outputs [OF this] obtain path m where
    m: "validate_all m (Some (cargo_of env path)) = Inr ()" "list_all (artefact_of m) (snd (validate_run env opts))"
    "fst (validate_run env opts) = 0 \<longrightarrow> stack_report_code env opts m = 0"
    by auto
  have "\<exists>txt n t. read_text env rep = Some txt \<and> parse_max_stack_bytes txt = Inr n
      \<and> find (\<lambda>t. t_name t = tn) (m_tasks m) = Some t \<and> check_stack_bounds t n = Inr ()"
    if "stack_report_code env opts m = 0" "call_stack_report opts = Some rep" "task_name opts = Some tn"
    using that by (auto simp: stack_report_code_def split: option.splits sum.splits)
  with m main show ?thesis by metis
qed

section \<open>The repository's manifest\<close>

definition hello_entry :: TaskEntry where
  "hello_entry = \<lparr>t_name = ''task_hello'', t_binary = ''target/riscv64imac-unknown-none-elf/release/task_hello'',
     t_task_id = 2, t_priority = 6, t_period_ticks = 10, t_budget_cycles = 100000, t_dal_level = ''D'',
     t_trust_tier = ''safe'', t_waiver_reason = [], t_demo_feature_waivers = [''cross-isolation-demo''],
     t_regions =
       [\<lparr>r_name = ''text'', r_base = 0x80600000, r_size = 0x4000, r_perm = ''RX''\<rparr>,
        \<lparr>r_name = ''rodata'', r_base = 0x80604000, r_size = 0x1000, r_perm = ''R''\<rparr>,
        \<lparr>r_name = ''data'', r_base = 0x80605000, r_size = 0x1000, r_perm = ''RW''\<rparr>,
        \<lparr>r_name = ''stack'', r_base = 0x80610000, r_size = 0x2000, r_perm = ''RW''\<rparr>],
     t_local_caps = [\<lparr>g_resource_id = 0, g_action = ''Write''\<rparr>, \<lparr>g_resource_id = 2, g_action = ''Write''\<rparr>],
     t_stack_margin_override = None\<rparr>"

definition world_entry :: TaskEntry where
  "world_entry = \<lparr>t_name = ''task_world'', t_binary = ''target/riscv64imac-unknown-none-elf/release/task_world'',
     t_task_id = 3, t_priority = 7, t_period_ticks = 50, t_budget_cycles = 500000, t_dal_level = ''D'',
     t_trust_tier = ''safe'', t_waiver_reason = [], t_demo_feature_waivers = [],
     t_regions =
       [\<lparr>r_name = ''text'', r_base = 0x80700000, r_size = 0x4000, r_perm = ''RX''\<rparr>,
        \<lparr>r_name = ''rodata'', r_base = 0x80704000, r_size = 0x1000, r_perm = ''R''\<rparr>,
        \<lparr>r_name = ''data'', r_base = 0x80705000, r_size = 0x1000, r_perm = ''RW''\<rparr>,
        \<lparr>r_name = ''stack'', r_base = 0x80710000, r_size = 0x2000, r_perm = ''RW''\<rparr>],
     t_local_caps = [\<lparr>g_resource_id = 1, g_action = ''Write''\<rparr>, \<lparr>g_resource_id = 2, g_action = ''Read''\<rparr>],
     t_stack_margin_override = None\<rparr>"

definition sipahi_manifest :: Manifest where
  "sipahi_manifest = \<lparr>m_kernel = \<lparr>k_name = ''sipahi'', k_version = ''1.1.1'', k_reserved_size = default_reserved_size,
       k_binary = ''target/riscv64imac-unknown-none-elf/release/sipahi'', k_stack_size = 16384\<rparr>,
     m_platform = \<lparr>p_target = ''riscv64imac-unknown-none-elf'', p_machine = ''qemu-virt'', p_pmp_entries = 16,
       p_ram_base = 0x80000000, p_ram_size = 0x20000000\<rparr>,
     m_tasks = [hello_entry, world_entry],
     m_resources = [\<lparr>rs_id = 0, rs_name = ''uart_console'', rs_kind = ''device''\<rparr>,
       \<lparr>rs_id = 1, rs_name = ''blackbox'', rs_kind = ''log''\<rparr>,
       \<lparr>rs_id = 2, rs_name = ''channel_greeting'', rs_kind = ''channel_endpoint''\<rparr>,
       \<lparr>rs_id = 3, rs_name = ''reserved'', rs_kind = ''reserved''\<rparr>],
     m_channels = [\<lparr>c_id = 2, c_producer = ''task_hello'', c_consumer = ''task_world'',
       c_message = ''GreetingPing'', c_size = 16, c_period_ms = Some 50\<rparr>]\<rparr>"

text \<open>The \<open>[features]\<close> of \<open>tasks/task_hello/Cargo.toml\<close>.\<close>

definition sipahi_cargo :: "string \<Rightarrow> cargo_file" where
  "sipahi_cargo n =
     (if n = ''task_hello'' then Cargo (TTable [(''features'', TTable [(''cross-isolation-demo'', TArray [])])])
      else Cargo_missing)"

lemmas manifest_defs = sipahi_manifest_def hello_entry_def world_entry_def default_reserved_size_def

lemma pow2_dvd_eval: "2 ^ k dvd n \<longleftrightarrow> n mod 2 ^ k = 0" for n :: nat
  by (simp add: dvd_eq_mod_eq_0)

lemma sipahi_valid: "manifest_valid sipahi_manifest (Some sipahi_cargo)"
proof -
  have al: "napot_aligned 0x80600000 0x4000" "napot_aligned 0x80604000 0x1000" "napot_aligned 0x80605000 0x1000"
    "napot_aligned 0x80610000 0x2000" "napot_aligned 0x80700000 0x4000" "napot_aligned 0x80704000 0x1000"
    "napot_aligned 0x80705000 0x1000" "napot_aligned 0x80710000 0x2000"
    unfolding host_napot_iff [symmetric] by (simp_all add: host_valid_napot_alignment_def)
  have "shapes_ok sipahi_manifest" by (simp add: shapes_ok_def manifest_defs al)
  moreover have "separated sipahi_manifest"
    by (auto simp: separated_def manifest_defs addrs_def)
  moreover have "budget_ok sipahi_manifest" by (simp add: budget_ok_def manifest_defs)
  moreover have "\<forall>t\<in>set (m_tasks sipahi_manifest). tier_ok t"
    by (simp add: tier_ok_def manifest_defs is_whitespace_def)
  moreover have "\<forall>t\<in>set (m_tasks sipahi_manifest). waivers_off sipahi_cargo t"
    by (simp add: waivers_off_def manifest_defs sipahi_cargo_def default_features_def)
  moreover have "resources_ok sipahi_manifest"
    by (simp add: resources_ok_def resource_entry_ok_def manifest_defs is_whitespace_def)
  moreover have "channels_ok sipahi_manifest"
    by (simp add: channels_ok_def manifest_defs is_ascii_uppercase_def is_ascii_alphanumeric_def)
  moreover have "grants_ok sipahi_manifest" by (simp add: grants_ok_def manifest_defs CAP_ACTIONS_def)
  moreover have "distinct (map t_task_id (m_tasks sipahi_manifest))" by (simp add: manifest_defs)
  ultimately show ?thesis by (simp add: manifest_valid_def)
qed

lemma sipahi_below: "below_pmp_range sipahi_manifest"
  by (simp add: below_pmp_range_def manifest_defs)

lemma sipahi_napot:
  "napot_size_log2 0x80600000 0x4000 = Some 14" "napot_size_log2 0x80604000 0x1000 = Some 12"
  "napot_size_log2 0x80605000 0x1000 = Some 12" "napot_size_log2 0x80610000 0x2000 = Some 13"
  "napot_size_log2 0x80700000 0x4000 = Some 14" "napot_size_log2 0x80704000 0x1000 = Some 12"
  "napot_size_log2 0x80705000 0x1000 = Some 12" "napot_size_log2 0x80710000 0x2000 = Some 13"
  by (simp_all add: napot_size_log2_def ilog2_nat.simps)

lemma replicate_small: "replicate 2 x = [x, x]" "replicate 4 x = [x, x, x, x]"
  by (simp_all add: numeral_eq_Suc)

lemma update_small: "[a, b, c, d][2 := x] = [a, b, x, d]" "[a, b, c, d][1 := x] = [a, x, c, d]"
  by (simp_all add: numeral_eq_Suc)

lemma sipahi_profiles:
  "emit_task_profile hello_entry = TASK_HELLO_PROFILE" "emit_task_profile world_entry = TASK_WORLD_PROFILE"
  by (simp_all add: emit_task_profile_def hello_entry_def world_entry_def emit_region_def sipahi_napot
      napot_pmpaddr_def parse_perm_def TASK_HELLO_PROFILE_def TASK_WORLD_PROFILE_def replicate_small)

lemma upt_8: "[0..<8] = [0, 1, 2, 3, 4, 5, 6, 7 :: nat]"
  by (simp add: upt_rec)

text \<open>The committed \<open>sipahi_api/src/channels.rs\<close> behind its header.\<close>

definition committed_channels :: "string list" where
  \<open>committed_channels =
    [''// '' @ bars 3 @ '' channel 2 (task_hello '' @ ARROW @ '' task_world) '' @ bars 27,
     [],
     ''/// Typed IPC message body for channel 2 (GreetingPing).'',
     ''/// SAFE-2 invariant: size = 16 bytes, repr(C, align(8)).'',
     ''#[repr(C, align(8))]'',
     ''#[derive(Clone, Copy, Debug)]'',
     ''pub struct GreetingPing {'',
     ''    /// Opaque payload (manifest size = 16 bytes).'',
     ''    pub bytes: [u8; 16],'',
     ''}'',
     [],
     ''// CR-4 compile-time safety gates'',
     ''const _: () = assert!(core::mem::size_of::<GreetingPing>() == 16);'',
     ''const _: () = assert!(core::mem::size_of::<GreetingPing>() <= Message::SIZE);'',
     ''const _: () = assert!(core::mem::align_of::<GreetingPing>() <= 8);'',
     [],
     ''/// Send a typed `GreetingPing` message on channel 2 (task_hello '' @ ARROW @ '' task_world).'',
     ''/// Cfg-gated: only compiles when `task_task_hello` feature is enabled.'',
     ''#[cfg(feature = "task_task_hello")]'',
     ''#[inline]'',
     ''pub fn send_greeting_ping(msg: &GreetingPing) -> Result<(), Error> {'',
     ''    const CHANNEL_ID: u8 = 2;'',
     ''    // CR-4: zero-init buf prevents padding-byte leakage; only size_of::<T>() bytes copied.'',
     ''    let mut buf = Message::empty();'',
     ''    // SAFETY: T is repr(C, align(8)); size asserted at compile time; buf has IPC_MSG_SIZE bytes;'',
     ''    // source and dest non-overlapping (distinct stack allocations).'',
     ''    unsafe {'',
     ''        core::ptr::copy_nonoverlapping('',
     ''            msg as *const _ as *const u8,'',
     ''            buf.data.as_mut_ptr(),'',
     ''            core::mem::size_of::<GreetingPing>(),'',
     ''        );'',
     ''    }'',
     ''    syscall::ipc_send(CHANNEL_ID, &buf)'',
     ''}'',
     [],
     ''/// Receive a typed `GreetingPing` message on channel 2 (task_hello '' @ ARROW @ '' task_world).'',
     ''/// `Ok(None)` = empty channel (non-blocking).'',
     ''/// Cfg-gated: only compiles when `task_task_world` feature is enabled.'',
     ''#[cfg(feature = "task_task_world")]'',
     ''#[inline]'',
     ''pub fn recv_greeting_ping() -> Result<Option<GreetingPing>, Error> {'',
     ''    const CHANNEL_ID: u8 = 2;'',
     ''    let mut buf = Message::empty();'',
     ''    match syscall::ipc_recv(CHANNEL_ID, &mut buf) {'',
     ''        Ok(true) => {'',
     ''            let mut out = core::mem::MaybeUninit::<GreetingPing>::uninit();'',
     ''            // SAFETY: kernel returned IPC_MSG_SIZE bytes; we read only size_of::<T>().'',
     ''            unsafe {'',
     ''                core::ptr::copy_nonoverlapping('',
     ''                    buf.data.as_ptr(),'',
     ''                    out.as_mut_ptr() as *mut u8,'',
     ''                    core::mem::size_of::<GreetingPing>(),'',
     ''                );'',
     ''                Ok(Some(out.assume_init()))'',
     ''            }'',
     ''        }'',
     ''        Ok(false) => Ok(None),'',
     ''        Err(e) => Err(e),'',
     ''    }'',
     ''}'',
     []]\<close>

lemma channels_file_in_sync:
  "generate_channels_rs sipahi_manifest = unlines (CHANNELS_HEADER @ committed_channels)"
proof -
  have sn: "pascal_to_snake ''GreetingPing'' = ''greeting_ping''"
    by code_simp
  have f: "fmt_dec 2 = ''2''" "fmt_dec 16 = ''16''"
    by code_simp+
  have "emit_channel_struct_and_wrappers (hd (m_channels sipahi_manifest)) = committed_channels"
    by (simp add: manifest_defs emit_channel_struct_and_wrappers_def sn f channel_struct_def send_wrapper_def recv_wrapper_def committed_channels_def)
  then obtain c where c: "m_channels sipahi_manifest = [c]" "emit_channel_struct_and_wrappers c = committed_channels"
    by (simp add: manifest_defs)
  show ?thesis by (simp only: generate_channels_rs_def c list.map concat.simps unlines_simps append_Nil2 list.distinct if_False)
qed


section \<open>What the validator lets through\<close>

text \<open>
  The manifest of \<open>device_manifest\<close> gives a task the UART page, far below the kernel. The schema's
  comment requires native regions to start behind the kernel; the validator compares regions only with
  each other and with the kernel's range, so it accepts, and the generated profile opens the device.
\<close>

definition device_manifest :: Manifest where
  "device_manifest = sipahi_manifest\<lparr>m_tasks := [world_entry\<lparr>t_regions :=
     [\<lparr>r_name = ''uart'', r_base = 0x10000000, r_size = 0x1000, r_perm = ''RW''\<rparr>]\<rparr>], m_channels := []\<rparr>"

text \<open>A task whose identifier has no slot in the kernel's tables.\<close>

definition unslotted_manifest :: Manifest where
  "unslotted_manifest = sipahi_manifest\<lparr>m_tasks := [world_entry\<lparr>t_task_id := 9\<rparr>], m_channels := []\<rparr>"

lemma validator_accepts_device_region:
  "validate_all device_manifest None = Inr ()
   \<and> active_regions (generate_pmp_profiles_rs device_manifest ! 3) =
       [\<lparr>reg_base = 0x10000000, reg_size = 0x1000, reg_encoding = Napot 0x40001FF 12, reg_perm = PERM_RW\<rparr>]"
proof
  have al: "napot_aligned 0x10000000 0x1000"
    unfolding host_napot_iff [symmetric] by (simp add: host_valid_napot_alignment_def)
  have "separated device_manifest" by (auto simp: separated_def device_manifest_def manifest_defs addrs_def)
  moreover have "resources_ok device_manifest" "grants_ok device_manifest" "\<forall>t\<in>set (m_tasks device_manifest). tier_ok t"
    using sipahi_valid
    by (auto simp: manifest_valid_def device_manifest_def resources_ok_def grants_ok_def tier_ok_def sipahi_manifest_def world_entry_def)
  ultimately show "validate_all device_manifest None = Inr ()"
    unfolding validate_all_iff manifest_valid_def
    by (simp add: device_manifest_def manifest_defs shapes_ok_def al budget_ok_def channels_ok_def)
  have "napot_size_log2 0x10000000 0x1000 = Some 12" by (simp add: napot_size_log2_def ilog2_nat.simps)
  then show "active_regions (generate_pmp_profiles_rs device_manifest ! 3) =
       [\<lparr>reg_base = 0x10000000, reg_size = 0x1000, reg_encoding = Napot 0x40001FF 12, reg_perm = PERM_RW\<rparr>]"
    by (simp add: generate_pmp_profiles_rs_def upt_8 device_manifest_def tid_map_def world_entry_def
        emit_task_profile_def emit_region_def napot_pmpaddr_def parse_perm_def active_regions_def)
qed

lemma validator_accepts_unslotted_task:
  "validate_all unslotted_manifest None = Inr ()
   \<and> generate_pmp_profiles_rs unslotted_manifest = replicate 8 PROFILE_EMPTY"
proof
  have "manifest_valid sipahi_manifest None" using sipahi_valid by (simp add: manifest_valid_def)
  then show "validate_all unslotted_manifest None = Inr ()"
    unfolding validate_all_iff
    by (simp add: manifest_valid_def unslotted_manifest_def sipahi_manifest_def shapes_ok_def separated_def
        budget_ok_def channels_ok_def resources_ok_def grants_ok_def tier_ok_def world_entry_def)
  have "replicate 8 x = [x, x, x, x, x, x, x, x]" for x :: PmpProfile by (simp add: numeral_eq_Suc)
  then show "generate_pmp_profiles_rs unslotted_manifest = replicate 8 PROFILE_EMPTY"
    by (simp add: generate_pmp_profiles_rs_def upt_8 unslotted_manifest_def tid_map_def world_entry_def)
qed

text \<open>
  The comment on \<open>check_stack_bounds\<close> says that equality fails; a stack that is exactly the observed
  maximum plus the margin is accepted, also with a margin of zero.
\<close>

lemma stack_bound_equality_passes:
  "check_stack_bounds (hello_entry\<lparr>t_stack_margin_override := Some 0\<rparr>) 0x2000 = Inr ()"
  by (simp add: check_stack_bounds_def hello_entry_def stack_margin_def checked_add_def)

section \<open>The decision procedure, and witnesses\<close>

text \<open>
  C9. The validator decides the specification of valid manifests: it accepts exactly when task
  identifiers are unique, regions are NAPOT-shaped and at most six per task, the address sets of all
  regions and of the kernel are pairwise disjoint, the PMP budget holds, the trust tiers follow the
  assurance levels, demo features are off by default, and resources, channels and grants are consistent.
\<close>
theorem validator_decides_spec: "validate_all m mp = Inr () \<longleftrightarrow> manifest_valid m mp"
  by (rule validate_all_iff)

theorem napot_encoding_roundtrip_witness:
  "napot_decode (napot_pmpaddr 0x80600000 14) = (0x80600000, 14)
   \<and> napot_match (napot_pmpaddr 0x80600000 14) (drop_bit 2 0x80603FFF)"
  using napot_encoding_roundtrip [OF sipahi_napot(1), of "0x80603FFF"] by (simp add: addrs_def)

theorem validated_manifest_isolates_witness:
  "\<not> user_allowed (fold do_switch (demo_switches @ [To_profile (generate_pmp_profiles_rs sipahi_manifest ! 3)])
      (init_pmp demo_linker False demo_pmp)) Read 0x80605000"
proof -
  have "validate_all sipahi_manifest (Some sipahi_cargo) = Inr ()" by (simp add: validate_all_iff sipahi_valid)
  from validated_manifest_isolates [OF this sipahi_below _ _ demo_ok demo_switches_ok(1),
    of world_entry "0x80605000" False Read]
  have "\<not> user_allowed (fold do_switch (demo_switches @ [To_profile (generate_pmp_profiles_rs sipahi_manifest ! unat (t_task_id world_entry))])
      (init_pmp demo_linker False demo_pmp)) Read 0x80605000"
    by (simp add: Let_def sipahi_manifest_def) (simp add: world_entry_def addrs_def)
  then show ?thesis by (simp add: world_entry_def)
qed

theorem generated_table_typed_witness: "length (generate_pmp_profiles_rs sipahi_manifest) = 8"
  using generated_table_typed [of sipahi_manifest "Some sipahi_cargo"] by (simp add: validate_all_iff sipahi_valid)


definition manifest_env :: host_env where
  "manifest_env = \<lparr>read_text = (\<lambda>p. if p = ''sipahi.toml'' then Some ''toml'' else None),
     toml_manifest = (\<lambda>s. if s = ''toml'' then Some sipahi_manifest else None),
     cargo_of = (\<lambda>_. sipahi_cargo), can_write = (\<lambda>_. True)\<rparr>"

theorem validate_main_outputs_example:
  "snd (validate_main manifest_env [''--manifest'', ''sipahi.toml'', ''--output-rs'', ''out.rs'']) \<noteq> []
   \<and> (\<exists>m cargo. validate_all m (Some cargo) = Inr ()
        \<and> list_all (artefact_of m) (snd (validate_main manifest_env [''--manifest'', ''sipahi.toml'', ''--output-rs'', ''out.rs''])))"
proof -
  let ?args = "[''--manifest'', ''sipahi.toml'', ''--output-rs'', ''out.rs'']"
  have ok: "validate_all sipahi_manifest (Some sipahi_cargo) = Inr ()" by (simp add: validate_all_iff sipahi_valid)
  have a: "validate_args ?args no_options = Inr (no_options\<lparr>manifest_path := Some ''sipahi.toml'', output_rs_path := Some ''out.rs''\<rparr>)"
    by simp
  have "snd (validate_main manifest_env ?args) \<noteq> []"
    unfolding validate_main_def a
    by (simp add: validate_run_def manifest_env_def ok no_options_def emit_def)
  with validate_main_outputs [OF disjI1 a, of manifest_env] show ?thesis by blast
qed

theorem wrapper_names_distinct_witness:
  "distinct (map (\<lambda>c. pascal_to_snake (c_message c)) (m_channels sipahi_manifest))"
  using wrapper_names_distinct [of sipahi_manifest "Some sipahi_cargo"] sipahi_valid by (simp add: validate_all_iff)

end
