(* ===== verification/Task_Api.thy ===== *)
theory Task_Api
  imports Demo Sntm_Validate
begin

text \<open>
  The task side of the system calls: the library \<open>sipahi_api\<close> (\<open>sipahi_api/src/lib.rs\<close>), the typed
  channel wrappers generated into \<open>sipahi_api/src/channels.rs\<close>, and the loops of the two native
  tasks (\<open>tasks/task_hello\<close>, \<open>tasks/task_world\<close>). An \<open>ecall\<close> is the kernel's \<open>trap_entry\<close> on the
  registers the wrapper sets; what it does not set, and the readings of the devices, come from an
  arbitrary trap input. Local variables whose address is passed live in the task's memory: their
  address is an argument.
\<close>

section \<open>Errors\<close>

datatype ApiError = ApiInvalidSyscall | ApiNoCapability | ApiIpcFull | ApiIpcEmpty | ApiInvalidArg
  | ApiBufferFull | ApiRateLimited | ApiInternal

definition from_kernel :: "usize \<Rightarrow> ApiError option" where
  "from_kernel ret =
     (if ret = 0 then None
      else if ret = - 1 then Some ApiInvalidSyscall
      else if ret = - 1 - 1 then Some ApiNoCapability
      else if ret = - 1 - 2 then Some ApiIpcFull
      else if ret = - 1 - 3 then Some ApiIpcEmpty
      else if ret = - 1 - 4 then Some ApiInvalidArg
      else if ret = - 1 - 5 then Some ApiBufferFull
      else if ret = - 1 - 6 then Some ApiRateLimited
      else if ret = - 1 - 7 then Some ApiInternal
      else Some ApiInternal)"

definition message_empty :: IpcMessage where
  "message_empty = \<lparr>msg_data = replicate 64 0\<rparr>"

section \<open>Environment calls\<close>

text \<open>The trampolines load the call number and their arguments; the result is what \<open>a0\<close> holds afterwards.\<close>

definition user_ecall :: "platform \<Rightarrow> trap_input \<Rightarrow> usize kernel_op" where
  "user_ecall pf regs k =
     obind (trap_entry pf (regs\<lparr>mcause := ECALL_U\<rparr>) k) (\<lambda>r.
       Returned (case r of Some ret \<Rightarrow> ret | None \<Rightarrow> reg_a0 regs))"

definition ecall0 :: "platform \<Rightarrow> trap_input \<Rightarrow> usize \<Rightarrow> usize kernel_op" where
  "ecall0 pf regs sid = user_ecall pf (regs\<lparr>reg_a7 := sid\<rparr>)"

definition ecall1 :: "platform \<Rightarrow> trap_input \<Rightarrow> usize \<Rightarrow> usize \<Rightarrow> usize kernel_op" where
  "ecall1 pf regs sid a0 = user_ecall pf (regs\<lparr>reg_a7 := sid, reg_a0 := a0\<rparr>)"

definition ecall2 :: "platform \<Rightarrow> trap_input \<Rightarrow> usize \<Rightarrow> usize \<Rightarrow> usize \<Rightarrow> usize kernel_op" where
  "ecall2 pf regs sid a0 a1 = user_ecall pf (regs\<lparr>reg_a7 := sid, reg_a0 := a0, reg_a1 := a1\<rparr>)"

definition ecall3 :: "platform \<Rightarrow> trap_input \<Rightarrow> usize \<Rightarrow> usize \<Rightarrow> usize \<Rightarrow> usize \<Rightarrow> usize kernel_op" where
  "ecall3 pf regs sid a0 a1 a2 = user_ecall pf (regs\<lparr>reg_a7 := sid, reg_a0 := a0, reg_a1 := a1, reg_a2 := a2\<rparr>)"

section \<open>Wrappers\<close>

abbreviation (input) SYS_CAP_INVOKE :: usize where "SYS_CAP_INVOKE \<equiv> 0"
abbreviation (input) SYS_IPC_SEND :: usize where "SYS_IPC_SEND \<equiv> 1"
abbreviation (input) SYS_IPC_RECV :: usize where "SYS_IPC_RECV \<equiv> 2"
abbreviation (input) SYS_YIELD :: usize where "SYS_YIELD \<equiv> 3"
abbreviation (input) SYS_TASK_INFO :: usize where "SYS_TASK_INFO \<equiv> 4"
abbreviation (input) SYS_EXIT :: usize where "SYS_EXIT \<equiv> 5"

definition api_unit :: "usize \<Rightarrow> ApiError + unit" where
  "api_unit ret = (case from_kernel ret of None \<Rightarrow> Inr () | Some e \<Rightarrow> Inl e)"

definition cap_invoke :: "platform \<Rightarrow> trap_input \<Rightarrow> u8 \<Rightarrow> u16 \<Rightarrow> u8 \<Rightarrow> (ApiError + unit) kernel_op" where
  "cap_invoke pf regs token resource action k =
     (if token AND 0x80 \<noteq> 0 then Returned (Inl ApiInvalidArg) k
      else obind (ecall3 pf regs SYS_CAP_INVOKE (ucast token) (ucast resource) (ucast action) k)
             (\<lambda>ret. Returned (api_unit ret)))"

definition local_cap_invoke :: "platform \<Rightarrow> trap_input \<Rightarrow> u8 \<Rightarrow> u8 \<Rightarrow> (ApiError + unit) kernel_op" where
  "local_cap_invoke pf regs resource action k =
     obind (ecall3 pf regs SYS_CAP_INVOKE 0x80 (ucast resource) (ucast action) k) (\<lambda>ret. Returned (api_unit ret))"

definition ipc_send :: "platform \<Rightarrow> trap_input \<Rightarrow> u8 \<Rightarrow> usize \<Rightarrow> (ApiError + unit) kernel_op" where
  "ipc_send pf regs channel_id msg k =
     obind (ecall2 pf regs SYS_IPC_SEND (ucast channel_id) msg k) (\<lambda>ret. Returned (api_unit ret))"

definition ipc_recv :: "platform \<Rightarrow> trap_input \<Rightarrow> u8 \<Rightarrow> usize \<Rightarrow> (ApiError + bool) kernel_op" where
  "ipc_recv pf regs channel_id msg_out k =
     obind (ecall2 pf regs SYS_IPC_RECV (ucast channel_id) msg_out k) (\<lambda>ret. Returned
       (case from_kernel ret of
          None \<Rightarrow> Inr True
        | Some e \<Rightarrow> if e = ApiIpcEmpty then Inr False else Inl e))"

definition yield_cpu :: "platform \<Rightarrow> trap_input \<Rightarrow> unit kernel_op" where
  "yield_cpu pf regs k = obind (ecall0 pf regs SYS_YIELD k) (\<lambda>_. Returned ())"

definition task_info :: "platform \<Rightarrow> trap_input \<Rightarrow> u8 \<Rightarrow> (ApiError + u32) kernel_op" where
  "task_info pf regs task_id k =
     obind (ecall1 pf regs SYS_TASK_INFO (ucast task_id) k) (\<lambda>ret. Returned
       (case from_kernel ret of None \<Rightarrow> Inr (ucast ret) | Some e \<Rightarrow> Inl e))"

text \<open>\<open>exit\<close> never returns to the task: what is modelled is the kernel's side of it.\<close>

definition api_exit :: "platform \<Rightarrow> trap_input \<Rightarrow> u8 \<Rightarrow> unit kernel_op" where
  "api_exit pf regs code k = obind (ecall1 pf regs SYS_EXIT (ucast code) k) (\<lambda>_. Returned ())"

text \<open>The raw wrappers of \<open>kernel/syscall/mod.rs\<close>, for tasks linked into the kernel.\<close>

definition raw_cap_invoke :: "platform \<Rightarrow> trap_input \<Rightarrow> usize \<Rightarrow> usize \<Rightarrow> usize \<Rightarrow> usize \<Rightarrow> usize kernel_op" where
  "raw_cap_invoke pf regs cap resource action arg =
     user_ecall pf (regs\<lparr>reg_a7 := SYS_CAP_INVOKE, reg_a0 := cap, reg_a1 := resource, reg_a2 := action, reg_a3 := arg\<rparr>)"

definition raw_ipc_send :: "platform \<Rightarrow> trap_input \<Rightarrow> usize \<Rightarrow> usize \<Rightarrow> usize kernel_op" where
  "raw_ipc_send pf regs channel_id msg_ptr =
     user_ecall pf (regs\<lparr>reg_a7 := SYS_IPC_SEND, reg_a0 := channel_id, reg_a1 := msg_ptr\<rparr>)"

definition raw_ipc_recv :: "platform \<Rightarrow> trap_input \<Rightarrow> usize \<Rightarrow> usize \<Rightarrow> usize kernel_op" where
  "raw_ipc_recv pf regs channel_id buf_ptr =
     user_ecall pf (regs\<lparr>reg_a7 := SYS_IPC_RECV, reg_a0 := channel_id, reg_a1 := buf_ptr\<rparr>)"

definition raw_yield_cpu :: "platform \<Rightarrow> trap_input \<Rightarrow> usize kernel_op" where
  "raw_yield_cpu pf regs = user_ecall pf (regs\<lparr>reg_a7 := SYS_YIELD\<rparr>)"

definition raw_task_info :: "platform \<Rightarrow> trap_input \<Rightarrow> usize \<Rightarrow> usize kernel_op" where
  "raw_task_info pf regs info_type = user_ecall pf (regs\<lparr>reg_a7 := SYS_TASK_INFO, reg_a0 := info_type\<rparr>)"

definition raw_exit :: "platform \<Rightarrow> trap_input \<Rightarrow> usize \<Rightarrow> unit kernel_op" where
  "raw_exit pf regs code k =
     obind (user_ecall pf (regs\<lparr>reg_a7 := SYS_EXIT, reg_a0 := code\<rparr>) k) (\<lambda>_. Returned ())"

section \<open>Typed channels\<close>

text \<open>
  The wrappers \<open>codegen.rs\<close> emits for a channel. The local buffer is zeroed and holds the message in
  its first bytes; a receive copies as many bytes out.
\<close>

definition store_local :: "usize \<Rightarrow> IpcMessage \<Rightarrow> kernel \<Rightarrow> kernel" where
  "store_local p msg k = k\<lparr>MEM := write_msg msg p (MEM k)\<rparr>"

definition copy_into :: "u8 list \<Rightarrow> IpcMessage \<Rightarrow> IpcMessage" where
  "copy_into bytes buf = buf\<lparr>msg_data := bytes @ drop (length bytes) (msg_data buf)\<rparr>"

definition send_typed :: "platform \<Rightarrow> trap_input \<Rightarrow> ChannelEntry \<Rightarrow> usize \<Rightarrow> u8 list \<Rightarrow> (ApiError + unit) kernel_op" where
  "send_typed pf regs c buf bytes k =
     ipc_send pf regs (c_id c) buf (store_local buf (copy_into bytes message_empty) k)"

definition recv_typed :: "platform \<Rightarrow> trap_input \<Rightarrow> ChannelEntry \<Rightarrow> usize \<Rightarrow> (ApiError + u8 list option) kernel_op" where
  "recv_typed pf regs c buf k =
     obind (ipc_recv pf regs (c_id c) buf (store_local buf message_empty k)) (\<lambda>r k. Returned
       (case r of
          Inr True \<Rightarrow> Inr (Some (take (unat (c_size c)) (msg_data (read_msg (MEM k) buf))))
        | Inr False \<Rightarrow> Inr None
        | Inl e \<Rightarrow> Inl e) k)"

text \<open>
  The compile-time assertions of the generated file: the size of a \<open>repr(C, align(8))\<close> structure is a
  multiple of eight.
\<close>

definition size_of_message :: "ChannelEntry \<Rightarrow> nat" where
  "size_of_message c = (unat (c_size c) + 7) div 8 * 8"

definition message_asserts :: "ChannelEntry \<Rightarrow> bool" where
  "message_asserts c \<longleftrightarrow> size_of_message c = unat (c_size c) \<and> size_of_message c \<le> 64"

section \<open>The native tasks\<close>

definition greeting :: ChannelEntry where
  "greeting = hd (m_channels sipahi_manifest)"

definition send_greeting_ping :: "platform \<Rightarrow> trap_input \<Rightarrow> usize \<Rightarrow> u8 list \<Rightarrow> (ApiError + unit) kernel_op" where
  "send_greeting_ping pf regs buf bytes = send_typed pf regs greeting buf bytes"

definition recv_greeting_ping :: "platform \<Rightarrow> trap_input \<Rightarrow> usize \<Rightarrow> (ApiError + u8 list option) kernel_op" where
  "recv_greeting_ping pf regs buf = recv_typed pf regs greeting buf"

text \<open>
  One pass of \<open>main_loop\<close>: the locals are the counter and the message, for the consumer the counter and
  the last value seen. \<open>r\<close> gives the registers at the three calls of a pass; the work of a pass is what
  comes before the yield. The state after the yield is that of the next entry into user mode, in which
  another task may run.
\<close>

definition hello_bytes :: "u32 \<Rightarrow> u8 list \<Rightarrow> u8 list" where
  "hello_bytes counter msg =
     (let bytes = le_encode 4 counter in msg[0 := bytes ! 0, 1 := bytes ! 1, 2 := bytes ! 2, 3 := bytes ! 3])"

definition hello_work :: "platform \<Rightarrow> (nat \<Rightarrow> trap_input) \<Rightarrow> usize \<Rightarrow> u32 \<Rightarrow> u8 list \<Rightarrow> u8 list kernel_op" where
  "hello_work pf r buf counter msg k =
     obind (local_cap_invoke pf (r 0) 2 0x02 k) (\<lambda>_ k.
       let msg = hello_bytes counter msg
       in obind (send_greeting_ping pf (r 1) buf msg k) (\<lambda>_. Returned msg))"

definition hello_pass ::
  "platform \<Rightarrow> (nat \<Rightarrow> trap_input) \<Rightarrow> usize \<Rightarrow> u32 \<Rightarrow> u8 list \<Rightarrow> (u32 \<times> u8 list) kernel_op" where
  "hello_pass pf r buf counter msg k =
     obind (hello_work pf r buf counter msg k) (\<lambda>msg k.
       obind (yield_cpu pf (r 2) k) (\<lambda>_. Returned (counter + 1, msg)))"

definition world_work :: "platform \<Rightarrow> (nat \<Rightarrow> trap_input) \<Rightarrow> usize \<Rightarrow> u32 \<Rightarrow> u32 kernel_op" where
  "world_work pf r buf last_seen k =
     obind (local_cap_invoke pf (r 0) 2 0x01 k) (\<lambda>_ k.
       obind (recv_greeting_ping pf (r 1) buf k) (\<lambda>got. Returned
         (case got of Inr (Some msg) \<Rightarrow> le_value (take 4 msg) | _ \<Rightarrow> last_seen)))"

definition world_pass ::
  "platform \<Rightarrow> (nat \<Rightarrow> trap_input) \<Rightarrow> usize \<Rightarrow> u32 \<Rightarrow> u32 \<Rightarrow> (u32 \<times> u32) kernel_op" where
  "world_pass pf r buf counter last_seen k =
     obind (world_work pf r buf last_seen k) (\<lambda>last_seen k.
       obind (yield_cpu pf (r 2) k) (\<lambda>_. Returned (counter + 1, last_seen)))"

section \<open>The error numbers agree with the kernel's\<close>

lemma from_kernel_codes:
  "from_kernel E_OK = None" "from_kernel E_INVALID_SYSCALL = Some ApiInvalidSyscall" "from_kernel E_NO_CAPABILITY = Some ApiNoCapability"
  "from_kernel E_IPC_FULL = Some ApiIpcFull" "from_kernel E_IPC_EMPTY = Some ApiIpcEmpty" "from_kernel E_INVALID_ARG = Some ApiInvalidArg"
  "from_kernel E_RATE_LIMITED = Some ApiRateLimited" "from_kernel E_INTERNAL = Some ApiInternal"
  by (simp_all add: from_kernel_def E_OK_def E_INVALID_SYSCALL_def E_NO_CAPABILITY_def E_IPC_FULL_def E_IPC_EMPTY_def
      E_INVALID_ARG_def E_RATE_LIMITED_def E_INTERNAL_def)

lemma from_kernel_None_iff: "from_kernel ret = None \<longleftrightarrow> ret = E_OK"
  by (simp add: from_kernel_def E_OK_def)

text \<open>
  Both sets of wrappers make the same calls: the library decodes the answer of the raw one. The library
  leaves \<open>a3\<close> to whatever it holds, which the kernel ignores.
\<close>

lemma dispatch_cap_arg: "dispatch pf cyc 0 a0 a1 a2 a3 = dispatch pf cyc 0 a0 a1 a2 b3"
  by (rule ext) (simp add: dispatch_def SYSCALL_TABLE_def sys_cap_invoke_def)

lemma cap_ecall_arg: "reg_a7 regs = 0 \<Longrightarrow> user_ecall pf (regs\<lparr>reg_a3 := x\<rparr>) = user_ecall pf regs"
  by (rule ext) (simp add: user_ecall_def trap_entry_def trap_handler_def dispatch_cap_arg [of pf _ _ _ _ x "reg_a3 regs"] cong: option.case_cong)

lemma wrappers_agree:
  "ipc_send pf regs ch p k = obind (raw_ipc_send pf regs (ucast ch) p k) (\<lambda>ret. Returned (api_unit ret))"
  "local_cap_invoke pf regs r a k = obind (raw_cap_invoke pf regs 0x80 (ucast r) (ucast a) x k) (\<lambda>ret. Returned (api_unit ret))"
  "yield_cpu pf regs k = obind (raw_yield_cpu pf regs k) (\<lambda>_. Returned ())"
proof -
  let ?r = "regs\<lparr>reg_a7 := 0, reg_a0 := 0x80, reg_a1 := ucast r, reg_a2 := ucast a\<rparr>"
  show "local_cap_invoke pf regs r a k = obind (raw_cap_invoke pf regs 0x80 (ucast r) (ucast a) x k) (\<lambda>ret. Returned (api_unit ret))"
    using cap_ecall_arg [of ?r pf x] by (simp add: local_cap_invoke_def ecall3_def raw_cap_invoke_def)
qed (simp_all add: ipc_send_def ecall2_def raw_ipc_send_def yield_cpu_def ecall0_def raw_yield_cpu_def)

text \<open>\<open>task_info\<close> takes every answer but 0 for an error, so it reports no task's state.\<close>

lemma task_info_only_zero: "task_info pf regs t k = Returned (Inr v) k' \<Longrightarrow> v = 0"
  by (auto simp: task_info_def obind_eq_Returned_iff from_kernel_None_iff E_OK_def split: option.splits)

section \<open>A call and its answer\<close>

text \<open>The privilege bits say user mode.\<close>

definition in_user_mode :: "kernel \<Rightarrow> bool" where
  "in_user_mode k \<longleftrightarrow> drop_bit 11 (ctx_mstatus (live k)) AND 3 = 0"

text \<open>States that differ only in what every call touches: bookkeeping of the caller and the program counter.\<close>

definition same_channels :: "kernel \<Rightarrow> kernel \<Rightarrow> bool" where
  "same_channels k s \<longleftrightarrow> IPC s = IPC k \<and> MEM s = MEM k \<and> CURRENT_TASK s = CURRENT_TASK k
     \<and> ctx_mstatus (live s) = ctx_mstatus (live k)"

lemma same_user_mode: "same_channels k s \<Longrightarrow> in_user_mode s = in_user_mode k"
  by (simp add: same_channels_def in_user_mode_def)

lemma same_channels_trans: "same_channels a b \<Longrightarrow> same_channels b c \<Longrightarrow> same_channels a c"
  by (simp add: same_channels_def)

lemma same_channel: "same_channels k s \<Longrightarrow> channel s c = channel k c"
  by (simp add: same_channels_def channel_def)

definition answer :: "platform \<Rightarrow> u64 \<times> u64 \<Rightarrow> nat \<Rightarrow> usize \<Rightarrow> usize kernel_op" where
  "answer pf cyc i result k =
     (let k = wcet_update i (snd cyc - fst cyc) k;
          result = (if text_start (linker pf) \<le> result \<and> result < kernel_end pf then E_INTERNAL else result)
      in Returned result (k\<lparr>live := (live k)\<lparr>ctx_mepc := frame_mepc k\<rparr>\<rparr>))"

lemma answer_same: "\<exists>s. answer pf cyc i result k = Returned
    (if text_start (linker pf) \<le> result \<and> result < kernel_end pf then E_INTERNAL else result) s \<and> same_channels k s"
  by (simp add: answer_def same_channels_def wcet_update_def Let_def)

lemma answer_inv:
  assumes "answer pf cyc i result k = Returned r s" "kernel_inv k"
  shows "kernel_inv s"
proof -
  have "kernel_inv (wcet_update i (snd cyc - fst cyc) k)" using keeps_wcet assms(2) by (simp add: keeps_def)
  with assms(1) keeps_pc(2) show ?thesis by (auto simp: answer_def Let_def keeps_def)
qed

lemma user_ecall_eq:
  assumes inv: "kernel_inv k" and user: "in_user_mode k" and sid: "unat (reg_a7 regs) < 6"
  obtains s where "kernel_inv s" "same_channels k s"
    "user_ecall pf regs k =
       obind ((SYSCALL_TABLE pf ! unat (reg_a7 regs)) (reg_a0 regs) (reg_a1 regs) (reg_a2 regs) (reg_a3 regs) s)
         (answer pf (cycles regs) (unat (reg_a7 regs)))"
proof -
  let ?k = "k\<lparr>frame_mepc := ctx_mepc (live k) + 4\<rparr>"
  have kinv: "kernel_inv ?k" using keeps_pc(1) [of k] inv by (simp add: keeps_def)
  then have "shape ?k" by (simp add: kernel_inv_def)
  then obtain s where s: "increment_syscall_count ?k = Returned () s" "quiet ?k s" using increment_syscall_eq by blast
  let ?m = "(SYSCALL_TABLE pf ! unat (reg_a7 regs)) (reg_a0 regs) (reg_a1 regs) (reg_a2 regs) (reg_a3 regs) s"
  have v: "verify_mpp_is_user_mode ?k = Returned () ?k" using user by (simp add: verify_mpp_is_user_mode_def in_user_mode_def)
  have "user_ecall pf regs k = obind ?m (answer pf (cycles regs) (unat (reg_a7 regs)))"
    unfolding user_ecall_def trap_entry_def trap_handler_def dispatch_def
    using v s(1) sid by (cases ?m) (simp_all add: Let_def answer_def)
  moreover have "same_channels k s" using s(2) by (simp add: quiet_def same_channels_def)
  ultimately show ?thesis using that quiet_kernel_inv [OF kinv s(2)] by blast
qed

lemma ok_not_sanitised:
  assumes "platform_ok pf"
  shows "\<not> text_start (linker pf) \<le> E_OK"
proof -
  have "text_start (linker pf) \<noteq> 0" using assms by (auto simp: platform_ok_def linker_ok_def)
  then show ?thesis by (simp add: E_OK_def)
qed

section \<open>Typed channels are queues of messages\<close>

lemma store_local_fields [simp]:
  "IPC (store_local p m k) = IPC k" "MEM (store_local p m k) = write_msg m p (MEM k)" "CURRENT_TASK (store_local p m k) = CURRENT_TASK k"
  "live (store_local p m k) = live k" "kernel_inv (store_local p m k) = kernel_inv k"
  "channel (store_local p m k) d = channel k d" "current_task_id (store_local p m k) = current_task_id k"
  by (simp_all add: store_local_def kernel_inv_def shape_def channel_def current_task_id_def)

lemma user_mode_store [simp]: "in_user_mode (store_local p m k) = in_user_mode k"
  by (simp add: in_user_mode_def)

lemma message_wf: "length bytes \<le> 64 \<Longrightarrow> msg_wf (copy_into bytes message_empty)"
  by (simp add: msg_wf_def copy_into_def message_empty_def)

lemma answer_result:
  assumes "platform_ok pf"
  obtains r' s where "answer pf cyc i r k = Returned r' s" "same_channels k s" "r' = E_OK \<longleftrightarrow> r = E_OK"
    "r' = r \<or> r' = E_INTERNAL"
proof -
  have i: "E_INTERNAL \<noteq> E_OK" by (simp add: E_INTERNAL_def E_OK_def)
  obtain s where s: "answer pf cyc i r k = Returned (if text_start (linker pf) \<le> r \<and> r < kernel_end pf then E_INTERNAL else r) s"
    "same_channels k s" using answer_same by blast
  show thesis
  proof (cases "text_start (linker pf) \<le> r \<and> r < kernel_end pf")
    case True
    then have "r \<noteq> E_OK" using ok_not_sanitised [OF assms] by auto
    with True s i show thesis by (intro that [of E_INTERNAL s]) simp_all
  next
    case False
    with s show thesis by (intro that [of r s]) simp_all
  qed
qed

lemma channel_id_unat: "unat (ucast (i :: u8) :: usize) = unat i"
  by (simp add: unsigned_ucast_eq take_bit_nat_eq_self order_less_trans [OF unsigned_less])

lemma ucast_byte: "ucast (ucast (i :: u8) :: usize) = i"
  by (rule bit_word_eqI) (auto simp: bit_simps dest: bit_imp_le_length)

lemma api_unit_Inr_iff: "api_unit r = Inr () \<longleftrightarrow> r = E_OK"
  by (cases "from_kernel r") (auto simp: api_unit_def from_kernel_None_iff from_kernel_codes)

text \<open>The answer of the kernel to a send, with the buffer at \<open>buf\<close>.\<close>

lemma ipc_send_exact:
  assumes inv: "kernel_inv k" "in_user_mode k" and pf: "platform_ok pf"
  shows "\<exists>r k'. ipc_send pf regs ch buf k = Returned r k' \<and> CURRENT_TASK k' = CURRENT_TASK k
    \<and> (\<forall>d<8. channel k' d = channel k d @ (if r = Inr () \<and> d = unat ch then [read_msg (MEM k) buf] else []))
    \<and> (r = Inr () \<longrightarrow> can_send (IPC k) (ucast ch) (current_task_id k))"
proof -
  let ?r = "regs\<lparr>reg_a7 := 1, reg_a0 := ucast ch, reg_a1 := buf\<rparr>"
  obtain s where s: "kernel_inv s" "same_channels k s" "user_ecall pf ?r k = obind (sys_ipc_send (ucast ch) buf s) (answer pf (cycles regs) 1)"
    by (rule user_ecall_eq [OF inv, of ?r pf]) (simp_all add: SYSCALL_TABLE_def)
  have run: "ipc_send pf regs ch buf k = obind (obind (sys_ipc_send (ucast ch) buf s) (answer pf (cycles regs) 1)) (\<lambda>ret. Returned (api_unit ret))"
    using s(3) by (simp add: ipc_send_def ecall2_def)
  have cur: "current_task_id s = current_task_id k" "IPC s = IPC k" "MEM s = MEM k" "CURRENT_TASK s = CURRENT_TASK k"
    using s(2) by (simp_all add: same_channels_def current_task_id_def)
  have ret: "\<exists>r k'. ipc_send pf regs ch buf k = Returned r k' \<and> same_channels u k' \<and> (r = Inr () \<longleftrightarrow> res = E_OK)"
    if "sys_ipc_send (ucast ch) buf s = Returned res u" for res u
    using that run answer_result [OF pf, of "cycles regs" 1 res u] by (metis obind.simps(3) api_unit_Inr_iff)
  show ?thesis
  proof (rule sys_ipc_send_cases [OF s(1), of "ucast ch" buf], goal_cases)
    case (1 res)
    obtain r k' where k': "ipc_send pf regs ch buf k = Returned r k'" "same_channels s k'" "r \<noteq> Inr ()"
      using ret [OF 1(2)] 1(1) by blast
    from same_channels_trans [OF s(2) k'(2)] have "same_channels k k'" .
    with k' show ?thesis using same_channel [of k k'] by (auto simp: same_channels_def)
  next
    case (2 u)
    obtain r k' where k': "ipc_send pf regs ch buf k = Returned r k'" "same_channels u k'" "r \<noteq> Inr ()"
      using ret [OF 2(1)] result_codes(4) by metis
    have "channel k' d = channel k d" if "d < 8" for d
      using same_channel [OF k'(2)] 2(4) [OF that] same_channel [OF s(2)] by simp
    with k' 2(3) cur show ?thesis by (auto simp: same_channels_def)
  next
    case (3 u)
    obtain r k' where k': "ipc_send pf regs ch buf k = Returned r k'" "same_channels u k'" "r = Inr ()"
      using ret [OF 3(1)] by blast
    have "channel k' d = channel k d @ (if d = unat ch then [read_msg (MEM k) buf] else [])" if "d < 8" for d
      using same_channel [OF k'(2)] 3(5) [OF that] same_channel [OF s(2)] cur by (simp add: channel_id_unat)
    with k' 3(3,6) cur show ?thesis by (auto simp: same_channels_def)
  qed
qed

lemma ipc_recv_exact:
  assumes inv: "kernel_inv k" "in_user_mode k" and pf: "platform_ok pf"
  shows "\<exists>r k'. ipc_recv pf regs ch buf k = Returned r k' \<and> CURRENT_TASK k' = CURRENT_TASK k
    \<and> (\<forall>d<8. channel k d = (if r = Inr True \<and> d = unat ch then [read_msg (MEM k') buf] else []) @ channel k' d)
    \<and> (r = Inr True \<longrightarrow> can_recv (IPC k) (ucast ch) (current_task_id k))"
proof -
  let ?r = "regs\<lparr>reg_a7 := 2, reg_a0 := ucast ch, reg_a1 := buf\<rparr>"
  obtain s where s: "kernel_inv s" "same_channels k s" "user_ecall pf ?r k = obind (sys_ipc_recv (ucast ch) buf s) (answer pf (cycles regs) 2)"
    by (rule user_ecall_eq [OF inv, of ?r pf]) (simp_all add: SYSCALL_TABLE_def)
  let ?res = "\<lambda>ret. case from_kernel ret of None \<Rightarrow> Inr True | Some e \<Rightarrow> if e = ApiIpcEmpty then Inr False else Inl e"
  have run: "ipc_recv pf regs ch buf k = obind (obind (sys_ipc_recv (ucast ch) buf s) (answer pf (cycles regs) 2)) (\<lambda>ret. Returned (?res ret))"
    using s(3) by (simp add: ipc_recv_def ecall2_def)
  have cur: "current_task_id s = current_task_id k" "IPC s = IPC k" "MEM s = MEM k" "CURRENT_TASK s = CURRENT_TASK k"
    using s(2) by (simp_all add: same_channels_def current_task_id_def)
  have tr: "?res ret = Inr True \<longleftrightarrow> ret = E_OK" for ret
    using from_kernel_None_iff [of ret] by (auto split: option.splits)
  have ret: "\<exists>r k'. ipc_recv pf regs ch buf k = Returned r k' \<and> same_channels u k' \<and> (r = Inr True \<longleftrightarrow> res = E_OK)"
    if "sys_ipc_recv (ucast ch) buf s = Returned res u" for res u
  proof -
    obtain r' k' where a: "answer pf (cycles regs) 2 res u = Returned r' k'" "same_channels u k'" "r' = E_OK \<longleftrightarrow> res = E_OK"
      using answer_result [OF pf, of "cycles regs" 2 res u] by metis
    then have "ipc_recv pf regs ch buf k = Returned (?res r') k'" using that run by simp
    with a tr show ?thesis by blast
  qed
  show ?thesis
  proof (rule sys_ipc_recv_cases [OF s(1), of "ucast ch" buf], goal_cases)
    case (1 res)
    obtain r k' where k': "ipc_recv pf regs ch buf k = Returned r k'" "same_channels s k'" "r \<noteq> Inr True"
      using ret [OF 1(2)] 1(1) by blast
    from same_channels_trans [OF s(2) k'(2)] have "same_channels k k'" .
    with k' show ?thesis using same_channel [of k k'] by (auto simp: same_channels_def)
  next
    case (2 m q)
    note received = 2
    let ?u = "(set_channel (unat (ucast ch :: usize)) q s)\<lparr>MEM := write_msg m buf (MEM s)\<rparr>"
    obtain r k' where k': "ipc_recv pf regs ch buf k = Returned r k'" "same_channels ?u k'" "r = Inr True" using ret [OF received(1)] by auto
    have mem: "channel (x\<lparr>MEM := y\<rparr>) d = channel x d" for x y d by (simp add: channel_def)
    have "channel ?u d = (if d = unat ch then spsc_content q else channel k d)" if "d < 8" for d
      using channel_set [OF s(1) _ that] received(2) s(2) by (simp add: mem channel_id_unat same_channel [OF s(2)])
    then have "channel k' d = (if d = unat ch then spsc_content q else channel k d)" if "d < 8" for d
      using that same_channel [OF k'(2)] by simp
    moreover have "read_msg (MEM k') buf = m" using k'(2) read_write_msg [OF received(4)] by (simp add: same_channels_def)
    moreover have "channel k (unat ch) = m # spsc_content q" using received(5) by (simp add: same_channel [OF s(2)] channel_id_unat)
    moreover have "CURRENT_TASK k' = CURRENT_TASK k" using k'(2) cur by (simp add: same_channels_def set_channel_def)
    ultimately show ?thesis using k' received(6) cur by auto
  qed
qed

text \<open>What a typed channel holds: the first bytes of each message.\<close>

definition typed_queue :: "kernel \<Rightarrow> ChannelEntry \<Rightarrow> u8 list list" where
  "typed_queue k c = map (\<lambda>m. take (unat (c_size c)) (msg_data m)) (channel k (unat (c_id c)))"

lemma entry_bounds:
  assumes "channels_ok m" "c \<in> set (m_channels m)"
  shows "unat (c_id c) < 8" "unat (c_size c) \<le> 64"
  using assms by (auto simp: channels_ok_def word_less_nat_alt word_le_nat_alt)

lemma typed_send_exact:
  assumes "kernel_inv k" "in_user_mode k" "platform_ok pf" "unat (c_id c) < 8" "unat (c_size c) \<le> 64" "length bytes = unat (c_size c)"
  shows "\<exists>r k'. send_typed pf regs c buf bytes k = Returned r k'
      \<and> typed_queue k' c = typed_queue k c @ (if r = Inr () then [bytes] else [])
      \<and> (r = Inr () \<longrightarrow> can_send (IPC k) (ucast (c_id c)) (current_task_id k)
           \<and> msg_data (last (channel k' (unat (c_id c)))) = bytes @ replicate (64 - length bytes) 0)
      \<and> (\<forall>d<8. d \<noteq> unat (c_id c) \<longrightarrow> channel k' d = channel k d)"
proof -
  let ?m = "copy_into bytes message_empty"
  have m: "msg_data ?m = bytes @ replicate (64 - length bytes) 0" "msg_wf ?m"
    using assms(5,6) message_wf [of bytes] by (simp_all add: copy_into_def message_empty_def)
  show ?thesis
    using ipc_send_exact [of "store_local buf ?m k" pf regs "c_id c" buf] assms m
    by (auto simp: send_typed_def typed_queue_def read_write_msg)
qed

lemma typed_recv_exact:
  assumes "kernel_inv k" "in_user_mode k" "platform_ok pf" "unat (c_id c) < 8"
  shows "\<exists>r k'. recv_typed pf regs c buf k = Returned r k'
      \<and> typed_queue k c = (case r of Inr (Some msg) \<Rightarrow> [msg] | _ \<Rightarrow> []) @ typed_queue k' c
      \<and> (\<forall>msg. r = Inr (Some msg) \<longrightarrow> can_recv (IPC k) (ucast (c_id c)) (current_task_id k))
      \<and> (\<forall>d<8. d \<noteq> unat (c_id c) \<longrightarrow> channel k' d = channel k d)"
proof -
  have "\<exists>r k'. ipc_recv pf regs (c_id c) buf (store_local buf message_empty k) = Returned r k'
    \<and> (\<forall>d<8. channel k d = (if r = Inr True \<and> d = unat (c_id c) then [read_msg (MEM k') buf] else []) @ channel k' d)
    \<and> (r = Inr True \<longrightarrow> can_recv (IPC k) (ucast (c_id c)) (current_task_id k))"
    using ipc_recv_exact [of "store_local buf message_empty k" pf regs "c_id c" buf] assms(1-3) by auto
  then obtain r k' where r: "ipc_recv pf regs (c_id c) buf (store_local buf message_empty k) = Returned r k'"
    "\<And>d. d < 8 \<Longrightarrow> channel k d = (if r = Inr True \<and> d = unat (c_id c) then [read_msg (MEM k') buf] else []) @ channel k' d"
    "r = Inr True \<Longrightarrow> can_recv (IPC k) (ucast (c_id c)) (current_task_id k)" by blast
  show ?thesis using r assms(4) by (auto simp: recv_typed_def typed_queue_def split: sum.splits bool.splits)
qed

text \<open>
  C15. A typed channel is a queue: for a channel of an accepted manifest, the generated send wrapper
  always returns, and when it reports success the message is at the end of the queue, followed in its
  64-byte slot by zeros only (nothing of the sender's stack leaks); the generated receive wrapper
  returns the oldest message and removes it. On any other result the queue is unchanged. Only the
  owners of the two ends succeed, and no other channel changes.
\<close>
theorem typed_channel_queue:
  assumes "kernel_inv k" "in_user_mode k" "platform_ok pf"
    and "validate_all m mp = Inr ()" "c \<in> set (m_channels m)" "length bytes = unat (c_size c)"
  shows "(\<exists>r k'. send_typed pf regs c buf bytes k = Returned r k'
      \<and> typed_queue k' c = typed_queue k c @ (if r = Inr () then [bytes] else [])
      \<and> (r = Inr () \<longrightarrow> can_send (IPC k) (ucast (c_id c)) (current_task_id k)
           \<and> msg_data (last (channel k' (unat (c_id c)))) = bytes @ replicate (64 - length bytes) 0)
      \<and> (\<forall>d<8. d \<noteq> unat (c_id c) \<longrightarrow> channel k' d = channel k d))
    \<and> (\<exists>r k'. recv_typed pf regs c buf k = Returned r k'
      \<and> typed_queue k c = (case r of Inr (Some msg) \<Rightarrow> [msg] | _ \<Rightarrow> []) @ typed_queue k' c
      \<and> (\<forall>msg. r = Inr (Some msg) \<longrightarrow> can_recv (IPC k) (ucast (c_id c)) (current_task_id k))
      \<and> (\<forall>d<8. d \<noteq> unat (c_id c) \<longrightarrow> channel k' d = channel k d))"
proof
  have "channels_ok m" using assms(4) by (simp add: validate_all_iff manifest_valid_def)
  note c = entry_bounds [OF this assms(5)]
  show "\<exists>r k'. send_typed pf regs c buf bytes k = Returned r k'
      \<and> typed_queue k' c = typed_queue k c @ (if r = Inr () then [bytes] else [])
      \<and> (r = Inr () \<longrightarrow> can_send (IPC k) (ucast (c_id c)) (current_task_id k)
           \<and> msg_data (last (channel k' (unat (c_id c)))) = bytes @ replicate (64 - length bytes) 0)
      \<and> (\<forall>d<8. d \<noteq> unat (c_id c) \<longrightarrow> channel k' d = channel k d)"
    by (rule typed_send_exact [OF assms(1-3) c assms(6)])
  show "\<exists>r k'. recv_typed pf regs c buf k = Returned r k'
      \<and> typed_queue k c = (case r of Inr (Some msg) \<Rightarrow> [msg] | _ \<Rightarrow> []) @ typed_queue k' c
      \<and> (\<forall>msg. r = Inr (Some msg) \<longrightarrow> can_recv (IPC k) (ucast (c_id c)) (current_task_id k))
      \<and> (\<forall>d<8. d \<noteq> unat (c_id c) \<longrightarrow> channel k' d = channel k d)"
    by (rule typed_recv_exact [OF assms(1-3) c(1)])
qed

section \<open>The greeting\<close>

text \<open>The value a pass of \<open>task_hello\<close> packs is the value \<open>task_world\<close> reads from those bytes.\<close>

lemma greeting_roundtrip:
  assumes "length msg = 16"
  shows "le_value (take 4 (hello_bytes n msg)) = n"
proof -
  have four: "i < 4 \<Longrightarrow> i = 0 \<or> i = 1 \<or> i = 2 \<or> i = 3" for i :: nat by auto
  have "take 4 (msg[0 := le_encode 4 n ! 0, 1 := le_encode 4 n ! 1, 2 := le_encode 4 n ! 2, 3 := le_encode 4 n ! 3]) = le_encode 4 n"
    using assms by (intro nth_equalityI) (auto dest!: four)
  then show ?thesis by (simp add: hello_bytes_def Let_def le_value_encode take_bit_word_eq_self)
qed

lemma message_asserts_iff: "unat (c_size c) \<le> 64 \<Longrightarrow> message_asserts c \<longleftrightarrow> 8 dvd unat (c_size c)"
  by (simp add: message_asserts_def size_of_message_def) presburger

text \<open>The validator accepts sizes for which the generated file does not compile.\<close>

lemma unpadded_size_accepted:
  "channels_ok (sipahi_manifest\<lparr>m_channels := [greeting\<lparr>c_size := 12\<rparr>]\<rparr>) \<and> \<not> message_asserts (greeting\<lparr>c_size := 12\<rparr>)"
  by (auto simp: channels_ok_def manifest_defs greeting_def message_asserts_def size_of_message_def
      is_ascii_uppercase_def is_ascii_alphanumeric_def)

text \<open>
  The kernel refuses buffers that are not on an eight-byte boundary; the structure \<open>Message\<close> of the
  library is \<open>repr(C)\<close> over bytes and has alignment one, so nothing makes the wrappers' buffers aligned.
\<close>

lemma unaligned_buffer_refused:
  assumes "kernel_inv k" "in_user_mode k" "unat buf mod 8 \<noteq> 0"
  shows "\<exists>e k'. ipc_send pf regs ch buf k = Returned (Inl e) k'"
proof -
  let ?r = "regs\<lparr>reg_a7 := 1, reg_a0 := ucast ch, reg_a1 := buf\<rparr>"
  obtain s where s: "kernel_inv s" "user_ecall pf ?r k = obind (sys_ipc_send (ucast ch) buf s) (answer pf (cycles regs) 1)"
    by (rule user_ecall_eq [OF assms(1,2), of ?r pf]) (simp_all add: SYSCALL_TABLE_def)
  obtain b where "is_valid_user_ptr (current_task_id s) buf 64 Read s = Returned b s" using valid_ptr_state [OF s(1)] by blast
  then have "sys_ipc_send (ucast ch) buf s = Returned E_INVALID_ARG s" using assms(3) by (simp add: sys_ipc_send_def Let_def)
  moreover obtain u where "answer pf (cycles regs) 1 E_INVALID_ARG s = Returned
    (if text_start (linker pf) \<le> E_INVALID_ARG \<and> E_INVALID_ARG < kernel_end pf then E_INTERNAL else E_INVALID_ARG) u"
    using answer_same by blast
  ultimately show ?thesis using s(2) by (simp add: ipc_send_def ecall2_def api_unit_def from_kernel_codes)
qed

text \<open>The manifest grants both tasks what their loops ask for.\<close>

lemma loop_grants: "local_cap_check 2 2 0x02" "local_cap_check 3 2 0x01"
  by (simp_all add: local_cap_check_def cap_from_u8_def LOCAL_CAP_TABLE_def cap_allows_def)

text \<open>A granted local capability request is answered with success and leaves the channels alone.\<close>

lemma local_cap_granted:
  assumes inv: "kernel_inv k" "in_user_mode k" "platform_ok pf" and g: "local_cap_check (current_task_id k) resource action"
  obtains k' where "local_cap_invoke pf regs resource action k = Returned (Inr ()) k'" "kernel_inv k'" "in_user_mode k'" "same_channels k k'"
proof -
  let ?r = "regs\<lparr>reg_a7 := 0, reg_a0 := 0x80, reg_a1 := ucast resource, reg_a2 := ucast action\<rparr>"
  obtain s where s: "kernel_inv s" "same_channels k s"
    "user_ecall pf ?r k = obind (sys_cap_invoke pf 0x80 (ucast resource) (ucast action) (reg_a3 regs) s) (answer pf (cycles regs) 0)"
    by (rule user_ecall_eq [OF inv(1,2), of ?r pf]) (simp_all add: SYSCALL_TABLE_def)
  have cur: "current_task_id s = current_task_id k" using s(2) by (simp add: same_channels_def current_task_id_def)
  let ?u = "s\<lparr>CAP_FAIL_COUNT := (CAP_FAIL_COUNT s)[unat (current_task_id s) := 0]\<rparr>"
  have "shape s" using s(1) by (simp add: kernel_inv_def)
  then have c: "unat (current_task_id s) < 8" using current_unat [of s] by (simp add: shape_def)
  have byte: "unat (x :: u8) < 256" for x using unsigned_less [of x] by simp
  have narrow: "\<not> 0xFFFF < (ucast resource :: usize)" "\<not> 0xFF < (ucast action :: usize)"
    "ucast (ucast resource :: usize) = resource" "ucast (ucast action :: usize) = action"
    using byte [of resource] byte [of action] by (auto simp: word_less_nat_alt channel_id_unat ucast_byte)
  have "sys_cap_invoke pf 0x80 (ucast resource) (ucast action) (reg_a3 regs) s = Returned E_OK ?u"
    using g cur c narrow by (simp add: sys_cap_invoke_def Let_def count_cap_result_eq)
  moreover obtain r' k' where a: "answer pf (cycles regs) 0 E_OK ?u = Returned r' k'" "same_channels ?u k'" "r' = E_OK"
    using answer_result [OF inv(3), of "cycles regs" 0 E_OK ?u] by metis
  ultimately have "local_cap_invoke pf regs resource action k = Returned (Inr ()) k'"
    using s(3) by (simp add: local_cap_invoke_def ecall3_def api_unit_Inr_iff)
  moreover have "kernel_inv ?u" using keeps_cap_fail [of s] s(1) by (simp add: keeps_def)
  then have "kernel_inv k'" using answer_inv [OF a(1)] by blast
  moreover have "same_channels s ?u" by (simp add: same_channels_def)
  then have "same_channels k k'" using s(2) a(2) same_channels_trans by blast
  ultimately show ?thesis using that same_user_mode [of k k'] inv(2) by blast
qed

text \<open>
  The greeting end to end: the work of a pass of \<open>task_hello\<close> appends the counter to the channel or
  leaves it as it was; when the oldest message is the one for counter \<open>n\<close>, the work of a pass of
  \<open>task_world\<close> sees \<open>n\<close> and removes it, or leaves the channel as it was.
\<close>

lemma greeting_fields: "c_id greeting = 2" "c_size greeting = 16" "greeting \<in> set (m_channels sipahi_manifest)" "channels_ok sipahi_manifest"
  by (simp_all add: greeting_def) (auto simp: channels_ok_def manifest_defs greeting_def is_ascii_uppercase_def is_ascii_alphanumeric_def)

lemma length_hello_bytes [simp]: "length (hello_bytes n msg) = length msg"
  by (simp add: hello_bytes_def Let_def)

lemma greeting_delivered:
  assumes "kernel_inv k" "in_user_mode k" "platform_ok pf"
  shows "current_task_id k = 2 \<Longrightarrow> length msg = 16 \<Longrightarrow> \<exists>k'. hello_work pf r buf n msg k = Returned (hello_bytes n msg) k'
      \<and> typed_queue k' greeting \<in> {typed_queue k greeting, typed_queue k greeting @ [hello_bytes n msg]}"
    and "current_task_id k = 3 \<Longrightarrow> length msg = 16 \<Longrightarrow> typed_queue k greeting = hello_bytes n msg # q
      \<Longrightarrow> \<exists>seen k'. world_work pf r buf last_seen k = Returned seen k'
         \<and> (seen = n \<and> typed_queue k' greeting = q \<or> seen = last_seen \<and> typed_queue k' greeting = typed_queue k greeting)"
proof -
  assume t: "current_task_id k = 2" and l: "length msg = 16"
  obtain s where s: "local_cap_invoke pf (r 0) 2 0x02 k = Returned (Inr ()) s" "kernel_inv s" "in_user_mode s" "same_channels k s"
    using local_cap_granted [OF assms, of 2 "0x02" "r 0"] loop_grants t by auto
  obtain x k' where x: "send_typed pf (r 1) greeting buf (hello_bytes n msg) s = Returned x k'"
    "typed_queue k' greeting = typed_queue s greeting @ (if x = Inr () then [hello_bytes n msg] else [])"
    using typed_send_exact [OF s(2,3) assms(3), of greeting "hello_bytes n msg" "r 1" buf] greeting_fields l by auto
  have "typed_queue s greeting = typed_queue k greeting" by (simp add: typed_queue_def same_channel [OF s(4)])
  with x show "\<exists>k'. hello_work pf r buf n msg k = Returned (hello_bytes n msg) k'
      \<and> typed_queue k' greeting \<in> {typed_queue k greeting, typed_queue k greeting @ [hello_bytes n msg]}"
    using s(1) by (simp add: hello_work_def send_greeting_ping_def Let_def)
next
  assume t: "current_task_id k = 3" and l: "length msg = 16" and q: "typed_queue k greeting = hello_bytes n msg # q"
  obtain s where s: "local_cap_invoke pf (r 0) 2 0x01 k = Returned (Inr ()) s" "kernel_inv s" "in_user_mode s" "same_channels k s"
    using local_cap_granted [OF assms, of 2 "0x01" "r 0"] loop_grants t by auto
  have sq: "typed_queue s greeting = typed_queue k greeting" by (simp add: typed_queue_def same_channel [OF s(4)])
  obtain x k' where x: "recv_typed pf (r 1) greeting buf s = Returned x k'"
    "typed_queue s greeting = (case x of Inr (Some msg) \<Rightarrow> [msg] | _ \<Rightarrow> []) @ typed_queue k' greeting"
    using typed_recv_exact [OF s(2,3) assms(3), of greeting "r 1" buf] greeting_fields by auto
  then have run: "world_work pf r buf last_seen k = Returned (case x of Inr (Some msg) \<Rightarrow> le_value (take 4 msg) | _ \<Rightarrow> last_seen) k'"
    using s(1) by (simp add: world_work_def recv_greeting_ping_def)
  show "\<exists>seen k'. world_work pf r buf last_seen k = Returned seen k'
         \<and> (seen = n \<and> typed_queue k' greeting = q \<or> seen = last_seen \<and> typed_queue k' greeting = typed_queue k greeting)"
    using run x(2) sq q greeting_roundtrip [OF l, of n] by (auto split: sum.splits option.splits)
qed

section \<open>Example\<close>

text \<open>The repository's manifest with a channel of identifier 0, whose sending end boot gives to task 0.\<close>

definition demo_channel :: ChannelEntry where
  "demo_channel = greeting\<lparr>c_id := 0\<rparr>"

lemma demo_user_mode: "in_user_mode demo_kernel"
  using demo_started by (simp add: just_started_def in_user_mode_def)

lemma demo_channel_valid: "validate_all (sipahi_manifest\<lparr>m_channels := [demo_channel]\<rparr>) None = Inr ()"
proof -
  have "channels_ok (sipahi_manifest\<lparr>m_channels := [demo_channel]\<rparr>)"
    by (auto simp: channels_ok_def manifest_defs greeting_def demo_channel_def is_ascii_uppercase_def is_ascii_alphanumeric_def)
  then show ?thesis using sipahi_valid unfolding validate_all_iff manifest_valid_def
    by (simp add: shapes_ok_def separated_def budget_ok_def resources_ok_def grants_ok_def)
qed

lemma demo_typed_send:
  "\<exists>k'. send_typed demo_platform exit_input demo_channel 0x80020100 (replicate 16 7) demo_kernel = Returned (Inr ()) k'"
proof -
  have len: "length (TASKS demo_kernel) = 8" using demo_inv by (simp add: kernel_inv_def shape_def)
  have mpp: "drop_bit 11 (ctx_mstatus (live demo_kernel)) AND 3 = 0" using demo_user_mode by (simp add: in_user_mode_def)
  have pf: "text_start (linker demo_platform) = 0x80000000" by (simp add: demo_platform_def demo_linker_def)
  show ?thesis
    unfolding send_typed_def ipc_send_def ecall2_def user_ecall_def trap_entry_def trap_handler_def dispatch_def store_local_def
    using demo_fields demo_ipc len mpp pf
    by (simp add: Let_def verify_mpp_is_user_mode_def SYSCALL_TABLE_def increment_syscall_count_def map_task_def
        demo_channel_def sys_ipc_send_def current_task_id_def is_valid_user_ptr_def is_task_sntm_native_def task_stack_range_def
        get_task_def legacy_task_def task_a_config_def task_empty_def stack_base_def demo_platform_def checked_add_def can_send_def check_ipc_rate_def
        increment_ipc_send_def get_channel_def spsc_send_def spsc_new_def E_OK_def api_unit_def from_kernel_def set_channel_def wcet_update_def)
qed

theorem typed_channel_queue_witness:
  "\<exists>k'. send_typed demo_platform exit_input demo_channel 0x80020100 (replicate 16 7) demo_kernel = Returned (Inr ()) k'
     \<and> typed_queue k' demo_channel = [replicate 16 7]"
proof -
  obtain k' where k': "send_typed demo_platform exit_input demo_channel 0x80020100 (replicate 16 7) demo_kernel = Returned (Inr ()) k'"
    using demo_typed_send by blast
  have "typed_queue demo_kernel demo_channel = []"
    using demo_ipc by (simp add: typed_queue_def demo_channel_def channel_def spsc_content_def spsc_len_def spsc_new_def)
  moreover have "demo_channel \<in> set (m_channels (sipahi_manifest\<lparr>m_channels := [demo_channel]\<rparr>))"
    "length (replicate 16 7 :: u8 list) = unat (c_size demo_channel)"
    by (simp_all add: demo_channel_def greeting_def manifest_defs)
  ultimately show ?thesis
    using typed_channel_queue [OF demo_inv demo_user_mode demo_platform_ok demo_channel_valid, of demo_channel "replicate 16 7" exit_input "0x80020100"] k'
    by auto
qed

text \<open>Asking for the state of task 0, which is running, is answered with an error.\<close>

lemma task_info_of_running_task: "\<exists>k'. task_info demo_platform exit_input 0 demo_kernel = Returned (Inl ApiInternal) k'"
proof -
  have len: "length (TASKS demo_kernel) = 8" using demo_inv by (simp add: kernel_inv_def shape_def)
  have mpp: "drop_bit 11 (ctx_mstatus (live demo_kernel)) AND 3 = 0" using demo_user_mode by (simp add: in_user_mode_def)
  have pf: "text_start (linker demo_platform) = 0x80000000" by (simp add: demo_platform_def demo_linker_def)
  show ?thesis
    unfolding task_info_def ecall1_def user_ecall_def trap_entry_def trap_handler_def dispatch_def
    using demo_fields len mpp pf
    by (simp add: Let_def verify_mpp_is_user_mode_def SYSCALL_TABLE_def increment_syscall_count_def map_task_def
        sys_task_info_def query_task_info_def get_task_def legacy_task_def task_a_config_def task_empty_def from_kernel_def wcet_update_def)
qed

end
