(* ===== verification/Stack_Tool.thy ===== *)
theory Stack_Tool
  imports Prelude Rust_Text Stack_Report
begin

text \<open>
  The stack analyser \<open>tools/sntm-stack\<close>: the control-flow scanner (\<open>decode.rs\<close>), the readers of
  \<open>.stack_sizes\<close> and of the ELF view (\<open>elf.rs\<close>) and the analysis (\<open>analysis.rs\<close>): frames,
  call graph, cycle search and the sum of frames. The signed immediates of the decoders are words in
  two's complement. The depth-first search carries fuel; \<open>search_cycle_exact\<close> shows that the number
  of functions is enough.
\<close>

section \<open>Control-flow scanner (decode.rs)\<close>

record DirectEdge =
  from_off :: u64
  edge_target :: u64
  edge_link :: u8

datatype IndirectKind = Jalr32 u8 u8 | Jr32Tail u8 | CJalr u8 | CJrTail u8

record IndirectCall =
  ic_offset :: u64
  ic_kind :: IndirectKind

definition decode_jal_imm :: "u32 \<Rightarrow> u32" where
  "decode_jal_imm raw =
     (let imm20 = drop_bit 31 raw AND 0x1;
          imm10_1 = drop_bit 21 raw AND 0x3FF;
          imm11 = drop_bit 20 raw AND 0x1;
          imm19_12 = drop_bit 12 raw AND 0xFF;
          unsgn = push_bit 20 imm20 OR push_bit 12 imm19_12 OR push_bit 11 imm11 OR push_bit 1 imm10_1
      in if imm20 \<noteq> 0 then unsgn OR NOT (push_bit 21 1 - 1) else unsgn)"

definition decode_cj_imm :: "u16 \<Rightarrow> u32" where
  "decode_cj_imm raw =
     (let r = ucast raw :: u32;
          b11 = drop_bit 12 r AND 1; b4 = drop_bit 11 r AND 1; b98 = drop_bit 9 r AND 0x3; b10 = drop_bit 8 r AND 1;
          b6 = drop_bit 7 r AND 1; b7 = drop_bit 6 r AND 1; b31 = drop_bit 3 r AND 0x7; b5 = drop_bit 2 r AND 1;
          unsgn = push_bit 11 b11 OR push_bit 10 b10 OR push_bit 8 b98 OR push_bit 7 b7 OR push_bit 6 b6
            OR push_bit 5 b5 OR push_bit 4 b4 OR push_bit 1 b31
      in if b11 \<noteq> 0 then unsgn OR NOT (push_bit 12 1 - 1) else unsgn)"

definition decode_rvc_direct :: "u16 \<Rightarrow> u64 \<Rightarrow> DirectEdge option" where
  "decode_rvc_direct raw pc =
     (if raw AND 0x3 \<noteq> 0b01 then None
      else if drop_bit 13 raw AND 0x7 \<noteq> 0b101 then None
      else Some \<lparr>from_off = 0, edge_target = (pc + scast (decode_cj_imm raw)) AND NOT 1, edge_link = 0\<rparr>)"

definition decode_rvc_indirect :: "u16 \<Rightarrow> IndirectKind option" where
  "decode_rvc_indirect raw =
     (if raw AND 0x3 \<noteq> 0b10 then None
      else let funct4 = drop_bit 12 raw AND 0xF;
               rs1 = ucast (drop_bit 7 raw AND 0x1F) :: u8;
               rs2 = ucast (drop_bit 2 raw AND 0x1F) :: u8
      in if rs1 = 0 \<or> rs2 \<noteq> 0 then None
         else if funct4 = 0b1000 then (if rs1 = 1 then None else Some (CJrTail rs1))
         else if funct4 = 0b1001 then Some (CJalr rs1)
         else None)"

definition word_at :: "u8 list \<Rightarrow> nat \<Rightarrow> u32" where
  "word_at bytes c = from_le_bytes32 (bytes ! c) (bytes ! (c + 1)) (bytes ! (c + 2)) (bytes ! (c + 3))"

type_synonym flow = "DirectEdge list \<times> IndirectCall list"

definition direct :: "DirectEdge \<Rightarrow> flow \<Rightarrow> flow" where
  "direct e f = (e # fst f, snd f)"

definition indirect :: "u64 \<Rightarrow> IndirectKind \<Rightarrow> flow \<Rightarrow> flow" where
  "indirect off k f = (fst f, \<lparr>ic_offset = off, ic_kind = k\<rparr> # snd f)"

text \<open>The target of an \<open>auipc\<close> and \<open>jalr\<close> pair at \<open>pc\<close>.\<close>

definition pair_target :: "u64 \<Rightarrow> u32 \<Rightarrow> u32 \<Rightarrow> u64" where
  "pair_target pc raw next =
     (let imm20 = signed_drop_bit 12 raw; imm12 = signed_drop_bit 20 next
      in (pc + push_bit 12 (scast imm20) + scast imm12) AND NOT 1)"

definition is_pair :: "u32 \<Rightarrow> u32 \<Rightarrow> bool" where
  "is_pair raw next =
     (next AND 0x7F = 0x67 \<and> drop_bit 12 next AND 7 = 0
      \<and> drop_bit 7 raw AND 0x1F \<noteq> 0 \<and> drop_bit 7 raw AND 0x1F = drop_bit 15 next AND 0x1F)"

function scan_loop :: "u64 \<Rightarrow> u8 list \<Rightarrow> nat \<Rightarrow> flow" where
  "scan_loop text_base bytes cursor =
     (if cursor < length bytes then
        if cursor + 2 > length bytes then ([], [])
        else let pc = text_base + of_nat cursor in
          if bytes ! cursor AND 0b11 \<noteq> 0b11 then
            (let raw = ucast (bytes ! cursor) OR push_bit 8 (ucast (bytes ! (cursor + 1)));
                 rest = scan_loop text_base bytes (cursor + 2)
             in case decode_rvc_direct raw pc of
                  Some d \<Rightarrow> direct d rest
                | None \<Rightarrow> (case decode_rvc_indirect raw of Some k \<Rightarrow> indirect pc k rest | None \<Rightarrow> rest))
          else if cursor + 4 > length bytes then ([], [])
          else let raw = word_at bytes cursor; opcode = raw AND 0x7F; rd = ucast (drop_bit 7 raw AND 0x1F) :: u8 in
            if opcode = 0x17 then
              if cursor + 8 \<le> length bytes \<and> is_pair raw (word_at bytes (cursor + 4))
              then direct \<lparr>from_off = of_nat cursor, edge_target = pair_target pc raw (word_at bytes (cursor + 4)),
                     edge_link = ucast (drop_bit 7 (word_at bytes (cursor + 4)) AND 0x1F)\<rparr>
                   (scan_loop text_base bytes (cursor + 8))
              else scan_loop text_base bytes (cursor + 4)
            else if opcode = 0x67 \<and> drop_bit 12 raw AND 7 = 0 then
              (let rs1 = ucast (drop_bit 15 raw AND 0x1F) :: u8; rest = scan_loop text_base bytes (cursor + 4)
               in if rd = 0 \<and> rs1 = 1 then rest
                  else if rd = 0 then indirect pc (Jr32Tail rs1) rest
                  else indirect pc (Jalr32 rd rs1) rest)
            else if opcode = 0x6F then
              direct \<lparr>from_off = of_nat cursor, edge_target = (pc + scast (decode_jal_imm raw)) AND NOT 1, edge_link = rd\<rparr>
                (scan_loop text_base bytes (cursor + 4))
            else scan_loop text_base bytes (cursor + 4)
      else ([], []))"
  by pat_completeness auto
termination by (relation "measure (\<lambda>(b, bytes, c). length bytes - c)") auto

declare scan_loop.simps [simp del]

definition scan_control_flow :: "u64 \<Rightarrow> u8 list \<Rightarrow> flow" where
  "scan_control_flow text_base bytes = scan_loop text_base bytes 0"

section \<open>ELF readers (elf.rs)\<close>

datatype ElfError = ElfParse string | MissingStackSizes | MissingSymtab | NotRiscV | NotElf64 | UlebOverflow | SlicePanic

record ElfStackInfo =
  info_frames :: "(u64 \<times> u32) list"
  info_symbols :: "(u64 \<times> string) list"
  info_direct_calls :: "(u64 \<times> u64) list"
  info_text_base :: u64
  info_text_bytes :: "u8 list"

definition read_u64 :: "u8 list \<Rightarrow> nat \<Rightarrow> ElfError + u64" where
  "read_u64 buf off = (if length buf < off + 8 then Inl SlicePanic else Inr (le_value (take 8 (drop off buf))))"

function uleb_loop :: "u8 list \<Rightarrow> nat \<Rightarrow> u64 \<Rightarrow> nat \<Rightarrow> ElfError + u32 \<times> nat" where
  "uleb_loop buf cursor v shift =
     (if cursor \<ge> length buf then Inl (ElfParse ''ULEB128 truncated'')
      else let byte = buf ! cursor; cursor = cursor + 1; v = v OR push_bit shift (ucast (byte AND 0x7F))
      in if v > 0xFFFFFFFF then Inl UlebOverflow
         else if byte AND 0x80 = 0 then Inr (ucast v, cursor)
         else if shift + 7 \<ge> 35 then Inl (ElfParse ''ULEB128 too long'')
         else uleb_loop buf cursor v (shift + 7))"
  by pat_completeness auto
termination by (relation "measure (\<lambda>(buf, c, v, s). length buf - c)") auto

declare uleb_loop.simps [simp del]

definition read_uleb128 :: "u8 list \<Rightarrow> nat \<Rightarrow> ElfError + u32 \<times> nat" where
  "read_uleb128 buf cursor = uleb_loop buf cursor 0 0"

lemma uleb_loop_advances: "uleb_loop buf c v s = Inr (n, c') \<Longrightarrow> c < c' \<and> c' \<le> length buf"
proof (induction buf c v s rule: uleb_loop.induct)
  case (1 buf c v s)
  from "1.prems" show ?case
    by (subst (asm) uleb_loop.simps) (auto simp: Let_def split: if_splits dest: "1.IH" [rotated -1])
qed

function stack_sizes_loop :: "u8 list \<Rightarrow> nat \<Rightarrow> ElfError + (u64 \<times> u32) list" where
  "stack_sizes_loop data cursor =
     (if cursor < length data then
        if cursor + 8 > length data then Inl (ElfParse ''.stack_sizes truncated address'')
        else case read_u64 data cursor of Inl e \<Rightarrow> Inl e
          | Inr addr \<Rightarrow>
              (case read_uleb128 data (cursor + 8) of Inl e \<Rightarrow> Inl e
               | Inr (sz, next) \<Rightarrow>
                   and_then (stack_sizes_loop data next) (\<lambda>out. Inr ((addr, sz) # out)))
      else Inr [])"
  by pat_completeness auto
termination
  by (relation "measure (\<lambda>(data, c). length data - c)")
     (auto simp: read_uleb128_def dest!: uleb_loop_advances)

declare stack_sizes_loop.simps [simp del]

definition parse_stack_sizes :: "u8 list \<Rightarrow> ElfError + (u64 \<times> u32) list" where
  "parse_stack_sizes data = stack_sizes_loop data 0"

text \<open>
  What the \<open>object\<close> library reports of a file: its class and machine, the sections by name with the
  result of reading their data, and the symbols with their \<open>st_info\<close>, address and name.
\<close>

record stack_elf =
  se_is_64 :: bool
  se_machine :: "u16 option"
  se_stack_sizes :: "(string + u8 list) option"
  se_symbols :: "(u8 option \<times> u64 \<times> string option) list"
  se_text :: "(u64 \<times> (string + u8 list)) option"
  se_rela_text :: "((string + u8 list) \<times> u64) option"

abbreviation (input) EM_RISCV :: u16 where "EM_RISCV \<equiv> 243"
abbreviation (input) STT_FUNC :: u8 where "STT_FUNC \<equiv> 2"

definition resolve_symbol_addr :: "stack_elf \<Rightarrow> nat \<Rightarrow> u64 option" where
  "resolve_symbol_addr ef idx =
     (if 1 \<le> idx \<and> idx \<le> length (se_symbols ef) then Some (fst (snd (se_symbols ef ! (idx - 1)))) else None)"

function rela_loop :: "stack_elf \<Rightarrow> u8 list \<Rightarrow> nat \<Rightarrow> nat \<Rightarrow> ElfError + (u64 \<times> u64) list" where
  "rela_loop ef raw entry_size cursor =
     (if entry_size \<noteq> 0 \<and> cursor + entry_size \<le> length raw then
        let bytes = take entry_size (drop cursor raw) in
        and_then (read_u64 bytes 0) (\<lambda>r_offset.
        and_then (read_u64 bytes 8) (\<lambda>r_info.
        and_then (rela_loop ef raw entry_size (cursor + entry_size)) (\<lambda>rest.
          let r_type = ucast (r_info AND 0xFFFFFFFF) :: u32; r_sym = ucast (drop_bit 32 r_info) :: u32
          in if r_type = 18 \<or> r_type = 19 \<or> r_type = 17
             then (case resolve_symbol_addr ef (unat r_sym) of
                 Some addr \<Rightarrow> Inr ((r_offset, addr) # rest) | None \<Rightarrow> Inr rest)
             else Inr rest)))
      else Inr [])"
  by pat_completeness auto
termination by (relation "measure (\<lambda>(ef, raw, es, c). length raw - c)") auto

declare rela_loop.simps [simp del]

definition func_symbols :: "stack_elf \<Rightarrow> (u64 \<times> string) list" where
  "func_symbols ef =
     sort_key fst (List.map_filter (\<lambda>(info, addr, name). case info of None \<Rightarrow> None
       | Some st_info \<Rightarrow>
           if st_info AND 0xF \<noteq> STT_FUNC then None
           else if addr = 0 then None
           else Some (addr, case name of Some n \<Rightarrow> n | None \<Rightarrow> ''?'')) (se_symbols ef))"

definition map_parse_err :: "string + 'a \<Rightarrow> ElfError + 'a" where
  "map_parse_err r = (case r of Inl e \<Rightarrow> Inl (ElfParse e) | Inr x \<Rightarrow> Inr x)"

definition elf_parse :: "string + stack_elf \<Rightarrow> ElfError + ElfStackInfo" where
  "elf_parse file =
     and_then (map_parse_err file) (\<lambda>ef.
     if \<not> se_is_64 ef then Inl NotElf64
     else case se_machine ef of
         None \<Rightarrow> Inl (ElfParse ''not ELF64'')
       | Some machine \<Rightarrow>
           if machine \<noteq> EM_RISCV then Inl NotRiscV
           else and_then (case se_stack_sizes ef of None \<Rightarrow> Inl MissingStackSizes | Some d \<Rightarrow> map_parse_err d) (\<lambda>data.
             and_then (parse_stack_sizes data) (\<lambda>frames.
             let symbols = func_symbols ef in
             if symbols = [] then Inl MissingSymtab
             else case se_text ef of
                 None \<Rightarrow> Inl (ElfParse ''.text section eksik'')
               | Some (text_base, d) \<Rightarrow>
                   and_then (map_parse_err d) (\<lambda>text_bytes.
                   and_then (case se_rela_text ef of None \<Rightarrow> Inr []
                       | Some (d, es) \<Rightarrow> and_then (map_parse_err d) (\<lambda>raw.
                           if unat es \<noteq> 0 \<and> length raw mod unat es = 0 then rela_loop ef raw (unat es) 0 else Inr []))
                     (\<lambda>direct_calls. Inr \<lparr>info_frames = frames, info_symbols = symbols,
                        info_direct_calls = direct_calls, info_text_base = text_base, info_text_bytes = text_bytes\<rparr>)))))"

section \<open>Analysis (analysis.rs)\<close>

record Frame =
  f_addr :: u64
  f_name :: string
  f_size :: u32

datatype FailReason = IndirectCallDetected | RecursionDetected | StackSizesMissing | SymbolResolveFailed

datatype Status = Pass | Fail FailReason

record AnalysisReport =
  ar_frames :: "Frame list"
  ar_indirect_calls :: "IndirectCall list"
  ar_recursion_cycle :: "string list option"
  ar_direct_call_edges :: nat
  ar_sum_of_frames :: u64
  ar_status :: Status
  ar_max_stack_bytes :: u32

definition join_frames_with_symbols :: "ElfStackInfo \<Rightarrow> Frame list" where
  "join_frames_with_symbols elf =
     sort_key f_addr (map (\<lambda>(addr, sz).
       \<lparr>f_addr = addr,
        f_name = (case find (\<lambda>s. fst s = addr) (info_symbols elf) of
            Some s \<Rightarrow> snd s | None \<Rightarrow> ''fn_0x'' @ fmt_hex (unat addr)),
        f_size = sz\<rparr>) (info_frames elf))"

fun enclosing_loop :: "u64 list \<Rightarrow> u64 \<Rightarrow> nat list \<Rightarrow> nat option \<Rightarrow> nat option" where
  "enclosing_loop fn_starts addr [] best = best"
| "enclosing_loop fn_starts addr (i # is) best =
     enclosing_loop fn_starts addr is
       (if fn_starts ! i \<le> addr
        then (case best of None \<Rightarrow> Some i | Some b \<Rightarrow> if fn_starts ! b < fn_starts ! i then Some i else best)
        else best)"

definition enclosing_function :: "u64 list \<Rightarrow> u64 \<Rightarrow> nat option" where
  "enclosing_function fn_starts addr = enclosing_loop fn_starts addr [0..<length fn_starts] None"

definition addr_to_idx :: "Frame list \<Rightarrow> u64 \<rightharpoonup> nat" where
  "addr_to_idx frames = fold (\<lambda>i m. m(f_addr (frames ! i) \<mapsto> i)) [0..<length frames] Map.empty"

definition add_edge :: "Frame list \<Rightarrow> u64 \<times> u64 \<Rightarrow> nat list list \<Rightarrow> nat list list" where
  "add_edge frames e adj =
     (case (enclosing_function (map f_addr frames) (fst e), addr_to_idx frames (snd e)) of
        (Some f, Some t) \<Rightarrow> if t \<in> set (adj ! f) then adj else adj[f := adj ! f @ [t]]
      | _ \<Rightarrow> adj)"

definition call_graph :: "(u64 \<times> u64) list \<Rightarrow> Frame list \<Rightarrow> nat list list" where
  "call_graph direct_edges frames = fold (add_edge frames) direct_edges (replicate (length frames) [])"

datatype Visit = White | Gray | Black

record dfs_state =
  color :: "Visit list"
  path :: "nat list"

type_synonym dfs_result = "(string list option \<times> dfs_state) option"

text \<open>\<open>path.iter().position(|&x| x == v).unwrap_or(0)\<close>\<close>

definition position :: "nat list \<Rightarrow> nat \<Rightarrow> nat" where
  "position xs v = (if v \<in> set xs then length (takeWhile (\<lambda>x. x \<noteq> v) xs) else 0)"

definition cycle_names :: "string list \<Rightarrow> nat list \<Rightarrow> nat \<Rightarrow> string list" where
  "cycle_names names xs v = map ((!) names) (drop (position xs v) xs) @ [names ! v]"

function (sequential) dfs :: "nat \<Rightarrow> nat list list \<Rightarrow> string list \<Rightarrow> nat \<Rightarrow> dfs_state \<Rightarrow> dfs_result"
  and dfs_edges :: "nat \<Rightarrow> nat list list \<Rightarrow> string list \<Rightarrow> nat list \<Rightarrow> dfs_state \<Rightarrow> dfs_result" where
  "dfs 0 adj names u s = None"
| "dfs (Suc fuel) adj names u s =
     (let s = s\<lparr>color := (color s)[u := Gray], path := path s @ [u]\<rparr> in
      case dfs_edges fuel adj names (adj ! u) s of
        None \<Rightarrow> None
      | Some (Some c, s) \<Rightarrow> Some (Some c, s)
      | Some (None, s) \<Rightarrow> Some (None, s\<lparr>path := butlast (path s), color := (color s)[u := Black]\<rparr>))"
| "dfs_edges fuel adj names [] s = Some (None, s)"
| "dfs_edges fuel adj names (v # vs) s =
     (case color s ! v of
        Gray \<Rightarrow> Some (Some (cycle_names names (path s) v), s)
      | White \<Rightarrow>
          (case dfs fuel adj names v s of
             None \<Rightarrow> None
           | Some (Some c, s) \<Rightarrow> Some (Some c, s)
           | Some (None, s) \<Rightarrow> dfs_edges fuel adj names vs s)
      | Black \<Rightarrow> dfs_edges fuel adj names vs s)"
  by pat_completeness auto
termination
  by (relation "measures [\<lambda>x. case x of Inl (n, _) \<Rightarrow> n | Inr (n, _) \<Rightarrow> n,
      \<lambda>x. case x of Inl _ \<Rightarrow> 0 | Inr (_, _, _, vs, _) \<Rightarrow> length vs]") auto

fun roots_loop :: "nat \<Rightarrow> nat list list \<Rightarrow> string list \<Rightarrow> nat list \<Rightarrow> dfs_state \<Rightarrow> string list option option" where
  "roots_loop fuel adj names [] s = Some None"
| "roots_loop fuel adj names (i # is) s =
     (if color s ! i = White then
        (case dfs fuel adj names i s of
           None \<Rightarrow> None
         | Some (Some c, s) \<Rightarrow> Some (Some c)
         | Some (None, s) \<Rightarrow> roots_loop fuel adj names is (s\<lparr>path := []\<rparr>))
      else roots_loop fuel adj names is s)"

definition search_cycle :: "nat \<Rightarrow> nat list list \<Rightarrow> string list \<Rightarrow> string list option option" where
  "search_cycle fuel adj names =
     roots_loop fuel adj names [0..<length adj] \<lparr>color = replicate (length adj) White, path = []\<rparr>"

text \<open>\<open>detect_cycle\<close>; the recursion depth is at most the number of functions.\<close>

definition detect_cycle :: "(u64 \<times> u64) list \<Rightarrow> Frame list \<Rightarrow> string list option" where
  "detect_cycle direct_edges frames =
     (if frames = [] then None
      else case search_cycle (length frames) (call_graph direct_edges frames) (map f_name frames) of
          Some r \<Rightarrow> r | None \<Rightarrow> None)"

definition merged_directs :: "ElfStackInfo \<Rightarrow> (u64 \<times> u64) list" where
  "merged_directs elf =
     map (\<lambda>e. (info_text_base elf + from_off e, edge_target e))
       (fst (scan_control_flow (info_text_base elf) (info_text_bytes elf)))
     @ map (\<lambda>(off, target). (info_text_base elf + off, target)) (info_direct_calls elf)"

definition frame_sum :: "Frame list \<Rightarrow> u64" where
  "frame_sum frames = fold (\<lambda>f acc. acc + ucast (f_size f)) frames 0"

definition analyze :: "ElfStackInfo \<Rightarrow> AnalysisReport" where
  "analyze elf =
     (let frames = join_frames_with_symbols elf;
          indirect_calls = snd (scan_control_flow (info_text_base elf) (info_text_bytes elf));
          directs = merged_directs elf;
          cycle = detect_cycle directs frames;
          sum_of_frames = frame_sum frames;
          status = (if indirect_calls \<noteq> [] then Fail IndirectCallDetected
                    else if cycle \<noteq> None then Fail RecursionDetected
                    else if frames = [] then Fail StackSizesMissing
                    else Pass);
          max_stack = (case status of
              Pass \<Rightarrow> if sum_of_frames > 0xFFFFFFFF then 0xFFFFFFFF else ucast sum_of_frames
            | Fail _ \<Rightarrow> UNKNOWN_SENTINEL)
      in \<lparr>ar_frames = frames, ar_indirect_calls = indirect_calls, ar_recursion_cycle = cycle,
          ar_direct_call_edges = length directs, ar_sum_of_frames = sum_of_frames, ar_status = status,
          ar_max_stack_bytes = max_stack\<rparr>)"

definition report_of_error :: "ElfError \<Rightarrow> AnalysisReport" where
  "report_of_error e =
     (let reason = (case e of MissingStackSizes \<Rightarrow> StackSizesMissing | _ \<Rightarrow> SymbolResolveFailed)
      in \<lparr>ar_frames = [], ar_indirect_calls = [], ar_recursion_cycle = None, ar_direct_call_edges = 0,
          ar_sum_of_frames = 0, ar_status = Fail reason, ar_max_stack_bytes = UNKNOWN_SENTINEL\<rparr>)"

section \<open>The cycle search is exact\<close>

definition calls :: "nat list list \<Rightarrow> nat \<Rightarrow> nat \<Rightarrow> bool" where
  "calls adj u v \<longleftrightarrow> u < length adj \<and> v \<in> set (adj ! u)"

definition adj_ok :: "nat list list \<Rightarrow> bool" where
  "adj_ok adj \<longleftrightarrow> list_all (list_all (\<lambda>v. v < length adj)) adj"

definition whites :: "dfs_state \<Rightarrow> nat set" where
  "whites s = {i. i < length (color s) \<and> color s ! i = White}"

definition finished :: "nat list list \<Rightarrow> nat \<Rightarrow> bool" where
  "finished adj = Wellfounded.accp (\<lambda>y x. calls adj x y)"

definition dfs_inv :: "nat list list \<Rightarrow> dfs_state \<Rightarrow> bool" where
  "dfs_inv adj s \<longleftrightarrow> length (color s) = length adj \<and> distinct (path s) \<and> successively (calls adj) (path s)
     \<and> (\<forall>i<length adj. i \<in> set (path s) \<longleftrightarrow> color s ! i = Gray) \<and> set (path s) \<subseteq> {..<length adj}
     \<and> (\<forall>i<length adj. color s ! i = Black \<longrightarrow> finished adj i)"

definition progress :: "dfs_state \<Rightarrow> dfs_state \<Rightarrow> bool" where
  "progress s s' \<longleftrightarrow> path s' = path s \<and> whites s' \<subseteq> whites s
     \<and> (\<forall>i<length (color s). color s ! i = Black \<longrightarrow> color s' ! i = Black)"

definition cyclic :: "nat list list \<Rightarrow> bool" where
  "cyclic adj \<longleftrightarrow> (\<exists>v. (calls adj)\<^sup>+\<^sup>+ v v)"

lemma finite_whites [simp]: "finite (whites s)"
  by (simp add: whites_def)

lemma successively_reach:
  "successively R xs \<Longrightarrow> xs = ys @ v # zs \<Longrightarrow> R\<^sup>*\<^sup>* v (last xs)"
proof (induction zs arbitrary: xs rule: rev_induct)
  case (snoc z zs)
  have "successively R ((ys @ v # zs) @ [z])" using snoc.prems by simp
  then have "successively R (ys @ v # zs)" "R (last (ys @ v # zs)) z"
    unfolding successively_append_iff [of R "ys @ v # zs"] by simp_all
  with snoc show ?case by (auto intro: rtranclp.rtrancl_into_rtrancl)
qed simp

lemma finishedI: "(\<And>v. calls adj u v \<Longrightarrow> finished adj v) \<Longrightarrow> finished adj u"
  unfolding finished_def by (rule accpI) simp

lemma finished_no_cycle: "finished adj u \<Longrightarrow> \<not> (calls adj)\<^sup>+\<^sup>+ u u"
  unfolding finished_def
proof (induction rule: accp.induct)
  case (accI x)
  show ?case
  proof
    assume "(calls adj)\<^sup>+\<^sup>+ x x"
    then obtain y where y: "calls adj x y" "(calls adj)\<^sup>*\<^sup>* y x" by (metis tranclpD)
    then have "(calls adj)\<^sup>+\<^sup>+ y y" by (metis rtranclp_into_tranclp1)
    with accI y(1) show False by blast
  qed
qed

text \<open>Entering a white function: it becomes the end of the path.\<close>

abbreviation enter :: "nat \<Rightarrow> dfs_state \<Rightarrow> dfs_state" where
  "enter u s \<equiv> s\<lparr>color := (color s)[u := Gray], path := path s @ [u]\<rparr>"

abbreviation leave :: "nat \<Rightarrow> dfs_state \<Rightarrow> dfs_state" where
  "leave u s \<equiv> s\<lparr>path := butlast (path s), color := (color s)[u := Black]\<rparr>"

lemma dfs_invD:
  assumes "dfs_inv adj s"
  shows "length (color s) = length adj" "distinct (path s)" "successively (calls adj) (path s)"
    "set (path s) \<subseteq> {..<length adj}" "i < length adj \<Longrightarrow> i \<in> set (path s) \<longleftrightarrow> color s ! i = Gray"
    "i < length adj \<Longrightarrow> color s ! i = Black \<Longrightarrow> finished adj i"
  using assms by (simp_all add: dfs_inv_def)

lemma dfs_inv_enter:
  assumes "dfs_inv adj s" "u < length adj" "color s ! u = White" "path s = [] \<or> calls adj (last (path s)) u"
  shows "dfs_inv adj (enter u s)" "whites (enter u s) = whites s - {u}"
proof -
  note d = dfs_invD [OF assms(1)]
  have "u \<notin> set (path s)" using d(5) [OF assms(2)] assms(3) by simp
  moreover have "successively (calls adj) (path s @ [u])"
    using d(3) assms(4) by (auto simp: successively_append_iff)
  ultimately show "dfs_inv adj (enter u s)"
    using d assms(2) unfolding dfs_inv_def by (auto simp: nth_update_any)
  show "whites (enter u s) = whites s - {u}"
    using d(1) assms(2) by (auto simp: whites_def nth_update_any split: if_splits)
qed

lemma dfs_inv_leave:
  assumes "dfs_inv adj s" "path s = p @ [u]" "u < length adj" "\<And>v. v \<in> set (adj ! u) \<Longrightarrow> color s ! v = Black" "adj_ok adj"
  shows "dfs_inv adj (leave u s)" "whites (leave u s) = whites s"
proof -
  note d = dfs_invD [OF assms(1)]
  have "finished adj u"
  proof (rule finishedI)
    fix v
    assume "calls adj u v"
    then have "v \<in> set (adj ! u)" "v < length adj" using assms(5) by (auto simp: calls_def adj_ok_def list_all_iff)
    then show "finished adj v" using d(6) assms(4) by blast
  qed
  moreover have "successively (calls adj) p" "distinct p" "u \<notin> set p"
    using d(2,3) assms(2) by (auto simp: successively_append_iff)
  ultimately show "dfs_inv adj (leave u s)"
    using d assms(2,3) unfolding dfs_inv_def by (auto simp: nth_update_any)
  have "color s ! u = Gray" using d(5) [OF assms(3)] assms(2) by simp
  then show "whites (leave u s) = whites s" by (auto simp: whites_def nth_update_any)
qed

lemma gray_gives_cycle:
  assumes "dfs_inv adj s" "adj_ok adj" "path s \<noteq> []" "calls adj (last (path s)) v" "color s ! v = Gray"
  shows "cyclic adj"
proof -
  have "v < length adj" using assms(2,4) by (auto simp: calls_def adj_ok_def list_all_iff)
  then have "v \<in> set (path s)" using assms(1,5) by (simp add: dfs_inv_def)
  then obtain ys zs where "path s = ys @ v # zs" by (meson split_list)
  with assms(1) have "(calls adj)\<^sup>*\<^sup>* v (last (path s))"
    by (intro successively_reach) (auto simp: dfs_inv_def)
  with assms(4) have "(calls adj)\<^sup>+\<^sup>+ v v" by (metis rtranclp_into_tranclp1)
  then show ?thesis by (auto simp: cyclic_def)
qed

lemma progress_trans: "progress s t \<Longrightarrow> progress t u \<Longrightarrow> length (color t) = length (color s) \<Longrightarrow> progress s u"
  by (auto simp: progress_def)

lemma progress_refl: "progress s s"
  by (simp add: progress_def)

lemma progress_white: "progress s t \<Longrightarrow> card (whites t) \<le> card (whites s)"
  by (auto simp: progress_def intro: card_mono)

definition dfs_spec :: "nat list list \<Rightarrow> dfs_state \<Rightarrow> nat set \<Rightarrow> dfs_result \<Rightarrow> bool" where
  "dfs_spec adj s vs res \<longleftrightarrow> (case res of
     None \<Rightarrow> False
   | Some (None, s') \<Rightarrow> dfs_inv adj s' \<and> progress s s' \<and> (\<forall>v\<in>vs. color s' ! v = Black)
   | Some (Some c, s') \<Rightarrow> cyclic adj)"

lemma dfs_correct:
  "dfs_inv adj s \<Longrightarrow> adj_ok adj \<Longrightarrow> u < length adj \<Longrightarrow> color s ! u = White \<Longrightarrow>
     path s = [] \<or> calls adj (last (path s)) u \<Longrightarrow> card (whites s) \<le> fuel \<Longrightarrow>
     dfs_spec adj s {u} (dfs fuel adj names u s)"
  "dfs_inv adj s \<Longrightarrow> adj_ok adj \<Longrightarrow> path s \<noteq> [] \<Longrightarrow> \<forall>v\<in>set vs. calls adj (last (path s)) v \<Longrightarrow>
     card (whites s) \<le> fuel \<Longrightarrow> dfs_spec adj s (set vs) (dfs_edges fuel adj names vs s)"
proof (induction fuel adj names u s and fuel adj names vs s rule: dfs_dfs_edges.induct)
  case (1 adj names u s)
  then have "u \<in> whites s" by (simp add: whites_def dfs_inv_def)
  with 1 show ?case by (metis card_0_eq empty_iff finite_whites le_zero_eq)
next
  case (2 fuel adj names u s)
  note e = dfs_inv_enter [OF 2(2,4,5,6)]
  have "u \<in> whites s" using 2 by (simp add: whites_def dfs_inv_def)
  then have "card (whites (enter u s)) \<le> fuel" using 2(7) by (simp add: e(2))
  then have spec: "dfs_spec adj (enter u s) (set (adj ! u)) (dfs_edges fuel adj names (adj ! u) (enter u s))"
    using e(1) 2(3,4) by (intro 2(1)) (auto simp: calls_def)
  then obtain r s' where r: "dfs_edges fuel adj names (adj ! u) (enter u s) = Some (r, s')"
    by (auto simp: dfs_spec_def split: option.splits)
  show ?case
  proof (cases r)
    case None
    with spec r have s': "dfs_inv adj s'" "progress (enter u s) s'" "\<forall>v\<in>set (adj ! u). color s' ! v = Black"
      by (simp_all add: dfs_spec_def)
    have pth: "path s' = path s @ [u]" using s'(2) by (simp add: progress_def)
    have l: "dfs_inv adj (leave u s')" "whites (leave u s') = whites s'"
      using dfs_inv_leave [OF s'(1) pth 2(4) _ 2(3)] s'(3) by blast+
    have len: "length (color s) = length adj" "length (color s') = length adj"
      using 2(2) s'(1) by (simp_all add: dfs_inv_def)
    have "progress s (leave u s')"
      using s'(2) e(2) l(2) pth 2(5) len unfolding progress_def by (auto simp: nth_update_any)
    then show ?thesis using r None l(1) 2(4) len by (simp add: dfs_spec_def)
  next
    case (Some c)
    with spec r show ?thesis by (simp add: dfs_spec_def)
  qed
next
  case (3 fuel adj names s)
  then show ?case by (simp add: dfs_spec_def progress_refl)
next
  case (4 fuel adj names v vs s)
  have v: "calls adj (last (path s)) v" "v < length adj"
    using 4(5,7) by (auto simp: calls_def adj_ok_def list_all_iff)
  have rest: "dfs_spec adj t (set vs) (dfs_edges fuel adj names vs t) \<Longrightarrow> progress s t \<Longrightarrow> dfs_inv adj t \<Longrightarrow>
      color t ! v = Black \<Longrightarrow> dfs_spec adj s (set (v # vs)) (dfs_edges fuel adj names vs t)" for t
    using dfs_invD(1) [OF 4(4)] dfs_invD(1) [of adj t] v(2)
    by (auto simp: dfs_spec_def progress_def split: option.splits)
  show ?case
  proof (cases "color s ! v")
    case White
    have spec: "dfs_spec adj s {v} (dfs fuel adj names v s)"
      using 4 White v by (intro 4(1)) auto
    then obtain r t where r: "dfs fuel adj names v s = Some (r, t)"
      by (auto simp: dfs_spec_def split: option.splits)
    show ?thesis
    proof (cases r)
      case None
      with spec r have t: "dfs_inv adj t" "progress s t" "color t ! v = Black" by (simp_all add: dfs_spec_def)
      have "card (whites t) \<le> fuel" using progress_white [OF t(2)] 4(8) by simp
      moreover have "path t = path s" using t(2) by (simp add: progress_def)
      ultimately have "dfs_spec adj t (set vs) (dfs_edges fuel adj names vs t)"
        using 4 t(1) White r None by (intro 4(2)) auto
      from rest [OF this t(2,1,3)] show ?thesis using White r None by simp
    next
      case (Some c)
      with spec r White show ?thesis by (simp add: dfs_spec_def)
    qed
  next
    case Gray
    then have "cyclic adj" using gray_gives_cycle [OF 4(4,5,6) v(1)] by simp
    with Gray show ?thesis by (simp add: dfs_spec_def)
  next
    case Black
    have "dfs_spec adj s (set vs) (dfs_edges fuel adj names vs s)" using 4 Black by (intro 4(3)) auto
    from rest [OF this progress_refl 4(4) Black] show ?thesis using Black by simp
  qed
qed

lemma roots_correct:
  "dfs_inv adj s \<Longrightarrow> adj_ok adj \<Longrightarrow> path s = [] \<Longrightarrow> card (whites s) \<le> fuel \<Longrightarrow> set is \<subseteq> {..<length adj} \<Longrightarrow>
     \<exists>r. roots_loop fuel adj names is s = Some r \<and> (r \<noteq> None \<longrightarrow> cyclic adj) \<and> (r = None \<longrightarrow> (\<forall>i\<in>set is. finished adj i))"
proof (induction "is" arbitrary: s)
  case (Cons i "is")
  note d = dfs_invD [OF Cons.prems(1)]
  have i: "i < length adj" using Cons.prems(5) by simp
  show ?case
  proof (cases "color s ! i = White")
    case True
    have spec: "dfs_spec adj s {i} (dfs fuel adj names i s)"
      using Cons.prems i True by (intro dfs_correct(1)) auto
    then obtain r t where r: "dfs fuel adj names i s = Some (r, t)"
      by (auto simp: dfs_spec_def split: option.splits)
    show ?thesis
    proof (cases r)
      case None
      with spec r have t: "dfs_inv adj t" "progress s t" "color t ! i = Black" by (simp_all add: dfs_spec_def)
      have pt: "path t = []" using t(2) Cons.prems(3) by (simp add: progress_def)
      then have same: "t\<lparr>path := []\<rparr> = t" by simp
      have "card (whites t) \<le> fuel" using progress_white [OF t(2)] Cons.prems(4) by simp
      from Cons.IH [OF t(1) Cons.prems(2) pt this] Cons.prems(5) obtain q where
        "roots_loop fuel adj names is t = Some q" "q \<noteq> None \<longrightarrow> cyclic adj" "q = None \<longrightarrow> (\<forall>i\<in>set is. finished adj i)"
        by auto
      moreover have "finished adj i" using dfs_invD(6) [OF t(1) i t(3)] .
      ultimately show ?thesis using True r None same by auto
    next
      case (Some c)
      with spec r True show ?thesis by (simp add: dfs_spec_def)
    qed
  next
    case False
    then have "color s ! i = Black" using d(5) [OF i] Cons.prems(3) by (cases "color s ! i") auto
    then have "finished adj i" using d(6) [OF i] by simp
    with False Cons.IH [OF Cons.prems(1-4)] Cons.prems(5) show ?thesis by auto
  qed
qed simp

lemma search_cycle_exact:
  assumes "adj_ok adj"
  shows "\<exists>r. search_cycle (length adj) adj names = Some r \<and> (r = None \<longleftrightarrow> \<not> cyclic adj)"
proof -
  let ?s = "\<lparr>color = replicate (length adj) White, path = []\<rparr>"
  have "dfs_inv adj ?s" by (simp add: dfs_inv_def)
  moreover have "whites ?s = {..<length adj}" by (auto simp: whites_def)
  moreover have "set [0..<length adj] \<subseteq> {..<length adj}" by auto
  ultimately have "\<exists>r. search_cycle (length adj) adj names = Some r \<and> (r \<noteq> None \<longrightarrow> cyclic adj)
      \<and> (r = None \<longrightarrow> (\<forall>i\<in>set [0..<length adj]. finished adj i))"
    unfolding search_cycle_def by (intro roots_correct [OF _ assms]) simp_all
  then obtain r where r: "search_cycle (length adj) adj names = Some r" "r \<noteq> None \<longrightarrow> cyclic adj"
    "r = None \<longrightarrow> (\<forall>i\<in>set [0..<length adj]. finished adj i)" by blast
  have "\<not> cyclic adj" if "\<forall>i<length adj. finished adj i"
  proof
    assume "cyclic adj"
    then obtain v where v: "(calls adj)\<^sup>+\<^sup>+ v v" by (auto simp: cyclic_def)
    then have "v < length adj" by (auto simp: calls_def dest: tranclpD)
    with that v show False using finished_no_cycle by blast
  qed
  with r show ?thesis by auto
qed

section \<open>The call graph\<close>

lemma enclosing_loop_range:
  "enclosing_loop fs a is b = Some f \<Longrightarrow> f \<in> set is \<or> b = Some f"
  by (induction "is" arbitrary: b) (fastforce split: if_splits option.splits)+

lemma enclosing_function_range: "enclosing_function fs a = Some f \<Longrightarrow> f < length fs"
  unfolding enclosing_function_def by (drule enclosing_loop_range) simp

lemma addr_to_idx_range: "addr_to_idx frames a = Some t \<Longrightarrow> t < length frames \<and> f_addr (frames ! t) = a"
proof -
  have "fold (\<lambda>i m. m(f_addr (frames ! i) \<mapsto> i)) is m0 a = Some t \<Longrightarrow>
      t \<in> set is \<and> f_addr (frames ! t) = a \<or> m0 a = Some t" for "is" m0
    by (induction "is" arbitrary: m0) (fastforce split: if_splits)+
  from this [of "[0..<length frames]" Map.empty] show "addr_to_idx frames a = Some t \<Longrightarrow> ?thesis"
    by (simp add: addr_to_idx_def)
qed

lemma length_add_edge [simp]: "length (add_edge frames e adj) = length adj"
  by (auto simp: add_edge_def split: option.splits)

lemma length_call_graph [simp]: "length (call_graph es frames) = length frames"
proof -
  have "length (fold (add_edge frames) es adj) = length adj" for adj by (induction es arbitrary: adj) auto
  then show ?thesis by (simp add: call_graph_def)
qed

text \<open>An edge of the graph is a direct call: from the function enclosing the call site to the function at its target.\<close>

definition direct_call :: "(u64 \<times> u64) list \<Rightarrow> Frame list \<Rightarrow> nat \<Rightarrow> nat \<Rightarrow> bool" where
  "direct_call es frames f t \<longleftrightarrow>
     (\<exists>src dst. (src, dst) \<in> set es \<and> enclosing_function (map f_addr frames) src = Some f \<and> addr_to_idx frames dst = Some t)"

lemma add_edge_mem:
  assumes "length adj = length frames" "f < length frames"
  shows "t \<in> set (add_edge frames e adj ! f) \<longleftrightarrow> t \<in> set (adj ! f) \<or>
    enclosing_function (map f_addr frames) (fst e) = Some f \<and> addr_to_idx frames (snd e) = Some t"
  using assms by (auto simp: add_edge_def nth_update_any split: option.splits if_splits)

lemma call_graph_mem:
  assumes "f < length frames"
  shows "t \<in> set (call_graph es frames ! f) \<longleftrightarrow> direct_call es frames f t"
proof -
  have "t \<in> set (fold (add_edge frames) es adj ! f) \<longleftrightarrow> t \<in> set (adj ! f) \<or> direct_call es frames f t"
    if "length adj = length frames" for adj
    using that
  proof (induction es arbitrary: adj)
    case (Cons e es)
    then show ?case using add_edge_mem [OF Cons.prems assms, of t e]
      by (cases e) (auto simp: direct_call_def)
  qed (simp add: direct_call_def)
  from this [of "replicate (length frames) []"] show ?thesis using assms by (simp add: call_graph_def)
qed

lemma calls_iff: "calls (call_graph es frames) f t \<longleftrightarrow> direct_call es frames f t"
  using call_graph_mem [of f frames t es] enclosing_function_range [of "map f_addr frames" _ f]
  by (auto simp: calls_def direct_call_def)

lemma adj_ok_call_graph: "adj_ok (call_graph es frames)"
  unfolding adj_ok_def list_all_length
  using call_graph_mem [of _ frames _ es] addr_to_idx_range
  by (fastforce simp: direct_call_def list_all_iff)

lemma search_call_graph:
  "\<exists>r. search_cycle (length frames) (call_graph es frames) (map f_name frames) = Some r
     \<and> detect_cycle es frames = r \<and> (r = None \<longleftrightarrow> \<not> (\<exists>f. (direct_call es frames)\<^sup>+\<^sup>+ f f))"
proof -
  have rel: "calls (call_graph es frames) = direct_call es frames" by (intro ext) (simp add: calls_iff)
  obtain r where r: "search_cycle (length frames) (call_graph es frames) (map f_name frames) = Some r"
    "r = None \<longleftrightarrow> \<not> cyclic (call_graph es frames)"
    using search_cycle_exact [OF adj_ok_call_graph, of es frames "map f_name frames"] by auto
  have "detect_cycle es frames = r"
  proof (cases "frames = []")
    case True
    then have "call_graph es frames = []" by (metis length_0_conv length_call_graph)
    with True r(1) have "r = None" by (simp add: search_cycle_def)
    with True show ?thesis by (simp add: detect_cycle_def)
  qed (simp add: detect_cycle_def r(1))
  with r show ?thesis unfolding cyclic_def rel by blast
qed

text \<open>
  C36. Termination and exactness of the recursion check: the depth-first search over the call graph
  returns with a recursion depth of at most the number of functions, and it reports a cycle exactly
  when some function reaches itself through direct calls.
\<close>
theorem detect_cycle_terminates:
  "\<exists>r. search_cycle (length frames) (call_graph es frames) (map f_name frames) = Some r
     \<and> detect_cycle es frames = r \<and> (r = None \<longleftrightarrow> \<not> (\<exists>f. (direct_call es frames)\<^sup>+\<^sup>+ f f))"
  by (rule search_call_graph)

lemma detect_cycle_None: "detect_cycle es frames = None \<Longrightarrow> \<not> (direct_call es frames)\<^sup>+\<^sup>+ f f"
  using search_call_graph [of frames es] by auto

section \<open>The bound\<close>

lemma acyclic_chain_distinct:
  assumes "\<And>x. \<not> R\<^sup>+\<^sup>+ x x" "successively R xs"
  shows "distinct xs"
  using assms(2)
proof (induction xs rule: rev_induct)
  case (snoc x xs)
  have "x \<notin> set xs"
  proof
    assume "x \<in> set xs"
    then obtain ys zs where xs: "xs = ys @ x # zs" by (meson split_list)
    have "successively R xs" "xs \<noteq> [] \<Longrightarrow> R (last xs) x"
      using snoc.prems unfolding successively_append_iff [of R xs] by auto
    moreover from this(1) have "R\<^sup>*\<^sup>* x (last xs)" using successively_reach xs by metis
    ultimately have "R\<^sup>+\<^sup>+ x x" using xs by (auto intro: rtranclp_into_tranclp1)
    with assms(1) show False by blast
  qed
  with snoc show ?case by (auto simp: successively_append_iff)
qed simp

lemma frame_sum_unat:
  assumes "length frames < 2 ^ 32"
  shows "unat (frame_sum frames) = (\<Sum>f\<leftarrow>frames. unat (f_size f))"
proof -
  have "unat (fold (\<lambda>f acc. acc + ucast (f_size f)) fs acc) = unat acc + (\<Sum>f\<leftarrow>fs. unat (f_size f))"
    if "unat acc + length fs * 2 ^ 32 < 2 ^ 64" for fs :: "Frame list" and acc :: u64
    using that
  proof (induction fs arbitrary: acc)
    case (Cons f fs)
    have sz: "unat (f_size f) < 2 ^ 32" using unat_less [of "f_size f"] by simp
    then have "unat (ucast (f_size f) :: u64) = unat (f_size f)" by (simp add: unsigned_ucast_eq take_bit_nat_eq_self)
    moreover have "unat acc + unat (f_size f) < 2 ^ 64" using Cons.prems sz by simp
    ultimately have "unat (acc + ucast (f_size f)) = unat acc + unat (f_size f)" by (simp add: unat_word_ariths)
    with Cons sz show ?case by simp
  qed simp
  from this [of 0 frames] assms show ?thesis by (simp add: frame_sum_def)
qed

lemma sum_distinct_le:
  assumes "distinct is" "set is \<subseteq> {..<length xs}"
  shows "(\<Sum>i\<leftarrow>is. g (xs ! i)) \<le> (\<Sum>x\<leftarrow>xs. g x :: nat)"
proof -
  have "(\<Sum>i\<leftarrow>is. g (xs ! i)) = (\<Sum>i\<in>set is. g (xs ! i))" using assms(1) by (simp add: sum_list_distinct_conv_sum_set)
  also have "\<dots> \<le> (\<Sum>i\<in>{..<length xs}. g (xs ! i))" using assms(2) by (intro sum_mono2) auto
  also have "\<dots> = (\<Sum>x\<leftarrow>xs. g x)" by (simp add: sum_list_sum_nth atLeast0LessThan)
  finally show ?thesis .
qed

lemma analyze_bound:
  assumes "ar_status (analyze elf) = Pass" "ar_max_stack_bytes (analyze elf) \<noteq> UNKNOWN_SENTINEL"
    and "length (info_frames elf) < 2 ^ 32"
    and "successively (direct_call (merged_directs elf) (ar_frames (analyze elf))) chain"
    and "set chain \<subseteq> {..<length (ar_frames (analyze elf))}"
  shows "(\<Sum>i\<leftarrow>chain. unat (f_size (ar_frames (analyze elf) ! i))) \<le> unat (ar_max_stack_bytes (analyze elf))"
proof -
  let ?fs = "ar_frames (analyze elf)"
  have fs: "?fs = join_frames_with_symbols elf" by (simp add: analyze_def Let_def)
  have "detect_cycle (merged_directs elf) ?fs = None"
    using assms(1) by (auto simp: analyze_def Let_def split: if_splits)
  then have "distinct chain"
    using assms(4) detect_cycle_None by (intro acyclic_chain_distinct [of "direct_call (merged_directs elf) ?fs"]) blast+
  then have "(\<Sum>i\<leftarrow>chain. unat (f_size (?fs ! i))) \<le> (\<Sum>f\<leftarrow>?fs. unat (f_size f))"
    using assms(5) by (rule sum_distinct_le)
  also have "\<dots> = unat (frame_sum ?fs)"
    using assms(3) by (intro frame_sum_unat [symmetric]) (simp add: fs join_frames_with_symbols_def)
  also have "\<dots> = unat (ar_max_stack_bytes (analyze elf))"
  proof -
    have "ar_max_stack_bytes (analyze elf) = (if frame_sum ?fs > 0xFFFFFFFF then 0xFFFFFFFF else ucast (frame_sum ?fs))"
      using assms(1) unfolding fs by (auto simp: analyze_def Let_def split: if_splits)
    with assms(2) have "\<not> frame_sum ?fs > 0xFFFFFFFF" "ar_max_stack_bytes (analyze elf) = ucast (frame_sum ?fs)"
      by (auto split: if_splits)
    then show ?thesis by (simp add: word_less_nat_alt not_less unsigned_ucast_eq take_bit_nat_eq_self)
  qed
  finally show ?thesis .
qed

section \<open>Reading back \<open>.stack_sizes\<close>\<close>

text \<open>The encoder of the compiler: an address in eight bytes, then the frame size in ULEB128.\<close>

fun uleb_encode :: "nat \<Rightarrow> u8 list" where
  "uleb_encode n = (if n < 128 then [of_nat n] else of_nat (n mod 128 + 128) # uleb_encode (n div 128))"

declare uleb_encode.simps [simp del]

lemma or_push_nat: "x < 2 ^ s \<Longrightarrow> x OR push_bit s y = x + y * 2 ^ s" for x y :: nat
proof -
  assume "x < 2 ^ s"
  then have x: "take_bit s x = x" by (simp add: take_bit_nat_eq_self)
  have "take_bit s x AND push_bit s y = 0" by (rule bit_eqI) (simp add: bit_simps)
  then show ?thesis unfolding x by (simp add: disjunctive_add_eq_or [symmetric] push_bit_eq_mult)
qed

lemma or_push_unat:
  fixes v :: u64 and b :: u8
  assumes "unat v < 2 ^ s" "unat b < 128" "s \<le> 31"
  shows "unat (v OR push_bit s (ucast b)) = unat v + unat b * 2 ^ s"
proof -
  have "unat b * 2 ^ s < 128 * 2 ^ 31"
    using assms(2,3) by (intro mult_less_le_imp_less power_increasing) simp_all
  then have "take_bit 64 (push_bit s (unat b)) = push_bit s (unat b)" by (simp add: take_bit_nat_eq_self push_bit_eq_mult)
  moreover have "take_bit 64 (unat b) = unat b" using assms(2) by (simp add: take_bit_nat_eq_self)
  ultimately have "unat (push_bit s (ucast b :: u64)) = push_bit s (unat b)"
    by (simp add: unsigned_push_bit_eq unsigned_ucast_eq)
  then show ?thesis using or_push_nat [OF assms(1)] by (simp add: unsigned_or_eq)
qed

lemma drop_Cons_nth: "drop c xs = y # ys \<Longrightarrow> c < length xs \<and> xs ! c = y \<and> drop (Suc c) xs = ys"
  by (metis Cons_nth_drop_Suc drop_eq_Nil linorder_not_le list.discI list.inject)

lemma low7: "unat (b AND 0x7F) = unat b mod 128" for b :: u8
proof -
  have "b AND 0x7F = take_bit 7 b" using take_bit_eq_mask [of 7 b] by (simp add: mask_eq_exp_minus_1)
  then have "unat (b AND 0x7F) = take_bit 7 (unat b)" by (simp only: unsigned_take_bit_eq)
  then show ?thesis by (simp add: take_bit_eq_mod)
qed

lemma high_bit: "b AND 0x80 = 0 \<longleftrightarrow> unat b < 128" for b :: u8
proof -
  have "b AND 0x80 = 0 \<longleftrightarrow> unat b AND push_bit 7 1 = 0"
    unfolding word_unat_eq_iff unsigned_and_eq by simp
  also have "\<dots> \<longleftrightarrow> \<not> bit (unat b) 7" by (simp only: bit_iff_and_push_bit_not_eq_0 not_not)
  also have "\<dots> \<longleftrightarrow> unat b < 128"
  proof (cases "unat b < 128")
    case False
    then have "unat b div 128 = 1" using unat_less [of b] by (intro div_nat_eqI) simp_all
    with False show ?thesis by (simp add: bit_iff_odd)
  qed (simp add: bit_iff_odd)
  finally show ?thesis .
qed

lemma uleb_loop_encode:
  "drop c buf = uleb_encode n @ rest \<Longrightarrow> unat v < 2 ^ s \<Longrightarrow> unat v + n * 2 ^ s < 2 ^ 32 \<Longrightarrow> s \<le> 31 \<Longrightarrow>
     uleb_loop buf c v s = Inr (of_nat (unat v + n * 2 ^ s), c + length (uleb_encode n))"
proof (induction n arbitrary: c v s rule: uleb_encode.induct)
  case (1 n)
  define b :: u8 where "b = (if n < 128 then of_nat n else of_nat (n mod 128 + 128))"
  define rest' where "rest' = (if n < 128 then rest else uleb_encode (n div 128) @ rest)"
  have enc: "drop c buf = b # rest'"
    using "1.prems"(1) by (subst (asm) uleb_encode.simps) (auto simp: b_def rest'_def split: if_splits)
  note d = drop_Cons_nth [OF enc]
  have ub: "unat b = (if n < 128 then n else n mod 128 + 128)"
    unfolding b_def if_distrib [of unat] unsigned_of_nat by (simp add: take_bit_nat_eq_self)
  then have low: "unat (b AND 0x7F) = n mod 128" by (simp add: low7)
  let ?v = "v OR push_bit s (ucast (b AND 0x7F))"
  have uv: "unat ?v = unat v + (n mod 128) * 2 ^ s"
    using or_push_unat [OF "1.prems"(2) _ "1.prems"(4), of "b AND 0x7F"] low by simp
  have le: "unat v + (n mod 128) * 2 ^ s \<le> unat v + n * 2 ^ s" by simp
  with "1.prems"(3) uv have "unat ?v < 2 ^ 32" by linarith
  then have no_overflow: "\<not> ?v > 0xFFFFFFFF" by (simp add: word_less_nat_alt)
  show ?case
  proof (cases "n < 128")
    case True
    have "ucast ?v = (of_nat (unat v + n * 2 ^ s) :: u32)"
      using of_nat_unat [of ?v, symmetric] uv True by (metis mod_less)
    with True d no_overflow high_bit [of b] ub show ?thesis
      by (subst uleb_loop.simps) (simp add: uleb_encode.simps Let_def)
  next
    case False
    have split: "n = n mod 128 + 128 * (n div 128)" by simp
    have lt: "128 * 2 ^ s \<le> n * 2 ^ s" using False by simp
    have "(2 :: nat) ^ (s + 7) = 128 * 2 ^ s" by (simp add: power_add)
    also have "\<dots> < 2 ^ 32" using lt "1.prems"(3) by linarith
    finally have "s + 7 < 32" by (rule power_less_imp_less_exp [rotated]) simp
    then have s7: "s + 7 \<le> 31" by simp
    have "(n mod 128) * 2 ^ s \<le> 127 * 2 ^ s" by simp
    then have "unat ?v < 128 * 2 ^ s" using uv "1.prems"(2) by linarith
    then have "unat ?v < 2 ^ (s + 7)" by (simp add: power_add)
    moreover have tot: "unat ?v + n div 128 * 2 ^ (s + 7) = unat v + n * 2 ^ s"
      unfolding uv using arg_cong [OF split, of "\<lambda>k. k * 2 ^ s"]
      by (simp only: power_add distrib_right add.assoc mult.assoc mult.commute [of 128] mult.left_commute) simp
    ultimately have "uleb_loop buf (Suc c) ?v (s + 7)
        = Inr (of_nat (unat ?v + n div 128 * 2 ^ (s + 7)), Suc c + length (uleb_encode (n div 128)))"
      using False d s7 "1.prems"(3) by (intro "1.IH") (simp_all add: rest'_def)
    with False d no_overflow high_bit [of b] ub s7 tot show ?thesis
      by (subst uleb_loop.simps) (simp add: uleb_encode.simps [of n] Let_def)
  qed
qed

definition stack_size_entry :: "u64 \<times> u32 \<Rightarrow> u8 list" where
  "stack_size_entry e = le_encode 8 (fst e) @ uleb_encode (unat (snd e))"

lemma uleb_encode_not_Nil [simp]: "uleb_encode n \<noteq> []"
  by (simp add: uleb_encode.simps)

lemma stack_sizes_loop_encode:
  "drop c buf = concat (map stack_size_entry xs) \<Longrightarrow> c \<le> length buf \<Longrightarrow> stack_sizes_loop buf c = Inr xs"
proof (induction xs arbitrary: c)
  case Nil
  then show ?case by (subst stack_sizes_loop.simps) simp
next
  case (Cons e xs)
  obtain addr sz where e: "e = (addr, sz)" by (cases e)
  let ?rest = "concat (map stack_size_entry xs)"
  have d: "drop c buf = le_encode 8 addr @ uleb_encode (unat sz) @ ?rest"
    using Cons.prems(1) by (simp add: e stack_size_entry_def [of "(addr, sz)"])
  then have "length (drop c buf) > 8" by (simp add: neq_Nil_conv [symmetric])
  then have len: "c + 8 < length buf" by simp
  have addr: "read_u64 buf c = Inr addr"
    using len d by (simp add: read_u64_def le_value_encode take_bit_word_eq_self)
  have d8: "drop (c + 8) buf = uleb_encode (unat sz) @ ?rest"
    using arg_cong [OF d, of "drop 8"] by (simp add: add.commute)
  have "read_uleb128 buf (c + 8) = Inr (sz, c + 8 + length (uleb_encode (unat sz)))"
    using uleb_loop_encode [OF d8, of 0 0] unat_less [of sz] by (simp add: read_uleb128_def)
  moreover have "stack_sizes_loop buf (c + 8 + length (uleb_encode (unat sz))) = Inr xs"
  proof (rule Cons.IH)
    show "drop (c + 8 + length (uleb_encode (unat sz))) buf = ?rest"
      using arg_cong [OF d8, of "drop (length (uleb_encode (unat sz)))"] by (simp add: add.commute add.left_commute)
    show "c + 8 + length (uleb_encode (unat sz)) \<le> length buf"
      using arg_cong [OF d8, of length] len by simp
  qed
  ultimately show ?case using len addr by (subst stack_sizes_loop.simps) (simp add: e)
qed

text \<open>
  C39. Round trip of \<open>.stack_sizes\<close>: the parser returns exactly the entries a compiler wrote (an
  eight-byte little-endian address and a ULEB128 frame size each), for every list of entries.
\<close>
theorem stack_sizes_roundtrip: "parse_stack_sizes (concat (map stack_size_entry xs)) = Inr xs"
  by (simp add: parse_stack_sizes_def stack_sizes_loop_encode)

section \<open>Compressed jumps lose their source\<close>

text \<open>
  \<open>decode_rvc_direct\<close> leaves \<open>from_off = 0\<close>, so a \<open>c.j\<close> is charged to the first function
  of \<open>.text\<close>. Below, \<open>a\<close> calls \<open>b\<close> and \<open>b\<close> jumps back to \<open>a\<close>: an unbounded
  recursion, reported as a pass with 48 bytes.
\<close>

definition cj_example :: ElfStackInfo where
  "cj_example = \<lparr>info_frames = [(0x80600000, 16), (0x80600004, 16), (0x80600008, 16)],
     info_symbols = [(0x80600000, ''start''), (0x80600004, ''a''), (0x80600008, ''b'')],
     info_direct_calls = [], info_text_base = 0x80600000,
     info_text_bytes = [0x01, 0x00, 0x01, 0x00, 0xEF, 0x00, 0x40, 0x00, 0xF5, 0xBF]\<rparr>"

lemma cj_recursion_missed:
  "decode_rvc_direct 0xBFF5 0x80600008 = Some \<lparr>from_off = 0, edge_target = 0x80600004, edge_link = 0\<rparr>"
  "merged_directs cj_example = [(0x80600004, 0x80600008), (0x80600000, 0x80600004)]"
  "ar_status (analyze cj_example) = Pass" "ar_max_stack_bytes (analyze cj_example) = 48"
  by code_simp+

end
