(* ===== verification/Bin_Verify.thy ===== *)
theory Bin_Verify
  imports Prelude Rust_Text
begin

text \<open>
  The binary verifier \<open>tools/riscv-bin-verify\<close>: the instruction decoder (\<open>decoder.rs\<close>), the
  opcode scan (\<open>opcodes.rs\<close>), the splitting of \<open>.text\<close> into instructions and the ELF view
  (\<open>parser.rs\<close>), and the section and region checks (\<open>sections.rs\<close>, \<open>regions.rs\<close>,
  \<open>manifest.rs\<close>, \<open>lib.rs\<close>). The ELF container format is read by the \<open>object\<close> library: an
  \<open>elf_file\<close> is what its iterators return, and \<open>object_parse\<close> is the library's parser.
\<close>

section \<open>Decoder (decoder.rs)\<close>

datatype Op = Ecall | Ebreak | Csr | Mret | Sret | Uret | Wfi | SfenceVma | SfenceWInval
  | FloatF | FloatD | CompressedFloat | Jal u64 | Jalr | Plain | Unknown

definition decode_system :: "u32 \<Rightarrow> Op" where
  "decode_system raw =
     (let funct3 = drop_bit 12 raw AND 0x7 in
      if funct3 = 0 then
        (let funct12 = drop_bit 20 raw AND 0xFFF; rs1 = drop_bit 15 raw AND 0x1F; rd = drop_bit 7 raw AND 0x1F
         in if rs1 \<noteq> 0 \<or> rd \<noteq> 0 then Unknown
            else if funct12 = 0x000 then Ecall
            else if funct12 = 0x001 then Ebreak
            else if funct12 = 0x102 then Sret
            else if funct12 = 0x202 then Uret
            else if funct12 = 0x302 then Mret
            else if funct12 = 0x105 then Wfi
            else let funct7 = drop_bit 5 funct12 AND 0x7F
                 in if funct7 = 0x09 then SfenceVma else if funct7 = 0x0C then SfenceWInval else Unknown)
      else if funct3 = 1 \<or> funct3 = 2 \<or> funct3 = 3 \<or> funct3 = 5 \<or> funct3 = 6 \<or> funct3 = 7 then Csr
      else Unknown)"

definition decode_op_fp :: "u32 \<Rightarrow> Op" where
  "decode_op_fp raw =
     (let funct7 = drop_bit 25 raw AND 0x7F; fmt = funct7 AND 0b11
      in if fmt = 0b00 then FloatF else if fmt = 0b01 then FloatD else FloatF)"

definition decode_load_fp :: "u32 \<Rightarrow> Op" where
  "decode_load_fp raw =
     (let funct3 = drop_bit 12 raw AND 0x7 in if funct3 = 2 then FloatF else if funct3 = 3 then FloatD else FloatF)"

definition decode_store_fp :: "u32 \<Rightarrow> Op" where
  "decode_store_fp raw =
     (let funct3 = drop_bit 12 raw AND 0x7 in if funct3 = 2 then FloatF else if funct3 = 3 then FloatD else FloatF)"

definition decode_jal_target :: "u32 \<Rightarrow> u64 \<Rightarrow> u64" where
  "decode_jal_target raw pc =
     (let imm20 = push_bit 20 (drop_bit 31 raw AND 0x1);
          imm10_1 = push_bit 1 (drop_bit 21 raw AND 0x3FF);
          imm11 = push_bit 11 (drop_bit 20 raw AND 0x1);
          imm19_12 = push_bit 12 (drop_bit 12 raw AND 0xFF);
          imm_unsigned = imm20 OR imm19_12 OR imm11 OR imm10_1;
          imm = (if imm20 \<noteq> 0 then scast (imm_unsigned OR 0xFFE00000) else ucast imm_unsigned) :: u64
      in pc + imm)"

definition decode32 :: "u32 \<Rightarrow> u64 \<Rightarrow> Op" where
  "decode32 raw pc =
     (let opcode = raw AND 0x7F in
      if opcode = 0x73 then decode_system raw
      else if opcode = 0x53 then decode_op_fp raw
      else if opcode = 0x07 then decode_load_fp raw
      else if opcode = 0x27 then decode_store_fp raw
      else if opcode = 0x6F then Jal (decode_jal_target raw pc)
      else if opcode = 0x67 then Jalr
      else Plain)"

definition decode_rvc :: "u16 \<Rightarrow> Op" where
  "decode_rvc raw =
     (let quadrant = raw AND 0b11; funct3 = drop_bit 13 raw AND 0x7 in
      if quadrant = 0b00 \<and> funct3 = 0b001 then CompressedFloat
      else if quadrant = 0b00 \<and> funct3 = 0b101 then CompressedFloat
      else if quadrant = 0b10 \<and> funct3 = 0b001 then CompressedFloat
      else if quadrant = 0b10 \<and> funct3 = 0b101 then CompressedFloat
      else Plain)"

section \<open>ELF view (parser.rs)\<close>

record elf_section =
  sec_name :: "string option"
  sec_address :: u64
  sec_size :: u64
  sec_flags :: u64
  sec_data :: "u8 list option"

record elf_symbol =
  sym_name :: "string option"
  sym_address :: u64
  sym_shndx :: u16
  sym_info :: u8

record elf_file =
  elf_type :: u16
  elf_sections :: "elf_section list"
  elf_symbols :: "elf_symbol list"

datatype SymSection = Index u16 | Undef | Absolute | Common | Reserved

datatype SymType = Func | ObjectSym | FileSym | SectionSym | NoType | OtherSym

record ParsedSection =
  ps_name :: string
  sh_addr :: u64
  sh_size :: u64
  sh_flags :: u64
  is_text :: bool

record ParsedSymbol =
  psym_name :: string
  st_value :: u64
  st_shndx :: SymSection
  st_type :: SymType

record TextInstr =
  abs_addr :: u64
  raw32 :: u32
  is_rvc :: bool

record ParsedReloc =
  r_type :: u32
  r_offset :: u64
  r_symbol :: "string option"

record ParsedElf =
  e_type :: u16
  p_sections :: "ParsedSection list"
  p_symbols :: "ParsedSymbol list"
  text_words :: "TextInstr list"
  relocations :: "ParsedReloc list"

definition half_at :: "u8 list \<Rightarrow> nat \<Rightarrow> u32" where
  "half_at data off = ucast (data ! off) OR push_bit 8 (ucast (data ! (off + 1)))"

text \<open>The loop over the bytes of one section: compressed and 32-bit instructions, and a truncated tail.\<close>

function text_loop :: "u64 \<Rightarrow> u8 list \<Rightarrow> nat \<Rightarrow> TextInstr list" where
  "text_loop base data off =
     (if off < length data then
        if off + 2 > length data then []
        else let lo = half_at data off in
          if lo AND 0b11 \<noteq> 0b11 then
            \<lparr>abs_addr = base + of_nat off, raw32 = lo, is_rvc = True\<rparr> # text_loop base data (off + 2)
          else if off + 4 > length data then [\<lparr>abs_addr = base + of_nat off, raw32 = lo, is_rvc = False\<rparr>]
          else \<lparr>abs_addr = base + of_nat off, raw32 = lo OR push_bit 16 (half_at data (off + 2)), is_rvc = False\<rparr>
                 # text_loop base data (off + 4)
      else [])"
  by pat_completeness auto
termination by (relation "measure (\<lambda>(base, data, off). length data - off)") auto

declare text_loop.simps [simp del]

definition sym_section :: "u16 \<Rightarrow> SymSection" where
  "sym_section n =
     (if n = 0 then Undef else if n = 0xFFF1 then Absolute else if n = 0xFFF2 then Common
      else if 0xFF00 \<le> n then Reserved else Index n)"

definition sym_type :: "u8 \<Rightarrow> SymType" where
  "sym_type info =
     (let n = info AND 0x0F in
      if n = 1 then ObjectSym else if n = 2 then Func else if n = 3 then SectionSym else if n = 4 then FileSym
      else if n = 0 then NoType else OtherSym)"

definition is_text_name :: "string \<Rightarrow> bool" where
  "is_text_name n = (n = ''.text'' \<or> starts_with ''.text.'' n)"

definition section_text :: "elf_section \<Rightarrow> TextInstr list" where
  "section_text s =
     (let n = (case sec_name s of Some n \<Rightarrow> n | None \<Rightarrow> '''') in
      if \<not> is_text_name n then []
      else case sec_data s of None \<Rightarrow> [] | Some data \<Rightarrow> text_loop (sec_address s) data 0)"

definition parse_elf :: "elf_file \<Rightarrow> ParsedElf" where
  "parse_elf elf =
     \<lparr>e_type = elf_type elf,
      p_sections = map (\<lambda>s. let n = (case sec_name s of Some n \<Rightarrow> n | None \<Rightarrow> ''<noname>'') in
        \<lparr>ps_name = n, sh_addr = sec_address s, sh_size = sec_size s, sh_flags = sec_flags s, is_text = is_text_name n\<rparr>)
        (elf_sections elf),
      p_symbols = map (\<lambda>s. \<lparr>psym_name = (case sym_name s of Some n \<Rightarrow> n | None \<Rightarrow> ''<noname>''),
        st_value = sym_address s, st_shndx = sym_section (sym_shndx s), st_type = sym_type (sym_info s)\<rparr>)
        (elf_symbols elf),
      text_words = concat (map section_text (elf_sections elf)),
      relocations = []\<rparr>"

abbreviation (input) SHF_WRITE :: u64 where "SHF_WRITE \<equiv> 0x1"
abbreviation (input) SHF_ALLOC :: u64 where "SHF_ALLOC \<equiv> 0x2"
abbreviation (input) SHF_EXECINSTR :: u64 where "SHF_EXECINSTR \<equiv> 0x4"
abbreviation (input) ET_DYN :: u16 where "ET_DYN \<equiv> 3"

definition section_is_alloc :: "ParsedElf \<Rightarrow> u16 \<Rightarrow> bool" where
  "section_is_alloc parsed idx =
     (if idx = 0 then False
      else let i = unat (idx - 1) in
        if i < length (p_sections parsed) then sh_flags (p_sections parsed ! i) AND SHF_ALLOC \<noteq> 0 else False)"

definition is_pie :: "ParsedElf \<Rightarrow> bool" where
  "is_pie parsed = (e_type parsed = ET_DYN)"

section \<open>Violations (lib.rs), opcode scan (opcodes.rs)\<close>

datatype Category = PrivilegedOp | FloatOp | ForbiddenSection | WxViolation | Relocation | RegionBoundary
  | KernelRangeJal | ParseError

datatype vmessage = Op_at string u64 bool | Pie_object | Section_forbidden string | Section_wx string u64
  | Reloc_residue u32 u64 | Task_not_found string | Symbol_outside string u64 string | Jal_to_kernel u64 u64

record Violation =
  category :: Category
  message :: vmessage

definition classify :: "Op \<Rightarrow> u64 \<Rightarrow> bool \<Rightarrow> Violation option" where
  "classify op addr rvc =
     (let v = (\<lambda>cat name. Some \<lparr>category = cat, message = Op_at name addr rvc\<rparr>) in
      case op of
        Ecall \<Rightarrow> None | Plain \<Rightarrow> None | Jal _ \<Rightarrow> None | Jalr \<Rightarrow> None
      | Ebreak \<Rightarrow> v PrivilegedOp ''ebreak''
      | Csr \<Rightarrow> v PrivilegedOp ''csr*''
      | Mret \<Rightarrow> v PrivilegedOp ''mret''
      | Sret \<Rightarrow> v PrivilegedOp ''sret''
      | Uret \<Rightarrow> v PrivilegedOp ''uret''
      | Wfi \<Rightarrow> v PrivilegedOp ''wfi''
      | SfenceVma \<Rightarrow> v PrivilegedOp ''sfence.vma''
      | SfenceWInval \<Rightarrow> v PrivilegedOp ''sfence.w.inval''
      | FloatF \<Rightarrow> v FloatOp ''F-extension op''
      | FloatD \<Rightarrow> v FloatOp ''D-extension op''
      | CompressedFloat \<Rightarrow> v FloatOp ''RVC FP op''
      | Unknown \<Rightarrow> None)"

definition decode_instr :: "TextInstr \<Rightarrow> Op" where
  "decode_instr i = (if is_rvc i then decode_rvc (ucast (raw32 i)) else decode32 (raw32 i) (abs_addr i))"

definition scan_forbidden_opcodes :: "ParsedElf \<Rightarrow> Violation list" where
  "scan_forbidden_opcodes parsed =
     List.map_filter (\<lambda>i. classify (decode_instr i) (abs_addr i) (is_rvc i)) (text_words parsed)"

section \<open>Sections (sections.rs)\<close>

definition FORBIDDEN_SECTIONS :: "string list" where
  "FORBIDDEN_SECTIONS = [''.got'', ''.got.plt'', ''.plt'', ''.eh_frame'', ''.eh_frame_hdr'', ''.init_array'',
     ''.fini_array'', ''.ctors'', ''.dtors'']"

definition section_violations :: "ParsedSection \<Rightarrow> Violation list" where
  "section_violations s =
     (if ps_name s \<in> set FORBIDDEN_SECTIONS
      then [\<lparr>category = ForbiddenSection, message = Section_forbidden (ps_name s)\<rparr>]
      else if sh_flags s AND SHF_ALLOC \<noteq> 0 \<and> sh_flags s AND SHF_WRITE \<noteq> 0 \<and> sh_flags s AND SHF_EXECINSTR \<noteq> 0
      then [\<lparr>category = WxViolation, message = Section_wx (ps_name s) (sh_addr s)\<rparr>] else [])"

definition check_sections :: "ParsedElf \<Rightarrow> Violation list" where
  "check_sections parsed =
     (if is_pie parsed then [\<lparr>category = Relocation, message = Pie_object\<rparr>] else []) @
     concat (map section_violations (p_sections parsed)) @
     concat (map (\<lambda>r. if \<not> r_type r \<le> 7
       then [\<lparr>category = Relocation, message = Reloc_residue (r_type r) (r_offset r)\<rparr>] else []) (relocations parsed))"

section \<open>Regions (manifest.rs, regions.rs)\<close>

text \<open>The verifier's own reading of the manifest.\<close>

record BvRegion =
  bv_base :: usize
  bv_size :: usize

record BvTask =
  bv_name :: string
  bv_regions :: "BvRegion list"

record BvManifest =
  bv_reserved_size :: usize
  bv_tasks :: "BvTask list"

definition contains_addr :: "BvTask \<Rightarrow> usize \<Rightarrow> bool" where
  "contains_addr t addr = list_ex (\<lambda>r. bv_base r \<le> addr \<and> addr < saturating_add (bv_base r) (bv_size r)) (bv_regions t)"

definition EDGE_SYMBOLS :: "string list" where
  "EDGE_SYMBOLS = [''_end'', ''_etext'', ''_edata'', ''__bss_start'', ''__bss_end'', ''_data_start'', ''_data_end'',
     ''_rodata_start'', ''_rodata_end'', ''_sdata'', ''_sbss'', ''_estack'', ''__global_pointer$'']"

definition should_check_symbol :: "ParsedElf \<Rightarrow> ParsedSymbol \<Rightarrow> bool" where
  "should_check_symbol parsed s =
     (if st_value s = 0 then False
      else if st_type s = FileSym \<or> st_type s = SectionSym then False
      else case st_shndx s of
          Index idx \<Rightarrow> section_is_alloc parsed idx \<and> psym_name s \<notin> set EDGE_SYMBOLS
        | _ \<Rightarrow> False)"

definition check_regions :: "ParsedElf \<Rightarrow> BvManifest \<Rightarrow> string \<Rightarrow> Violation list" where
  "check_regions parsed m task_name =
     (case find (\<lambda>t. bv_name t = task_name) (bv_tasks m) of
        None \<Rightarrow> [\<lparr>category = ParseError, message = Task_not_found task_name\<rparr>]
      | Some task \<Rightarrow>
          concat (map (\<lambda>s. if should_check_symbol parsed s \<and> \<not> contains_addr task (st_value s)
            then [\<lparr>category = RegionBoundary, message = Symbol_outside (psym_name s) (st_value s) task_name\<rparr>] else [])
            (p_symbols parsed)) @
          (let kernel_base = 0x80000000; kernel_end = kernel_base + bv_reserved_size m in
           concat (map (\<lambda>i. if is_rvc i then [] else case decode32 (raw32 i) (abs_addr i) of
               Jal target \<Rightarrow>
                 if kernel_base \<le> target \<and> target < kernel_end
                 then [\<lparr>category = KernelRangeJal, message = Jal_to_kernel (abs_addr i) target\<rparr>] else []
             | _ \<Rightarrow> []) (text_words parsed))))"

record VerifyReport =
  vr_task_name :: string
  vr_elf_bytes :: nat
  violations :: "Violation list"

definition passed :: "VerifyReport \<Rightarrow> bool" where
  "passed r = (violations r = [])"

definition verify_elf_bytes ::
  "(u8 list \<Rightarrow> elf_file option) \<Rightarrow> u8 list \<Rightarrow> BvManifest \<Rightarrow> string \<Rightarrow> VerifyReport option" where
  "verify_elf_bytes object_parse elf_bytes m task_name =
     (case object_parse elf_bytes of None \<Rightarrow> None
      | Some elf \<Rightarrow>
          (let parsed = parse_elf elf in
           Some \<lparr>vr_task_name = task_name, vr_elf_bytes = length elf_bytes,
             violations = scan_forbidden_opcodes parsed @ check_sections parsed @ check_regions parsed m task_name\<rparr>))"

text \<open>\<open>main.rs\<close>: 0 passed, 1 violations, 2 unreadable input.\<close>

definition verify_exit :: "VerifyReport option \<Rightarrow> nat" where
  "verify_exit r = (case r of None \<Rightarrow> 2 | Some rep \<Rightarrow> if passed rep then 0 else 1)"

text \<open>
  \<open>verify_elf\<close> and the command line. The host is given by what a file contains, what the text of a
  manifest file is and how the TOML library reads it.
\<close>

definition verify_elf ::
  "(string \<Rightarrow> u8 list option) \<Rightarrow> (string \<Rightarrow> string option) \<Rightarrow> (string \<Rightarrow> BvManifest option) \<Rightarrow> (u8 list \<Rightarrow> elf_file option)
     \<Rightarrow> string \<Rightarrow> string \<Rightarrow> string \<Rightarrow> VerifyReport option" where
  "verify_elf rd rd_text toml object_parse elf_path manifest_path task_name =
     Option.bind (rd elf_path) (\<lambda>elf_bytes.
     Option.bind (Option.bind (rd_text manifest_path) toml) (\<lambda>manifest.
       verify_elf_bytes object_parse elf_bytes manifest task_name))"

record bv_args =
  ba_elf :: "string option"
  ba_manifest :: "string option"
  ba_task_name :: "string option"

fun bv_arg_loop :: "string list \<Rightarrow> bv_args \<Rightarrow> nat + bv_args" where
  "bv_arg_loop [] a = Inr a"
| "bv_arg_loop (k # rest) a =
     (if k = ''--elf'' then (case rest of [] \<Rightarrow> Inl 2 | v # r \<Rightarrow> bv_arg_loop r (a\<lparr>ba_elf := Some v\<rparr>))
      else if k = ''--manifest'' then (case rest of [] \<Rightarrow> Inl 2 | v # r \<Rightarrow> bv_arg_loop r (a\<lparr>ba_manifest := Some v\<rparr>))
      else if k = ''--task-name'' then (case rest of [] \<Rightarrow> Inl 2 | v # r \<Rightarrow> bv_arg_loop r (a\<lparr>ba_task_name := Some v\<rparr>))
      else if k = ''-h'' \<or> k = ''--help'' then Inl 0
      else Inl 2)"

definition verify_main ::
  "(string \<Rightarrow> u8 list option) \<Rightarrow> (string \<Rightarrow> string option) \<Rightarrow> (string \<Rightarrow> BvManifest option) \<Rightarrow> (u8 list \<Rightarrow> elf_file option)
     \<Rightarrow> string list \<Rightarrow> nat" where
  "verify_main rd rd_text toml object_parse args =
     (case bv_arg_loop args \<lparr>ba_elf = None, ba_manifest = None, ba_task_name = None\<rparr> of
        Inl code \<Rightarrow> code
      | Inr a \<Rightarrow>
          (case (ba_elf a, ba_manifest a, ba_task_name a) of
             (Some elf, Some mf, Some n) \<Rightarrow> verify_exit (verify_elf rd rd_text toml object_parse elf mf n)
           | _ \<Rightarrow> 2))"

section \<open>The instruction stream of a section\<close>

definition instr_bytes :: "TextInstr \<Rightarrow> u8 list" where
  "instr_bytes i = (if is_rvc i then le_bytes16 (ucast (raw32 i)) else le_bytes32 (raw32 i))"

definition instr_ok :: "TextInstr \<Rightarrow> bool" where
  "instr_ok i \<longleftrightarrow> (is_rvc i \<longleftrightarrow> raw32 i AND 0b11 \<noteq> 0b11) \<and> (is_rvc i \<longrightarrow> drop_bit 16 (raw32 i) = 0)"

fun consecutive :: "u64 \<Rightarrow> nat \<Rightarrow> TextInstr list \<Rightarrow> bool" where
  "consecutive base off [] = True"
| "consecutive base off (i # is) \<longleftrightarrow>
     abs_addr i = base + of_nat off \<and> consecutive base (off + length (instr_bytes i)) is"

lemma length_instr_bytes [simp]: "length (instr_bytes i) = (if is_rvc i then 2 else 4)"
  by (simp add: instr_bytes_def)

lemma bit_u8_high: "8 \<le> n \<Longrightarrow> \<not> bit w n" for w :: u8
  using bit_imp_le_length [of w n] by auto

lemma half_at_bytes: "le_bytes16 (ucast (half_at data off)) = [data ! off, data ! (off + 1)]"
  unfolding le_bytes16_def half_at_def by (auto intro!: bit_word_eqI simp: bit_simps bit_u8_high)

lemma half_at_high: "drop_bit 16 (half_at data off) = 0"
  unfolding half_at_def by (auto intro!: bit_word_eqI simp: bit_simps bit_u8_high)

lemma word_at_bytes:
  "le_bytes32 (half_at data off OR push_bit 16 (half_at data (off + 2))) =
     [data ! off, data ! (off + 1), data ! (off + 2), data ! (off + 3)]"
  unfolding le_bytes32_def half_at_def
  by (auto intro!: bit_word_eqI simp: bit_simps bit_u8_high numeral_3_eq_3)

lemma word_at_low: "(half_at data off OR push_bit 16 (half_at data (off + 2))) AND 0b11 = half_at data off AND 0b11"
proof (rule bit_word_eqI)
  fix n
  have b: "bit (0b11 :: u32) n \<longleftrightarrow> n < 2"
  proof -
    have "(0b11 :: u32) = mask 2" by (simp add: mask_eq_exp_minus_1)
    then show ?thesis by (simp only: bit_mask_iff) auto
  qed
  show "bit ((half_at data off OR push_bit 16 (half_at data (off + 2))) AND 0b11) n = bit (half_at data off AND 0b11) n"
    unfolding bit_and_iff bit_or_iff b by (auto simp: bit_push_bit_iff)
qed

lemma drop_two: "off + 2 \<le> length xs \<Longrightarrow> drop off xs = xs ! off # xs ! (off + 1) # drop (off + 2) xs"
  using Cons_nth_drop_Suc [of off xs] Cons_nth_drop_Suc [of "Suc off" xs] by simp

lemma drop_four:
  "off + 4 \<le> length xs \<Longrightarrow> drop off xs = xs ! off # xs ! (off + 1) # xs ! (off + 2) # xs ! (off + 3) # drop (off + 4) xs"
  using drop_two [of off xs] drop_two [of "off + 2" xs] by (simp add: eval_nat_numeral)

text \<open>What is left of the section, and the entry recorded for it, after the whole instructions.\<close>

definition tail_of :: "u64 \<Rightarrow> nat \<Rightarrow> u8 list \<Rightarrow> TextInstr list \<Rightarrow> bool" where
  "tail_of base off rest tail \<longleftrightarrow>
     length rest < 2 \<and> tail = [] \<or>
     2 \<le> length rest \<and> length rest < 4 \<and> half_at rest 0 AND 0b11 = 0b11
       \<and> tail = [\<lparr>abs_addr = base + of_nat off, raw32 = half_at rest 0, is_rvc = False\<rparr>]"

lemma half_at_drop: "off + 2 \<le> length data \<Longrightarrow> half_at (drop off data) 0 = half_at data off"
  by (simp add: half_at_def)

lemma text_loop_tiles_from:
  "off \<le> length data \<Longrightarrow>
     \<exists>is rest tail. text_loop base data off = is @ tail \<and> drop off data = concat (map instr_bytes is) @ rest
       \<and> consecutive base off is \<and> list_all instr_ok is \<and> tail_of base (length data - length rest) rest tail"
proof (induction base data off rule: text_loop.induct)
  case (1 base data off)
  let ?lo = "half_at data off"
  consider (short) "length data < off + 2" | (rvc) "off + 2 \<le> length data" "?lo AND 0b11 \<noteq> 0b11"
    | (trunc) "off + 2 \<le> length data" "?lo AND 0b11 = 0b11" "length data < off + 4"
    | (full) "?lo AND 0b11 = 0b11" "off + 4 \<le> length data"
    by linarith
  then show ?case
  proof cases
    case short
    then have "text_loop base data off = []" by (subst text_loop.simps) auto
    moreover from short have "length (drop off data) < 2" by simp
    ultimately show ?thesis
      by (intro exI [of _ "[]"] exI [of _ "drop off data"]) (simp add: tail_of_def)
  next
    case rvc
    let ?i = "\<lparr>abs_addr = base + of_nat off, raw32 = ?lo, is_rvc = True\<rparr>"
    have eq: "text_loop base data off = ?i # text_loop base data (off + 2)"
      using rvc by (subst text_loop.simps) (simp add: Let_def)
    have "\<exists>is rest tail. text_loop base data (off + 2) = is @ tail \<and> drop (off + 2) data = concat (map instr_bytes is) @ rest
       \<and> consecutive base (off + 2) is \<and> list_all instr_ok is \<and> tail_of base (length data - length rest) rest tail"
      using rvc by (intro "1.IH"(1)) auto
    then obtain is' rest tail where IH: "text_loop base data (off + 2) = is' @ tail"
      "drop (off + 2) data = concat (map instr_bytes is') @ rest" "consecutive base (off + 2) is'"
      "list_all instr_ok is'" "tail_of base (length data - length rest) rest tail"
      by blast
    have i: "instr_bytes ?i = [data ! off, data ! (off + 1)]" "instr_ok ?i"
      using rvc half_at_bytes half_at_high by (simp_all add: instr_bytes_def instr_ok_def)
    have "drop off data = concat (map instr_bytes (?i # is')) @ rest"
      using drop_two [OF rvc(1)] IH(2) i(1) by simp
    moreover have "text_loop base data off = (?i # is') @ tail" using eq IH(1) by simp
    moreover have "consecutive base off (?i # is')" "list_all instr_ok (?i # is')" using IH(3,4) i(2) by simp_all
    ultimately show ?thesis using IH(5) by blast
  next
    case trunc
    let ?i = "\<lparr>abs_addr = base + of_nat off, raw32 = ?lo, is_rvc = False\<rparr>"
    have "text_loop base data off = [?i]" using trunc by (subst text_loop.simps) (simp add: Let_def)
    then show ?thesis using trunc "1.prems"
      by (intro exI [of _ "[]"] exI [of _ "drop off data"] exI [of _ "[?i]"]) (auto simp: tail_of_def half_at_drop)
  next
    case full
    let ?i = "\<lparr>abs_addr = base + of_nat off, raw32 = ?lo OR push_bit 16 (half_at data (off + 2)), is_rvc = False\<rparr>"
    have eq: "text_loop base data off = ?i # text_loop base data (off + 4)"
      using full by (subst text_loop.simps) (simp add: Let_def)
    have "\<exists>is rest tail. text_loop base data (off + 4) = is @ tail \<and> drop (off + 4) data = concat (map instr_bytes is) @ rest
       \<and> consecutive base (off + 4) is \<and> list_all instr_ok is \<and> tail_of base (length data - length rest) rest tail"
      using full by (intro "1.IH"(2)) auto
    then obtain is' rest tail where IH: "text_loop base data (off + 4) = is' @ tail"
      "drop (off + 4) data = concat (map instr_bytes is') @ rest" "consecutive base (off + 4) is'"
      "list_all instr_ok is'" "tail_of base (length data - length rest) rest tail"
      by blast
    have i: "instr_bytes ?i = [data ! off, data ! (off + 1), data ! (off + 2), data ! (off + 3)]" "instr_ok ?i"
      using full word_at_bytes word_at_low by (simp_all add: instr_bytes_def instr_ok_def)
    have "drop off data = concat (map instr_bytes (?i # is')) @ rest"
      using drop_four [OF full(2)] IH(2) i(1) by simp
    moreover have "text_loop base data off = (?i # is') @ tail" using eq IH(1) by simp
    moreover have "consecutive base off (?i # is')" "list_all instr_ok (?i # is')" using IH(3,4) i(2) by simp_all
    ultimately show ?thesis using IH(5) by blast
  qed
qed


section \<open>What an accepted binary cannot contain\<close>

text \<open>Instruction words by their encoding in the ISA manual (mask and match values).\<close>

definition csr_word :: "u32 \<Rightarrow> bool" where
  "csr_word w \<longleftrightarrow> w AND 0x7F = 0x73 \<and> drop_bit 12 w AND 0x7 \<notin> {0, 4}"

definition privileged_word :: "u32 \<Rightarrow> bool" where
  "privileged_word w \<longleftrightarrow> w \<in> {0x00100073, 0x10200073, 0x30200073, 0x10500073} \<or> w AND 0xFE0FFFFF = 0x12000073 \<or> w AND 0xFE0FFFFF = 0x18000073"

definition float_word :: "u32 \<Rightarrow> bool" where
  "float_word w \<longleftrightarrow> w AND 0x7F \<in> {0x07, 0x27, 0x53}"

definition rvc_float :: "u16 \<Rightarrow> bool" where
  "rvc_float h \<longleftrightarrow> h AND 0xE003 \<in> {0x2000, 0xA000, 0x2002, 0xA002}"

lemma masked_field:
  fixes w :: "'a::len word"
  assumes "w AND M = C" "drop_bit n M AND k = k"
  shows "drop_bit n w AND k = drop_bit n C AND k"
proof -
  have "drop_bit n C AND k = drop_bit n w AND (drop_bit n M AND k)"
    by (simp add: drop_bit_and and.assoc flip: assms(1))
  then show ?thesis using assms(2) by simp
qed

lemma and7_cases: "w AND 7 \<in> {0, 1, 2, 3, 4, 5, 6, 7}" for w :: u32
proof -
  have "w AND 7 = take_bit 3 w" by (simp add: take_bit_eq_mask mask_eq_exp_minus_1)
  then have "unat (w AND 7) < 2 ^ 3" by (simp only: unsigned_take_bit_eq take_bit_nat_less_exp)
  then have "unat (w AND 7) \<in> {0, 1, 2, 3, 4, 5, 6, 7}" by auto
  then show ?thesis by (auto simp: word_unat_eq_iff)
qed

lemma csr_rejected: "csr_word w \<Longrightarrow> decode32 w pc = Csr"
  using and7_cases [of "drop_bit 12 w"] by (auto simp: csr_word_def decode32_def decode_system_def Let_def)

lemma sfence_fields:
  fixes w C :: u32
  assumes "w AND 0xFE0FFFFF = C"
  shows "w AND 0x7F = C AND 0x7F" "drop_bit 12 w AND 7 = drop_bit 12 C AND 7"
    "drop_bit 15 w AND 0x1F = drop_bit 15 C AND 0x1F" "drop_bit 7 w AND 0x1F = drop_bit 7 C AND 0x1F"
    "drop_bit 5 (drop_bit 20 w AND 0xFFF) AND 0x7F = drop_bit 25 C AND 0x7F"
proof -
  show "w AND 0x7F = C AND 0x7F" using masked_field [OF assms, of 0 "0x7F"] by simp
  show "drop_bit 12 w AND 7 = drop_bit 12 C AND 7" using masked_field [OF assms, of 12 7] by simp
  show "drop_bit 15 w AND 0x1F = drop_bit 15 C AND 0x1F" using masked_field [OF assms, of 15 "0x1F"] by simp
  show "drop_bit 7 w AND 0x1F = drop_bit 7 C AND 0x1F" using masked_field [OF assms, of 7 "0x1F"] by simp
  have "drop_bit 5 (drop_bit 20 w AND 0xFFF) AND 0x7F = drop_bit 25 w AND 0x7F"
    by (simp add: drop_bit_and drop_bit_drop_bit and.assoc)
  then show "drop_bit 5 (drop_bit 20 w AND 0xFFF) AND 0x7F = drop_bit 25 C AND 0x7F"
    using masked_field [OF assms, of 25 "0x7F"] by simp
qed

lemma sfence_funct12:
  fixes x c C :: u32
  assumes "drop_bit 5 x AND 0x7F = drop_bit 25 C AND 0x7F"
  shows "drop_bit 5 c AND 0x7F \<noteq> drop_bit 25 C AND 0x7F \<Longrightarrow> x \<noteq> c"
  using assms by auto

lemma privileged_rejected: "privileged_word w \<Longrightarrow> classify (decode32 w pc) a False \<noteq> None"
proof -
  assume "privileged_word w"
  then consider "w \<in> {0x00100073, 0x10200073, 0x30200073, 0x10500073}"
    | "w AND 0xFE0FFFFF = 0x12000073" | "w AND 0xFE0FFFFF = 0x18000073"
    by (auto simp: privileged_word_def)
  then show ?thesis
  proof cases
    case 1
    then show ?thesis by (auto simp: decode32_def decode_system_def classify_def)
  next
    case 2
    note f = sfence_fields [OF 2]
    have "drop_bit 25 w AND 0x7F = 9" using f(5) by simp
    with f(2-4) sfence_funct12 [OF f(5)] have "decode_system w = SfenceVma"
      by (simp add: decode_system_def Let_def)
    with f(1) show ?thesis by (simp add: decode32_def classify_def)
  next
    case 3
    note f = sfence_fields [OF 3]
    have "drop_bit 25 w AND 0x7F = 0xC" using f(5) by simp
    with f(2-4) sfence_funct12 [OF f(5)] have "decode_system w = SfenceWInval"
      by (simp add: decode_system_def Let_def)
    with f(1) show ?thesis by (simp add: decode32_def classify_def)
  qed
qed

lemma float_rejected: "float_word w \<Longrightarrow> decode32 w pc \<in> {FloatF, FloatD}"
  by (auto simp: float_word_def decode32_def decode_op_fp_def decode_load_fp_def decode_store_fp_def Let_def)

lemma rvc_float_rejected: "rvc_float h \<Longrightarrow> decode_rvc h = CompressedFloat"
proof -
  assume "rvc_float h"
  then consider "h AND 0xE003 = 0x2000" | "h AND 0xE003 = 0xA000" | "h AND 0xE003 = 0x2002" | "h AND 0xE003 = 0xA002"
    by (auto simp: rvc_float_def)
  then show ?thesis
    by cases (use masked_field [of h "0xE003" _ 0 3] masked_field [of h "0xE003" _ 13 7] in
      \<open>auto simp: decode_rvc_def Let_def\<close>)
qed

definition instr_forbidden :: "TextInstr \<Rightarrow> bool" where
  "instr_forbidden i \<longleftrightarrow>
     (if is_rvc i then rvc_float (ucast (raw32 i))
      else csr_word (raw32 i) \<or> privileged_word (raw32 i) \<or> float_word (raw32 i))"

lemma forbidden_classified: "instr_forbidden i \<Longrightarrow> classify (decode_instr i) (abs_addr i) (is_rvc i) \<noteq> None"
proof (cases "is_rvc i")
  case True
  assume "instr_forbidden i"
  with True have "decode_instr i = CompressedFloat"
    by (simp add: instr_forbidden_def decode_instr_def rvc_float_rejected)
  then show ?thesis by (simp add: classify_def)
next
  case False
  assume "instr_forbidden i"
  with False consider "csr_word (raw32 i)" | "privileged_word (raw32 i)" | "float_word (raw32 i)"
    by (auto simp: instr_forbidden_def)
  then have "classify (decode32 (raw32 i) (abs_addr i)) (abs_addr i) False \<noteq> None"
    using csr_rejected privileged_rejected float_rejected [of "raw32 i" "abs_addr i"]
    by cases (auto simp: classify_def)
  with False show ?thesis by (simp add: decode_instr_def)
qed

lemma concat_map_Nil_iff: "concat (map f xs) = [] \<longleftrightarrow> (\<forall>x\<in>set xs. f x = [])"
  by auto

lemma scan_Nil:
  "scan_forbidden_opcodes p = [] \<Longrightarrow> i \<in> set (text_words p) \<Longrightarrow> \<not> instr_forbidden i"
  using forbidden_classified by (fastforce simp: scan_forbidden_opcodes_def List.map_filter_def filter_empty_conv)

lemma check_sections_Nil:
  assumes "check_sections p = []"
  shows "e_type p \<noteq> ET_DYN" "s \<in> set (p_sections p) \<Longrightarrow> ps_name s \<notin> set FORBIDDEN_SECTIONS
    \<and> \<not> (sh_flags s AND SHF_ALLOC \<noteq> 0 \<and> sh_flags s AND SHF_WRITE \<noteq> 0 \<and> sh_flags s AND SHF_EXECINSTR \<noteq> 0)"
proof -
  have "\<not> is_pie p" "\<forall>s\<in>set (p_sections p). section_violations s = []"
    using assms by (auto simp: check_sections_def concat_map_Nil_iff split: if_splits)
  then show "e_type p \<noteq> ET_DYN" "s \<in> set (p_sections p) \<Longrightarrow> ps_name s \<notin> set FORBIDDEN_SECTIONS
    \<and> \<not> (sh_flags s AND SHF_ALLOC \<noteq> 0 \<and> sh_flags s AND SHF_WRITE \<noteq> 0 \<and> sh_flags s AND SHF_EXECINSTR \<noteq> 0)"
    by (auto simp: is_pie_def section_violations_def split: if_splits)
qed

lemma check_regions_Nil:
  assumes "check_regions p m n = []"
  obtains t where "find (\<lambda>t. bv_name t = n) (bv_tasks m) = Some t"
    "\<forall>s\<in>set (p_symbols p). should_check_symbol p s \<longrightarrow> contains_addr t (st_value s)"
    "\<forall>i\<in>set (text_words p). \<not> is_rvc i \<and> raw32 i AND 0x7F = 0x6F \<longrightarrow>
       \<not> (0x80000000 \<le> decode_jal_target (raw32 i) (abs_addr i)
          \<and> decode_jal_target (raw32 i) (abs_addr i) < 0x80000000 + bv_reserved_size m)"
proof -
  from assms obtain t where t: "find (\<lambda>t. bv_name t = n) (bv_tasks m) = Some t"
    by (auto simp: check_regions_def split: option.splits)
  have "\<forall>s\<in>set (p_symbols p). should_check_symbol p s \<longrightarrow> contains_addr t (st_value s)"
    using assms t by (auto simp: check_regions_def concat_map_Nil_iff split: if_splits)
  moreover have "\<not> (0x80000000 \<le> decode_jal_target (raw32 i) (abs_addr i)
      \<and> decode_jal_target (raw32 i) (abs_addr i) < 0x80000000 + bv_reserved_size m)"
    if i: "i \<in> set (text_words p)" "\<not> is_rvc i" "raw32 i AND 0x7F = 0x6F" for i
  proof -
    have "decode32 (raw32 i) (abs_addr i) = Jal (decode_jal_target (raw32 i) (abs_addr i))"
      using i(3) by (simp add: decode32_def)
    moreover have "(if is_rvc i then [] else case decode32 (raw32 i) (abs_addr i) of
               Jal target \<Rightarrow>
                 if 0x80000000 \<le> target \<and> target < 0x80000000 + bv_reserved_size m
                 then [\<lparr>category = KernelRangeJal, message = Jal_to_kernel (abs_addr i) target\<rparr>] else []
             | _ \<Rightarrow> []) = []"
      using assms t i(1) unfolding check_regions_def by (simp only: option.case Let_def append_is_Nil_conv concat_map_Nil_iff)
    ultimately show ?thesis using i(2) by (auto split: if_splits)
  qed
  ultimately show ?thesis using t that by blast
qed


section \<open>Instructions the decoder misses\<close>

text \<open>
  Four instructions that the verifier's documentation lists as rejected pass the scan: \<open>uret\<close>
  (0x00200073; the decoder looks for 0x202), \<open>sfence.vma t0\<close> (a source register makes it
  \<open>Unknown\<close>, which is skipped), the compressed \<open>ebreak\<close>, and the fused multiply-add
  \<open>fmadd.s\<close>, whose opcode is not in the table of floating-point opcodes.
\<close>

lemma verifier_misses:
  "classify (decode32 0x00200073 pc) a False = None"
  "classify (decode32 0x12028073 pc) a False = None"
  "classify (decode_rvc 0x9002) a True = None"
  "classify (decode32 0x00000043 pc) a False = None"
  by (simp_all add: decode32_def decode_system_def decode_rvc_def classify_def)

section \<open>Witness\<close>

definition demo_elf :: elf_file where
  "demo_elf = \<lparr>elf_type = 2,
     elf_sections = [\<lparr>sec_name = Some ''.text'', sec_address = 0x80600000, sec_size = 8, sec_flags = 0x6,
       sec_data = Some [0x73, 0, 0, 0, 0x6F, 0, 0, 0]\<rparr>],
     elf_symbols = [\<lparr>sym_name = Some ''_start'', sym_address = 0x80600000, sym_shndx = 1, sym_info = 0x12\<rparr>]\<rparr>"

definition demo_bv_manifest :: BvManifest where
  "demo_bv_manifest = \<lparr>bv_reserved_size = 0x600000, bv_tasks = [\<lparr>bv_name = ''task_hello'',
     bv_regions = [\<lparr>bv_base = 0x80600000, bv_size = 0x4000\<rparr>]\<rparr>]\<rparr>"

lemma demo_text:
  "text_loop 0x80600000 [0x73, 0, 0, 0, 0x6F, 0, 0, 0] 0 =
     [\<lparr>abs_addr = 0x80600000, raw32 = 0x73, is_rvc = False\<rparr>, \<lparr>abs_addr = 0x80600004, raw32 = 0x6F, is_rvc = False\<rparr>]"
  by (simp add: text_loop.simps half_at_def)


end
