(* ===== verification/Stack_Pipeline.thy ===== *)
theory Stack_Pipeline
  imports Stack_Tool Bin_Verify Sntm_Validate
begin

text \<open>
  The report of the stack analyser (\<open>tools/sntm-stack/src/report.rs\<close> and \<open>main.rs\<close>) and the
  composition of the host tools: the analyser writes a report, \<open>sntm-validate\<close> reads it and compares
  it with the manifest; the two tools that decode jumps agree on their targets.
\<close>

section \<open>The report (report.rs)\<close>

definition REPORT_VERSION :: string where
  "REPORT_VERSION = ''SNTM-STACK v1.0''"

fun fail_text :: "FailReason \<Rightarrow> string" where
  "fail_text IndirectCallDetected = ''indirect call (jalr rd != x0 or c.jalr) detected''"
| "fail_text RecursionDetected = ''recursion (call graph cycle) detected''"
| "fail_text StackSizesMissing = ''.stack_sizes section missing''"
| "fail_text SymbolResolveFailed = ''symbol resolution failed''"

fun kind_debug :: "IndirectKind \<Rightarrow> string" where
  "kind_debug (Jalr32 rd rs1) = ''Jalr32 { rd: '' @ fmt_dec (unat rd) @ '', rs1: '' @ fmt_dec (unat rs1) @ '' }''"
| "kind_debug (Jr32Tail rs1) = ''Jr32Tail { rs1: '' @ fmt_dec (unat rs1) @ '' }''"
| "kind_debug (CJalr rs1) = ''CJalr { rs1: '' @ fmt_dec (unat rs1) @ '' }''"
| "kind_debug (CJrTail rs1) = ''CJrTail { rs1: '' @ fmt_dec (unat rs1) @ '' }''"

text \<open>\<open>{:08x}\<close> and \<open>{:<32}\<close>\<close>

definition hex08 :: "u64 \<Rightarrow> string" where
  "hex08 a = (let d = fmt_hex (unat a) in replicate (8 - length d) CHR ''0'' @ d)"

definition pad32 :: "string \<Rightarrow> string" where
  "pad32 s = s @ replicate (32 - length s) CHR '' ''"

definition frame_line :: "Frame \<Rightarrow> string" where
  "frame_line f = ''  0x'' @ hex08 (f_addr f) @ ''  '' @ pad32 (f_name f) @ ''  '' @ fmt_dec (unat (f_size f)) @ '' byte''"

definition indirect_line :: "IndirectCall \<Rightarrow> string" where
  "indirect_line ic = ''  - 0x'' @ hex08 (ic_offset ic) @ '' '' @ kind_debug (ic_kind ic)"

fun str_join :: "string \<Rightarrow> string list \<Rightarrow> string" where
  "str_join sep [] = []"
| "str_join sep [s] = s"
| "str_join sep (s # ss) = s @ sep @ str_join sep ss"

definition recursion_line :: "string list option \<Rightarrow> string" where
  "recursion_line c = ''recursion: '' @ (case c of None \<Rightarrow> ''none'' | Some cycle \<Rightarrow> str_join '' -> '' cycle)"

definition status_lines :: "Status \<Rightarrow> string list" where
  "status_lines st = (case st of Pass \<Rightarrow> [''status: PASS''] | Fail r \<Rightarrow> [''status: FAIL'', ''reason: '' @ fail_text r])"

definition max_stack_line :: "u32 \<Rightarrow> string" where
  "max_stack_line n =
     (if n = UNKNOWN_SENTINEL then ''max_stack_bytes: 0xFFFFFFFF'' else ''max_stack_bytes: '' @ fmt_dec (unat n))"

definition render :: "AnalysisReport \<Rightarrow> string \<Rightarrow> string" where
  "render rep binary_path = unlines (
     [REPORT_VERSION, ''binary: '' @ binary_path, ''arch: rv64'', ''mode: sum-of-frames (over-approximation)'',
      ''caveat: call-graph-aware transitive analysis post-SAFE'', [], ''frames:''] @
     map frame_line (ar_frames rep) @
     [[], ''direct_call_edges: '' @ fmt_dec (ar_direct_call_edges rep),
      ''indirect_calls: '' @ fmt_dec (length (ar_indirect_calls rep))] @
     map indirect_line (ar_indirect_calls rep) @
     [recursion_line (ar_recursion_cycle rep), []] @
     status_lines (ar_status rep) @ [max_stack_line (ar_max_stack_bytes rep)])"

section \<open>Command line (main.rs)\<close>

record stack_options =
  bin_path :: "string option"
  so_output :: "string option"

text \<open>The arguments after the program name; \<open>Inl\<close> is an exit code.\<close>

fun stack_args :: "string list \<Rightarrow> stack_options \<Rightarrow> nat + stack_options" where
  "stack_args [] o' = Inr o'"
| "stack_args (a # rest) o' =
     (if a = ''--bin'' then
        (case rest of [] \<Rightarrow> Inl 2 | v # rest' \<Rightarrow> stack_args rest' (o'\<lparr>bin_path := Some v\<rparr>))
      else if a = ''--output'' then
        (case rest of [] \<Rightarrow> Inl 2 | v # rest' \<Rightarrow> stack_args rest' (o'\<lparr>so_output := Some v\<rparr>))
      else if a = ''-h'' \<or> a = ''--help'' then Inl 0
      else Inl 2)"

definition analysis_of :: "string + stack_elf \<Rightarrow> AnalysisReport" where
  "analysis_of file = (case elf_parse file of Inr info \<Rightarrow> analyze info | Inl e \<Rightarrow> report_of_error e)"

text \<open>
  \<open>main\<close>: the exit code and the report, with the path of its file (\<open>None\<close> is standard output).
  \<open>read_elf\<close> reads a file and applies the \<open>object\<close> library to it.
\<close>

definition stack_main ::
  "(string \<Rightarrow> (string + stack_elf) option) \<Rightarrow> (string \<Rightarrow> bool) \<Rightarrow> string list \<Rightarrow> nat \<times> (string option \<times> string) option" where
  "stack_main read_elf writable args =
     (case stack_args args \<lparr>bin_path = None, so_output = None\<rparr> of
        Inl code \<Rightarrow> (code, None)
      | Inr opts \<Rightarrow>
          (case bin_path opts of None \<Rightarrow> (2, None)
           | Some p \<Rightarrow>
               (case read_elf p of None \<Rightarrow> (1, None)
                | Some file \<Rightarrow>
                    let txt = render (analysis_of file) p in
                    (case so_output opts of
                       None \<Rightarrow> (0, Some (None, txt))
                     | Some q \<Rightarrow> if writable q then (0, Some (Some q, txt)) else (1, None)))))"

section \<open>The report read back\<close>

text \<open>What the validator's parser sees of a report: its status, its maximum and its reason.\<close>

definition report_view :: "AnalysisReport \<Rightarrow> ParsedReport" where
  "report_view rep = \<lparr>status_pass = (ar_status rep = Pass), max_stack_bytes = ar_max_stack_bytes rep,
     reason = (case ar_status rep of Pass \<Rightarrow> None | Fail r \<Rightarrow> Some (fail_text r))\<rparr>"

definition printable :: "AnalysisReport \<Rightarrow> string \<Rightarrow> bool" where
  "printable rep binary_path \<longleftrightarrow> is_line (''binary: '' @ binary_path)
     \<and> list_all (\<lambda>f. is_line (f_name f)) (ar_frames rep)
     \<and> (case ar_recursion_cycle rep of None \<Rightarrow> True | Some c \<Rightarrow> is_line (str_join '' -> '' c))"

lemma fmt_no_newline: "2 \<le> radix \<Longrightarrow> radix \<le> 36 \<Longrightarrow> CHR 0x0A \<notin> set (fmt_radix radix n)"
  using fmt_radix_line(1) by (simp add: is_line_def)

lemma frame_line_is_line: "is_line (f_name f) \<Longrightarrow> is_line (frame_line f)"
  unfolding is_line_def frame_line_def hex08_def pad32_def Let_def
  by (auto simp: fmt_no_newline)

lemma kind_debug_line: "is_line (kind_debug k)"
  unfolding is_line_def by (cases k) (auto simp: fmt_no_newline)

lemma indirect_line_is_line: "is_line (indirect_line ic)"
  using kind_debug_line [of "ic_kind ic"] unfolding is_line_def indirect_line_def hex08_def Let_def
  by (cases "ic_kind ic") (auto simp: fmt_no_newline)

lemma max_stack_line_is_line: "is_line (max_stack_line n)"
  using fmt_radix_line(1) [of 10 "unat n"] by (auto simp: max_stack_line_def is_line_def)

lemma counter_line: "CHR 0x0A \<notin> set p \<Longrightarrow> is_line (p @ fmt_dec n)"
  using fmt_radix_line(1) [of 10 n] by (auto simp: is_line_def)

lemma scan_status_lines:
  "scan_report (status_lines st) s =
     Inr (s\<lparr>scan_status := Some (st = Pass), scan_reason := (case st of Pass \<Rightarrow> scan_reason s | Fail r \<Rightarrow> Some (fail_text r))\<rparr>)"
proof (cases st)
  case (Fail r)
  then show ?thesis by (cases r; simp add: status_lines_def; code_simp)
qed (simp add: status_lines_def; code_simp)

lemma scan_max_line: "scan_report [max_stack_line n] s = Inr (s\<lparr>scan_max := Some n\<rparr>)"
proof (cases "n = UNKNOWN_SENTINEL")
  case True
  then show ?thesis by (simp add: max_stack_line_def) code_simp
next
  case False
  let ?d = "fmt_dec (unat n)"
  have d: "list_all (\<lambda>c. \<not> is_whitespace c) ?d" "trim ?d = ?d" "?d \<noteq> []" using fmt_radix_line [of 10 "unat n"] by simp_all
  then have last: "\<not> is_whitespace (last ?d)" by (simp add: list_all_iff)
  have te: "trim_end (''max_stack_bytes: '' @ ?d) = ''max_stack_bytes: '' @ ?d"
    using last d(3) by (intro trim_end_id) simp
  have tr: "trim (CHR '' '' # ?d) = ?d"
    using d(2) by (simp add: trim_def trim_start_def is_whitespace_def)
  have dig: "c \<in> set ?d \<Longrightarrow> \<exists>k<10. c = digit_char k" for c using fmt_radix_chars [of 10 c] by simp
  have "CHR ''x'' \<notin> set ?d"
  proof
    assume "CHR ''x'' \<in> set ?d"
    then obtain k where "k < 10" "CHR ''x'' = digit_char k" using dig by blast
    then have "of_char CHR ''x'' = (of_char (char_of (48 + k) :: char) :: nat)" by (simp add: digit_char_def)
    with \<open>k < 10\<close> show False by simp
  qed
  then have nox: "\<not> starts_with ''0x'' ?d"
    unfolding starts_with_def by (metis in_set_takeD list.set_intros)
  then have "?d \<noteq> ''0xFFFFFFFF''" "?d \<noteq> ''0xffffffff''" by (auto simp: starts_with_def simp del: fmt_radix_not_Nil)
  moreover have "strip_prefix ''0x'' ?d = None" using nox by (simp add: strip_prefix_def)
  ultimately have "parse_max ?d = Inr n"
    using from_str_radix_fmt [of 10 "unat n" "2 ^ 32"] unat_less [of n] by (simp add: parse_max_def)
  with False te tr show ?thesis
    by (simp add: max_stack_line_def scan_line_def EXPECTED_BANNER_PREFIX_def strip_prefix_def starts_with_def)
qed

definition render_head :: "AnalysisReport \<Rightarrow> string \<Rightarrow> string list" where
  "render_head rep p =
     [''binary: '' @ p, ''arch: rv64'', ''mode: sum-of-frames (over-approximation)'',
      ''caveat: call-graph-aware transitive analysis post-SAFE'', [], ''frames:''] @
     map frame_line (ar_frames rep) @
     [[], ''direct_call_edges: '' @ fmt_dec (ar_direct_call_edges rep),
      ''indirect_calls: '' @ fmt_dec (length (ar_indirect_calls rep))] @
     map indirect_line (ar_indirect_calls rep) @ [recursion_line (ar_recursion_cycle rep), []]"

lemma render_split:
  "render rep p = unlines ([REPORT_VERSION] @ render_head rep p @ status_lines (ar_status rep) @ [max_stack_line (ar_max_stack_bytes rep)])"
  by (simp add: render_def render_head_def)

lemma render_head_ignored: "list_all ignored_line (render_head rep p)"
proof -
  have "ignored_line (frame_line f)" "ignored_line (indirect_line ic)" for f ic
    by (rule ignored_by_head, simp add: frame_line_def indirect_line_def)+
  moreover have "ignored_line (recursion_line c)" for c
    by (rule ignored_prefix [of "''rec''"]) (auto simp: recursion_line_def starts_with_def EXPECTED_BANNER_PREFIX_def)
  moreover have "ignored_line ''mode: sum-of-frames (over-approximation)''"
    by (rule ignored_prefix [of "''mo''"]) (auto simp: starts_with_def EXPECTED_BANNER_PREFIX_def)
  ultimately show ?thesis
    unfolding render_head_def by (auto simp: list_all_iff intro: ignored_by_head)
qed

lemma render_lines:
  assumes "printable rep p"
  shows "list_all is_line ([REPORT_VERSION] @ render_head rep p @ status_lines (ar_status rep) @ [max_stack_line (ar_max_stack_bytes rep)])"
proof -
  have "is_line (recursion_line (ar_recursion_cycle rep))"
    using assms by (auto simp: printable_def recursion_line_def is_line_def split: option.splits)
  moreover have "list_all is_line (status_lines st)" for st
  proof (cases st)
    case (Fail r)
    then show ?thesis by (cases r) (simp_all add: status_lines_def is_line_def)
  qed (simp add: status_lines_def is_line_def)
  moreover have "list_all is_line (map frame_line (ar_frames rep))"
    using assms by (simp add: printable_def list_all_iff frame_line_is_line)
  moreover have "list_all is_line [REPORT_VERSION, ''arch: rv64'', ''mode: sum-of-frames (over-approximation)'',
      ''caveat: call-graph-aware transitive analysis post-SAFE'', [], ''frames:'']"
    by (simp add: REPORT_VERSION_def is_line_def)
  moreover have "is_line (''direct_call_edges: '' @ fmt_dec (ar_direct_call_edges rep))"
    "is_line (''indirect_calls: '' @ fmt_dec (length (ar_indirect_calls rep)))"
    by (rule counter_line, simp)+
  moreover have "list_all is_line (map indirect_line (ar_indirect_calls rep))"
    by (simp add: list_all_iff indirect_line_is_line)
  ultimately show ?thesis
    using assms max_stack_line_is_line unfolding render_head_def printable_def list_all_append list.pred_inject by blast
qed

text \<open>
  Round trip of the stack report: whatever the analyser reports, when no name in the report
  contains a line break the validator reads back exactly its status, its maximum and its reason.
\<close>
lemma stack_report_back:
  assumes "printable rep p"
  shows "parse_report (render rep p) = Inr (report_view rep)"
proof -
  have b: "scan_report [REPORT_VERSION] scan_start = Inr (scan_start\<lparr>saw_banner := True\<rparr>)" by code_simp
  show ?thesis
    unfolding parse_report_def render_split str_lines_unlines [OF render_lines [OF assms]] scan_report_append
      b and_then.simps scan_report_ignored [OF render_head_ignored] scan_status_lines scan_max_line
    by (cases "ar_status rep") (simp_all add: scan_start_def report_view_def)
qed

section \<open>From the binary to the manifest\<close>

lemma parse_rendered:
  assumes "printable rep p" "parse_max_stack_bytes (render rep p) = Inr n"
  shows "ar_status rep = Pass" "n = ar_max_stack_bytes rep" "n \<noteq> UNKNOWN_SENTINEL"
  using assms(2) stack_report_back [OF assms(1)]
  by (auto simp: parse_max_stack_bytes_def report_view_def split: if_splits)


section \<open>The two decoders of jumps\<close>

lemma scast_small: "\<not> bit w 31 \<Longrightarrow> (scast w :: u64) = ucast w" for w :: u32
proof (rule bit_word_eqI)
  fix n
  assume w: "\<not> bit w 31"
  have "bit w (min 31 n) = bit w n"
  proof (cases "n \<le> 31")
    case False
    then have "\<not> bit w n" using bit_imp_le_length [of w n] by auto
    with False w show ?thesis by simp
  qed simp
  then show "n < LENGTH(64) \<Longrightarrow> bit (scast w :: u64) n = bit (ucast w :: u64) n" by (simp add: bit_simps)
qed

text \<open>
  The binary verifier and the stack analyser decode the same target for every \<open>jal\<close>: the first
  computes it in one step, the second from the sign-extended immediate.
\<close>
theorem jal_decoders_agree: "decode_jal_target raw pc = pc + scast (decode_jal_imm raw)"
proof -
  let ?i = "drop_bit 31 raw AND 0x1"
  let ?u = "push_bit 20 ?i OR push_bit 12 (drop_bit 12 raw AND 0xFF)
    OR push_bit 11 (drop_bit 20 raw AND 0x1) OR push_bit 1 (drop_bit 21 raw AND 0x3FF)"
  have "push_bit 20 ?i = 0 \<longleftrightarrow> ?i = 0" by (simp add: and_one_eq mod_2_eq_odd)
  moreover have "(scast ?u :: u64) = ucast ?u" by (rule scast_small) (simp add: bit_simps)
  moreover have "NOT (push_bit 21 1 - 1) = (0xFFE00000 :: u32)" by simp
  ultimately show ?thesis
    unfolding decode_jal_target_def decode_jal_imm_def Let_def by presburger
qed

section \<open>Witnesses\<close>

text \<open>A binary with \<open>main\<close> calling \<open>helper\<close> through an \<open>auipc\<close> and \<open>jalr\<close> pair.\<close>

definition pair_example :: ElfStackInfo where
  "pair_example = \<lparr>info_frames = [(0x80600000, 32), (0x80600010, 16)],
     info_symbols = [(0x80600000, ''main''), (0x80600010, ''helper'')],
     info_direct_calls = [], info_text_base = 0x80600000,
     info_text_bytes = [0x97, 0x00, 0x00, 0x00, 0xE7, 0x80, 0x00, 0x01]\<rparr>"

definition pair_report :: AnalysisReport where
  "pair_report = \<lparr>ar_frames = [\<lparr>f_addr = 0x80600000, f_name = ''main'', f_size = 32\<rparr>,
       \<lparr>f_addr = 0x80600010, f_name = ''helper'', f_size = 16\<rparr>],
     ar_indirect_calls = [], ar_recursion_cycle = None, ar_direct_call_edges = 1, ar_sum_of_frames = 48,
     ar_status = Pass, ar_max_stack_bytes = 48\<rparr>"

lemma analyze_pair: "analyze pair_example = pair_report"
  by code_simp

lemma printable_pair: "printable pair_report ''task.elf''"
  by (simp add: printable_def pair_report_def is_line_def)

theorem stack_report_back_example:
  "parse_report (render pair_report ''task.elf'') = Inr \<lparr>status_pass = True, max_stack_bytes = 48, reason = None\<rparr>"
  using stack_report_back [OF printable_pair] by (simp add: report_view_def pair_report_def)

definition gate_env :: host_env where
  "gate_env = \<lparr>read_text = (\<lambda>p. if p = ''sipahi.toml'' then Some ''toml''
       else if p = ''stack.txt'' then Some (render pair_report ''task.elf'') else None),
     toml_manifest = (\<lambda>s. if s = ''toml'' then Some sipahi_manifest else None),
     cargo_of = (\<lambda>_. sipahi_cargo), can_write = (\<lambda>_. True)\<rparr>"

abbreviation (input) gate_args :: "string list" where
  "gate_args \<equiv> [''--manifest'', ''sipahi.toml'', ''--call-stack-report'', ''stack.txt'', ''--task-name'', ''task_hello'']"


end
