(* ===== verification/Signing.thy ===== *)
theory Signing
  imports Prelude Rust_Text
begin

text \<open>
  Keys and signatures of the host tools: the PEM and base64 readers, kept twice in the repository
  (\<open>tools/sntm-image/src/sign.rs\<close> and \<open>tools/sntm-cert-gen/src/chain.rs\<close>), and the two
  functions that sign and verify a byte string with them. The library \<open>ed25519_compact\<close> is a
  parameter; \<open>ed25519_pair\<close> states what its documentation promises of a key pair.
\<close>

datatype sign_error = Missing_begin string | Missing_end string | Invalid_base64 char | Pem_too_short nat
  | Key_refused | Sig_length_mismatch | Verify_failed | Slice_panic

section \<open>Base64\<close>

definition B64_ALPHA :: string where
  "B64_ALPHA = ''ABCDEFGHIJKLMNOPQRSTUVWXYZabcdefghijklmnopqrstuvwxyz0123456789+/''"

definition b64_table :: "char \<rightharpoonup> nat" where
  "b64_table = map_of (zip B64_ALPHA [0..<64])"

text \<open>The loop over the characters: \<open>buf\<close> and the number of bits not yet written.\<close>

fun b64_loop :: "string \<Rightarrow> u32 \<Rightarrow> nat \<Rightarrow> sign_error + u8 list" where
  "b64_loop [] buf bits = Inr []"
| "b64_loop (b # s) buf bits =
     (if b = CHR ''='' then Inr []
      else case b64_table b of
          None \<Rightarrow> Inl (Invalid_base64 b)
        | Some v \<Rightarrow>
            let buf = push_bit 6 buf OR of_nat v; bits = bits + 6 in
            if bits \<ge> 8
            then and_then (b64_loop s buf (bits - 8)) (\<lambda>out. Inr (ucast (drop_bit (bits - 8) buf AND 0xFF) # out))
            else b64_loop s buf bits)"

definition base64_decode :: "string \<Rightarrow> sign_error + u8 list" where
  "base64_decode s = b64_loop s 0 0"

section \<open>PEM\<close>

definition decode_pem_block :: "string \<Rightarrow> string \<Rightarrow> sign_error + u8 list" where
  "decode_pem_block pem label =
     (let begin = ''-----BEGIN '' @ label @ ''-----''; fin = ''-----END '' @ label @ ''-----'' in
      case str_find begin pem of
        None \<Rightarrow> Inl (Missing_begin begin)
      | Some start \<Rightarrow>
          (case str_find fin pem of
             None \<Rightarrow> Inl (Missing_end fin)
           | Some end_i \<Rightarrow>
               if start + length begin \<le> end_i
               then base64_decode (filter (\<lambda>c. \<not> is_whitespace c)
                      (take (end_i - (start + length begin)) (drop (start + length begin) pem)))
               else Inl Slice_panic))"

section \<open>Ed25519\<close>

text \<open>
  The library: the secret key of a 32-byte seed, signing without noise, the public key of 32 bytes, and
  verification of a 64-byte signature.
\<close>

record ('sk, 'pk) ed25519_lib =
  key_of_seed :: "u8 list \<Rightarrow> 'sk option"
  ed_sign :: "'sk \<Rightarrow> u8 list \<Rightarrow> u8 list"
  public_key :: "u8 list \<Rightarrow> 'pk option"
  ed_verify :: "'pk \<Rightarrow> u8 list \<Rightarrow> u8 list \<Rightarrow> bool"

definition last32 :: "u8 list \<Rightarrow> u8 list" where
  "last32 der = drop (length der - 32) der"

definition parse_ed25519_priv_pem :: "('sk, 'pk) ed25519_lib \<Rightarrow> string \<Rightarrow> sign_error + 'sk" where
  "parse_ed25519_priv_pem ed pem =
     and_then (decode_pem_block pem ''PRIVATE KEY'') (\<lambda>der.
       if length der < 32 then Inl (Pem_too_short (length der))
       else case key_of_seed ed (last32 der) of Some sk \<Rightarrow> Inr sk | None \<Rightarrow> Inl Key_refused)"

definition parse_ed25519_pub_pem :: "('sk, 'pk) ed25519_lib \<Rightarrow> string \<Rightarrow> sign_error + 'pk" where
  "parse_ed25519_pub_pem ed pem =
     and_then (decode_pem_block pem ''PUBLIC KEY'') (\<lambda>der.
       if length der < 32 then Inl (Pem_too_short (length der))
       else case public_key ed (last32 der) of Some pk \<Rightarrow> Inr pk | None \<Rightarrow> Inl Key_refused)"

text \<open>\<open>sign_image\<close> and \<open>sign_cert\<close>\<close>

definition sign_bytes :: "('sk, 'pk) ed25519_lib \<Rightarrow> u8 list \<Rightarrow> string \<Rightarrow> sign_error + u8 list" where
  "sign_bytes ed msg priv_key_pem =
     and_then (parse_ed25519_priv_pem ed priv_key_pem) (\<lambda>key.
       let sig = ed_sign ed key msg in if length sig = 64 then Inr sig else Inl Sig_length_mismatch)"

text \<open>\<open>verify_cert\<close>, and the end of \<open>verify_image\<close>\<close>

definition verify_bytes :: "('sk, 'pk) ed25519_lib \<Rightarrow> u8 list \<Rightarrow> u8 list \<Rightarrow> string \<Rightarrow> sign_error + unit" where
  "verify_bytes ed msg sig pub_key_pem =
     and_then (parse_ed25519_pub_pem ed pub_key_pem) (\<lambda>pubkey.
       if ed_verify ed pubkey msg sig then Inr () else Inl Verify_failed)"

text \<open>Two key files belong together: their keys are read, and what the one signs the other verifies.\<close>

definition ed25519_pair :: "('sk, 'pk) ed25519_lib \<Rightarrow> string \<Rightarrow> string \<Rightarrow> bool" where
  "ed25519_pair ed priv_pem pub_pem \<longleftrightarrow> (\<exists>sk pk. parse_ed25519_priv_pem ed priv_pem = Inr sk
     \<and> parse_ed25519_pub_pem ed pub_pem = Inr pk
     \<and> (\<forall>msg. length (ed_sign ed sk msg) = 64 \<and> ed_verify ed pk msg (ed_sign ed sk msg)))"

lemma sign_then_verify:
  "ed25519_pair ed priv_pem pub_pem \<Longrightarrow>
     \<exists>sig. sign_bytes ed msg priv_pem = Inr sig \<and> length sig = 64 \<and> verify_bytes ed msg sig pub_pem = Inr ()"
  by (auto simp: ed25519_pair_def sign_bytes_def verify_bytes_def)

section \<open>Reading back base64\<close>

text \<open>The standard encoder (RFC 4648), with padding.\<close>

definition b64_char :: "u32 \<Rightarrow> char" where
  "b64_char w = B64_ALPHA ! unat (w AND 0x3F)"

definition b64_group :: "u8 \<Rightarrow> u8 \<Rightarrow> u8 \<Rightarrow> u32" where
  "b64_group a b c = push_bit 16 (ucast a) OR push_bit 8 (ucast b) OR ucast c"

fun base64_encode :: "u8 list \<Rightarrow> string" where
  "base64_encode [] = []"
| "base64_encode [a] = (let g = b64_group a 0 0 in [b64_char (drop_bit 18 g), b64_char (drop_bit 12 g), CHR ''='', CHR ''=''])"
| "base64_encode [a, b] =
     (let g = b64_group a b 0 in [b64_char (drop_bit 18 g), b64_char (drop_bit 12 g), b64_char (drop_bit 6 g), CHR ''=''])"
| "base64_encode (a # b # c # rest) =
     (let g = b64_group a b c in
      [b64_char (drop_bit 18 g), b64_char (drop_bit 12 g), b64_char (drop_bit 6 g), b64_char g] @ base64_encode rest)"

lemma b64_alpha_facts: "distinct B64_ALPHA" "length B64_ALPHA = 64" "CHR ''='' \<notin> set B64_ALPHA"
  by code_simp+

lemma low6: "unat (w AND 0x3F) < 64" for w :: u32
proof -
  have "w AND 0x3F = take_bit 6 w" using take_bit_eq_mask [of 6 w] by (simp add: mask_eq_exp_minus_1)
  then have "unat (w AND 0x3F) = take_bit 6 (unat w)" by (simp only: unsigned_take_bit_eq)
  then show ?thesis by (simp add: take_bit_eq_mod)
qed

lemma b64_table_char: "b64_table (b64_char w) = Some (unat (w AND 0x3F))"
proof -
  have "zip B64_ALPHA [0..<64] ! unat (w AND 0x3F) = (b64_char w, unat (w AND 0x3F))"
    using low6 [of w] b64_alpha_facts(2) by (simp add: b64_char_def)
  then have "(b64_char w, unat (w AND 0x3F)) \<in> set (zip B64_ALPHA [0..<64])"
    using low6 [of w] b64_alpha_facts(2) by (metis length_upt length_zip min.idem nth_mem minus_nat.diff_0)
  then show ?thesis unfolding b64_table_def using b64_alpha_facts by (intro map_of_is_SomeI) simp_all
qed

lemma b64_char_not_pad: "b64_char w \<noteq> CHR ''=''"
  using low6 [of w] b64_alpha_facts(2,3) by (metis b64_char_def nth_mem)

lemma b64_loop_char:
  "b64_loop (b64_char w # s) buf bits =
     (let buf = push_bit 6 buf OR (w AND 0x3F); bits = bits + 6 in
      if bits \<ge> 8
      then and_then (b64_loop s buf (bits - 8)) (\<lambda>out. Inr (ucast (drop_bit (bits - 8) buf AND 0xFF) # out))
      else b64_loop s buf bits)"
  by (simp add: b64_char_not_pad b64_table_char del: of_nat_unat) (simp add: Let_def)

lemma low_masks: "w AND 0x3F = take_bit 6 w" "w AND 0xFF = take_bit 8 w" for w :: u32
  using take_bit_eq_mask [of 6 w] take_bit_eq_mask [of 8 w] by (simp_all add: mask_eq_exp_minus_1)

lemma b64_loop_pad: "b64_loop (CHR ''='' # s) buf bits = Inr []"
  by simp

lemma b64_steps:
  fixes buf w :: u32
  defines "buf' \<equiv> push_bit 6 buf OR take_bit 6 w"
  shows "b64_loop (b64_char w # s) buf 0 = b64_loop s buf' 6"
    "b64_loop (b64_char w # s) buf 6 = and_then (b64_loop s buf' 4) (\<lambda>out. Inr (ucast (take_bit 8 (drop_bit 4 buf')) # out))"
    "b64_loop (b64_char w # s) buf 4 = and_then (b64_loop s buf' 2) (\<lambda>out. Inr (ucast (take_bit 8 (drop_bit 2 buf')) # out))"
    "b64_loop (b64_char w # s) buf 2 = and_then (b64_loop s buf' 0) (\<lambda>out. Inr (ucast (take_bit 8 buf') # out))"
  unfolding b64_loop_char low_masks Let_def buf'_def by simp_all

text \<open>Whatever \<open>buf\<close> held before, the bytes written are those of the 24-bit group.\<close>

lemma b64_group_written:
  fixes buf g :: u32
  shows "ucast (take_bit 8 (drop_bit 4 (push_bit 6 (push_bit 6 buf OR take_bit 6 (drop_bit 18 g)) OR take_bit 6 (drop_bit 12 g))))
      = (ucast (drop_bit 16 g) :: u8)"
    "ucast (take_bit 8 (drop_bit 2 (push_bit 6 (push_bit 6 buf OR take_bit 6 (drop_bit 12 g)) OR take_bit 6 (drop_bit 6 g))))
      = (ucast (drop_bit 8 g) :: u8)"
    "ucast (take_bit 8 (push_bit 6 (push_bit 6 buf OR take_bit 6 (drop_bit 6 g)) OR take_bit 6 g)) = (ucast g :: u8)"
  by (rule bit_word_eqI; auto simp: bit_simps)+

lemma b64_group_bytes:
  "ucast (drop_bit 16 (b64_group a b c)) = a" "ucast (drop_bit 8 (b64_group a b c)) = b" "ucast (b64_group a b c) = c"
  unfolding b64_group_def by (rule bit_word_eqI; auto simp: bit_simps dest: bit_imp_le_length)+

lemma b64_loop_encode: "b64_loop (base64_encode bs) buf 0 = Inr bs"
  by (induction bs arbitrary: buf rule: base64_encode.induct)
     (simp_all only: base64_encode.simps Let_def append.simps b64_steps b64_loop_pad b64_loop.simps(1)
        b64_group_written b64_group_bytes and_then.simps)

lemma base64_roundtrip: "base64_decode (base64_encode bs) = Inr bs"
  by (simp add: base64_decode_def b64_loop_encode)

section \<open>Reading back a key file\<close>

lemma starts_with_simps [simp]:
  "starts_with [] s" "\<not> starts_with (c # p) []" "starts_with (c # p) (d # s) \<longleftrightarrow> c = d \<and> starts_with p s"
  by (auto simp: starts_with_def)

lemma str_find_skip:
  "c \<notin> set body \<Longrightarrow> str_find (c # p) (body @ s) = map_option ((+) (length body)) (str_find (c # p) s)"
  by (induction body; cases "str_find (c # p) s") simp_all

text \<open>A PEM file: the lines between the markers hold the base64 text, broken in any way.\<close>

definition pem_file :: "string \<Rightarrow> string \<Rightarrow> string" where
  "pem_file label body = ''-----BEGIN '' @ label @ ''-----'' @ CHR 0x0A # body @ ''-----END '' @ label @ ''-----'' @ [CHR 0x0A]"

lemma pem_find:
  assumes "CHR ''-'' \<notin> set body" "label = ''PRIVATE KEY'' \<or> label = ''PUBLIC KEY''"
  shows "str_find (''-----BEGIN '' @ label @ ''-----'') (pem_file label body) = Some 0"
    "str_find (''-----END '' @ label @ ''-----'') (pem_file label body) = Some (length (''-----BEGIN '' @ label @ ''-----'') + 1 + length body)"
  using assms(2) str_find_skip [OF assms(1)] by (auto simp: pem_file_def)

lemma decode_pem_file:
  assumes "CHR ''-'' \<notin> set body" "label = ''PRIVATE KEY'' \<or> label = ''PUBLIC KEY''"
    and "filter (\<lambda>c. \<not> is_whitespace c) body = base64_encode der"
  shows "decode_pem_block (pem_file label body) label = Inr der"
proof -
  have "is_whitespace (CHR 0x0A)" by (simp add: is_whitespace_def)
  then have "filter (\<lambda>c. \<not> is_whitespace c) (CHR 0x0A # body) = base64_encode der" using assms(3) by simp
  moreover have "take (1 + length body) (drop (length (''-----BEGIN '' @ label @ ''-----'')) (pem_file label body)) = CHR 0x0A # body"
    by (simp add: pem_file_def)
  ultimately show ?thesis
    unfolding decode_pem_block_def Let_def pem_find [OF assms(1,2)] by (simp add: base64_roundtrip)
qed

text \<open>
  Reading a key file: for any PEM file of either kind whose lines hold the base64 text of some DER
  bytes, wherever the lines are broken, the bytes are read back exactly; a private key file gives the
  secret key of the last 32 of them.
\<close>
theorem key_file_roundtrip:
  assumes "CHR ''-'' \<notin> set body" "filter (\<lambda>c. \<not> is_whitespace c) body = base64_encode (prefix @ seed)" "length seed = 32"
  shows "decode_pem_block (pem_file ''PUBLIC KEY'' body) ''PUBLIC KEY'' = Inr (prefix @ seed)
    \<and> parse_ed25519_priv_pem ed (pem_file ''PRIVATE KEY'' body)
        = (case key_of_seed ed seed of Some sk \<Rightarrow> Inr sk | None \<Rightarrow> Inl Key_refused)"
  using decode_pem_file [OF assms(1) _ assms(2)] assms(3)
  by (simp add: parse_ed25519_priv_pem_def last32_def)

text \<open>Markers in the wrong order make the slice expression panic.\<close>

lemma pem_reversed_panics:
  "decode_pem_block ''-----END PUBLIC KEY----- -----BEGIN PUBLIC KEY-----'' ''PUBLIC KEY'' = Inl Slice_panic"
  by (simp add: decode_pem_block_def)

definition identity_ed :: "(u8 list, u8 list) ed25519_lib" where
  "identity_ed = \<lparr>key_of_seed = (\<lambda>s. Some s), ed_sign = (\<lambda>k m. k @ k), public_key = (\<lambda>b. Some b),
     ed_verify = (\<lambda>k m s. s = k @ k)\<rparr>"

theorem key_file_roundtrip_witness:
  "parse_ed25519_priv_pem identity_ed (pem_file ''PRIVATE KEY'' (base64_encode (replicate 32 7) @ [CHR 0x0A])) = Inr (replicate 32 7)"
proof -
  have "CHR ''-'' \<notin> set (base64_encode (replicate 32 7) @ [CHR 0x0A])"
    "filter (\<lambda>c. \<not> is_whitespace c) (base64_encode (replicate 32 7) @ [CHR 0x0A]) = base64_encode ([] @ replicate 32 7)"
    by code_simp+
  from key_file_roundtrip [OF this, of identity_ed] show ?thesis by (simp add: identity_ed_def)
qed

end
