(* ===== verification/Image.thy ===== *)
theory Image
  imports Signing
begin

text \<open>
  The boot image, \<open>tools/sntm-image\<close>: the header and the layout (\<open>format.rs\<close>), the tail
  signature (\<open>sign.rs\<close>) and the command line (\<open>main.rs\<close>). Offsets are 64-bit words, as in the
  header; a slice out of range and an overflowing sum are the error \<open>Panicked\<close>.
\<close>

section \<open>Byte arrays\<close>

text \<open>\<open>xs[i..j]\<close> and \<open>h[i..i + n].copy_from_slice\<close>, in range.\<close>

definition subslice :: "'a list \<Rightarrow> nat \<Rightarrow> nat \<Rightarrow> 'a list" where
  "subslice xs i j = take (j - i) (drop i xs)"

definition copy_at :: "nat \<Rightarrow> 'a list \<Rightarrow> 'a list \<Rightarrow> 'a list" where
  "copy_at i bs h = take i h @ bs @ drop (i + length bs) h"

text \<open>
  A binary format: values of the format are written to a fixed number of bytes and read back. Readers
  may rely on the format being injective and on finding a value at the start of longer data.
\<close>

locale codec =
  fixes wf :: "'a \<Rightarrow> bool" and encode :: "'a \<Rightarrow> u8 list" and decode :: "u8 list \<Rightarrow> 'a option" and width :: nat
  assumes length_encode: "wf x \<Longrightarrow> length (encode x) = width"
    and decode_encode: "wf x \<Longrightarrow> decode (encode x) = Some x"
begin

lemma encode_inj: "wf x \<Longrightarrow> wf y \<Longrightarrow> encode x = encode y \<Longrightarrow> x = y"
  by (metis decode_encode option.inject)

lemma decode_front: "wf x \<Longrightarrow> decode (take width (encode x @ rest)) = Some x"
  by (simp add: length_encode decode_encode)

lemma encode_prefix_free: "wf x \<Longrightarrow> wf y \<Longrightarrow> encode x @ r = encode y @ s \<Longrightarrow> x = y \<and> r = s"
  using length_encode encode_inj by (metis append_eq_append_conv)

end

section \<open>Header (format.rs)\<close>

definition IMAGE_MAGIC :: "u8 list" where
  "IMAGE_MAGIC = [0x53, 0x49, 0x50, 0x49, 0x31]"

abbreviation (input) IMAGE_ABI_VERSION :: u32 where "IMAGE_ABI_VERSION \<equiv> 1"
abbreviation (input) HEADER_SIZE :: nat where "HEADER_SIZE \<equiv> 64"
abbreviation (input) TAIL_SIG_SIZE :: nat where "TAIL_SIG_SIZE \<equiv> 64"
abbreviation (input) ALIGN :: nat where "ALIGN \<equiv> 64"

record Header =
  h_abi_version :: u32
  manifest_hash8 :: "u8 list"
  kernel_offset :: u64
  kernel_size :: u64
  body_offset :: u64
  body_size :: u64
  tail_sig_offset :: u64

definition header_to_bytes :: "Header \<Rightarrow> u8 list" where
  "header_to_bytes hdr =
     (let h = replicate HEADER_SIZE 0;
          h = copy_at 0 IMAGE_MAGIC h;
          h = copy_at 8 (le_encode 4 (h_abi_version hdr)) h;
          h = copy_at 16 (manifest_hash8 hdr) h;
          h = copy_at 24 (le_encode 8 (kernel_offset hdr)) h;
          h = copy_at 32 (le_encode 8 (kernel_size hdr)) h;
          h = copy_at 40 (le_encode 8 (body_offset hdr)) h;
          h = copy_at 48 (le_encode 8 (body_size hdr)) h;
          h = copy_at 56 (le_encode 8 (tail_sig_offset hdr)) h
      in h)"

datatype image_error = Header_truncated nat | Header_magic "u8 list" | Image_too_short nat | Tail_out_of_range u64 nat
  | Magic_mismatch | Signing sign_error | Panicked

definition header_from_bytes :: "u8 list \<Rightarrow> image_error + Header" where
  "header_from_bytes bytes =
     (if length bytes < HEADER_SIZE then Inl (Header_truncated (length bytes))
      else if subslice bytes 0 5 \<noteq> IMAGE_MAGIC then Inl (Header_magic (subslice bytes 0 5))
      else Inr \<lparr>h_abi_version = le_value (subslice bytes 8 12), manifest_hash8 = subslice bytes 16 24,
        kernel_offset = le_value (subslice bytes 24 32), kernel_size = le_value (subslice bytes 32 40),
        body_offset = le_value (subslice bytes 40 48), body_size = le_value (subslice bytes 48 56),
        tail_sig_offset = le_value (subslice bytes 56 64)\<rparr>)"

section \<open>Assembly (format.rs)\<close>

record TaskPayload =
  pl_name :: string
  pl_task_id :: u8
  text_bin :: "u8 list"
  rodata_bin :: "u8 list"
  data_bin :: "u8 list"
  cert_bin :: "u8 list"
  cert_sig :: "u8 list"

record ImageInputs =
  in_manifest_hash :: "u8 list"
  in_kernel :: "u8 list"
  in_tasks :: "TaskPayload list"

lemma align_step:
  assumes "0 < a" "n mod a \<noteq> 0"
  shows "(a - n mod a) mod a = Suc ((a - Suc n mod a) mod a)"
proof (cases "Suc (n mod a) = a")
  case True
  then have "Suc n mod a = 0" by (simp add: mod_Suc)
  moreover have "a - n mod a = 1" using True by linarith
  moreover have "1 mod a = 1" using True assms by simp
  ultimately show ?thesis by simp
next
  case False
  then have lt: "Suc (n mod a) < a" using mod_less_divisor [OF assms(1), of n] by linarith
  then have "Suc n mod a = Suc (n mod a)" by (simp add: mod_Suc)
  moreover have "(a - n mod a) mod a = a - n mod a" "(a - Suc (n mod a)) mod a = a - Suc (n mod a)"
    using assms lt by simp_all
  ultimately show ?thesis using lt by simp
qed

function align_to :: "u8 list \<Rightarrow> nat \<Rightarrow> u8 list" where
  "align_to out alignment = (if 0 < alignment \<and> length out mod alignment \<noteq> 0 then align_to (out @ [0]) alignment else out)"
  by pat_completeness auto
termination
proof (relation "measure (\<lambda>(out, a). (a - length out mod a) mod a)", goal_cases)
  case (2 out a)
  then have "(a - Suc (length out) mod a) mod a < (a - length out mod a) mod a"
    using align_step [of a "length out"] by linarith
  then show ?case by (simp only: in_measure split_conv length_append_singleton)
qed simp

declare align_to.simps [simp del]

definition append_task :: "TaskPayload \<Rightarrow> u8 list \<Rightarrow> u8 list" where
  "append_task task out =
     (let out = align_to out ALIGN @ text_bin task;
          out = align_to out ALIGN @ rodata_bin task;
          out = align_to out ALIGN @ data_bin task
      in align_to out ALIGN @ cert_bin task @ cert_sig task)"

definition assemble :: "ImageInputs \<Rightarrow> image_error + u8 list" where
  "assemble inputs =
     (let out = align_to (replicate HEADER_SIZE 0) ALIGN;
          k_off = length out;
          out = align_to (out @ in_kernel inputs) ALIGN;
          b_off = length out;
          out = fold append_task (in_tasks inputs) out;
          b_size = length out - b_off;
          out = align_to out ALIGN;
          header = \<lparr>h_abi_version = IMAGE_ABI_VERSION, manifest_hash8 = take 8 (in_manifest_hash inputs),
            kernel_offset = of_nat k_off, kernel_size = of_nat (length (in_kernel inputs)),
            body_offset = of_nat b_off, body_size = of_nat b_size, tail_sig_offset = of_nat (length out)\<rparr>
      in Inr (copy_at 0 (header_to_bytes header) out))"

section \<open>Tail signature (sign.rs)\<close>

definition sign_image :: "('sk, 'pk) ed25519_lib \<Rightarrow> u8 list \<Rightarrow> string \<Rightarrow> image_error + u8 list" where
  "sign_image ed body_bytes priv_key_pem = map_sum Signing (\<lambda>s. s) (sign_bytes ed body_bytes priv_key_pem)"

definition verify_image :: "('sk, 'pk) ed25519_lib \<Rightarrow> u8 list \<Rightarrow> string \<Rightarrow> image_error + unit" where
  "verify_image ed img pub_key_pem =
     (if length img < HEADER_SIZE + TAIL_SIG_SIZE then Inl (Image_too_short (length img))
      else and_then (header_from_bytes (take HEADER_SIZE img)) (\<lambda>header.
        let tail_off = tail_sig_offset header in
        case checked_add tail_off 64 of
          None \<Rightarrow> Inl Panicked
        | Some tail_end \<Rightarrow>
            if unat tail_end > length img then Inl (Tail_out_of_range tail_off (length img))
            else if subslice img 0 5 \<noteq> IMAGE_MAGIC then Inl Magic_mismatch
            else map_sum Signing (\<lambda>u. u) (verify_bytes ed (take (unat tail_off) img)
                   (subslice img (unat tail_off) (unat tail_end)) pub_key_pem)))"

section \<open>Facts\<close>

lemma header_layout:
  assumes "length (manifest_hash8 hdr) = 8"
  shows "header_to_bytes hdr = IMAGE_MAGIC @ replicate 3 0 @ le_encode 4 (h_abi_version hdr) @ replicate 4 0 @ manifest_hash8 hdr
    @ le_encode 8 (kernel_offset hdr) @ le_encode 8 (kernel_size hdr) @ le_encode 8 (body_offset hdr)
    @ le_encode 8 (body_size hdr) @ le_encode 8 (tail_sig_offset hdr)"
proof -
  have z: "replicate 64 (0 :: u8) = replicate 5 0 @ replicate 3 0 @ replicate 4 0 @ replicate 4 0 @ replicate 8 0
      @ replicate 8 0 @ replicate 8 0 @ replicate 8 0 @ replicate 8 0 @ replicate 8 0"
    by (simp flip: replicate_add)
  have m: "length IMAGE_MAGIC = 5" by (simp add: IMAGE_MAGIC_def)
  show ?thesis unfolding header_to_bytes_def Let_def z by (simp add: copy_at_def assms m)
qed

lemma le_value_full: "8 * k = LENGTH('a) \<Longrightarrow> le_value (le_encode k x) = x" for x :: "'a::len word"
  by (simp add: le_value_encode take_bit_word_eq_self)

interpretation header: codec "\<lambda>h. length (manifest_hash8 h) = 8" header_to_bytes
  "\<lambda>bs. case header_from_bytes bs of Inr h \<Rightarrow> Some h | Inl _ \<Rightarrow> None" 64
proof
  fix h :: Header
  assume w: "length (manifest_hash8 h) = 8"
  then show l: "length (header_to_bytes h) = 64" by (simp add: header_layout IMAGE_MAGIC_def)
  show "(case header_from_bytes (header_to_bytes h) of Inr h \<Rightarrow> Some h | Inl _ \<Rightarrow> None) = Some h"
    using w by (simp add: header_from_bytes_def l) (simp add: header_layout subslice_def IMAGE_MAGIC_def le_value_full)
qed

lemma header_read_back: "length (manifest_hash8 h) = 8 \<Longrightarrow> header_from_bytes (take 64 (header_to_bytes h @ rest)) = Inr h"
  using header.decode_front [of h rest] by (auto split: sum.splits)

lemma align_to_pad: "align_to out 64 = out @ replicate ((64 - length out mod 64) mod 64) 0"
proof (induction out "64 :: nat" rule: align_to.induct)
  case (1 out)
  show ?case
  proof (cases "length out mod 64 = 0")
    case False
    have step: "align_to out 64 = align_to (out @ [0]) 64" using False by (subst align_to.simps) simp
    have "(64 - length out mod 64) mod 64 = Suc ((64 - Suc (length out) mod 64) mod 64)"
      using False by (intro align_step) simp_all
    with 1 False show ?thesis by (simp add: step)
  qed (subst align_to.simps, simp)
qed

lemma align_to_ex:
  "\<exists>pad. align_to out 64 = out @ pad \<and> length pad < 64 \<and> length (out @ pad) mod 64 = 0 \<and> set pad \<subseteq> {0}"
proof -
  let ?n = "length out"
  have "?n = 64 * (?n div 64) + ?n mod 64" "?n mod 64 < 64" by simp_all
  then have "?n + (64 - ?n mod 64) = 64 * (?n div 64) + 64" by linarith
  then have "(?n + (64 - ?n mod 64)) mod 64 = 0" by simp
  then have "(?n + (64 - ?n mod 64) mod 64) mod 64 = 0" by (simp only: mod_add_right_eq)
  then show ?thesis
    by (intro exI [of _ "replicate ((64 - ?n mod 64) mod 64) 0"]) (auto simp: align_to_pad)
qed

text \<open>One task in the image: four aligned pieces after the data so far.\<close>

lemma append_task_parts:
  "\<exists>p1 p2 p3 p4. append_task t out = out @ p1 @ text_bin t @ p2 @ rodata_bin t @ p3 @ data_bin t @ p4 @ cert_bin t @ cert_sig t
     \<and> length (out @ p1) mod 64 = 0 \<and> length (out @ p1 @ text_bin t @ p2 @ rodata_bin t @ p3 @ data_bin t @ p4) mod 64 = 0"
proof -
  obtain p1 where 1: "align_to out 64 = out @ p1" "length (out @ p1) mod 64 = 0" using align_to_ex [of out] by metis
  obtain p2 where 2: "align_to ((out @ p1) @ text_bin t) 64 = ((out @ p1) @ text_bin t) @ p2"
    using align_to_ex [of "(out @ p1) @ text_bin t"] by metis
  let ?a = "((out @ p1) @ text_bin t) @ p2"
  obtain p3 where 3: "align_to (?a @ rodata_bin t) 64 = (?a @ rodata_bin t) @ p3"
    using align_to_ex [of "?a @ rodata_bin t"] by metis
  let ?b = "(?a @ rodata_bin t) @ p3"
  obtain p4 where 4: "align_to (?b @ data_bin t) 64 = (?b @ data_bin t) @ p4" "length ((?b @ data_bin t) @ p4) mod 64 = 0"
    using align_to_ex [of "?b @ data_bin t"] by metis
  have "append_task t out = ((?b @ data_bin t) @ p4) @ cert_bin t @ cert_sig t"
    unfolding append_task_def Let_def 1(1) 2 3 4(1) by (rule refl)
  then show ?thesis using 1(2) 4(2) unfolding append_assoc by metis
qed

lemma fold_append_task_prefix: "\<exists>ys. fold append_task ts out = out @ ys"
proof (induction ts arbitrary: out)
  case (Cons t ts)
  obtain zs where "append_task t out = out @ zs" using append_task_parts [of t out] by blast
  with Cons [of "append_task t out"] show ?case by auto
qed simp

lemma copy_at_front: "copy_at 0 bs (xs @ ys) = bs @ ys" if "length bs = length xs"
  using that by (simp add: copy_at_def)

text \<open>The parts of an assembled image, front to back.\<close>

definition task_bytes :: "TaskPayload \<Rightarrow> u8 list \<Rightarrow> u8 list \<Rightarrow> u8 list \<Rightarrow> u8 list" where
  "task_bytes t p2 p3 p4 = text_bin t @ p2 @ rodata_bin t @ p3 @ data_bin t @ p4 @ cert_bin t @ cert_sig t"

definition placed :: "TaskPayload \<Rightarrow> u8 list \<Rightarrow> bool" where
  "placed t img \<longleftrightarrow> (\<exists>pre p2 p3 p4 post. img = pre @ task_bytes t p2 p3 p4 @ post \<and> length pre mod 64 = 0
     \<and> length (pre @ text_bin t @ p2 @ rodata_bin t @ p3 @ data_bin t @ p4) mod 64 = 0)"

lemma fold_append_task_places:
  "t \<in> set ts \<Longrightarrow> \<exists>pre p2 p3 p4 post. fold append_task ts out = out @ pre @ task_bytes t p2 p3 p4 @ post
     \<and> length (out @ pre) mod 64 = 0
     \<and> length ((out @ pre) @ text_bin t @ p2 @ rodata_bin t @ p3 @ data_bin t @ p4) mod 64 = 0"
proof (induction ts arbitrary: out)
  case (Cons u ts)
  obtain q1 q2 q3 q4 where u: "append_task u out = out @ q1 @ task_bytes u q2 q3 q4" "length (out @ q1) mod 64 = 0"
    "length ((out @ q1) @ text_bin u @ q2 @ rodata_bin u @ q3 @ data_bin u @ q4) mod 64 = 0"
    using append_task_parts [of u out] unfolding task_bytes_def append_assoc by metis
  obtain ys where ys: "fold append_task ts (append_task u out) = append_task u out @ ys"
    using fold_append_task_prefix by metis
  show ?case
  proof (cases "t = u")
    case True
    have "fold append_task (u # ts) out = out @ q1 @ task_bytes u q2 q3 q4 @ ys" using ys u(1) by simp
    with u(2,3) True show ?thesis by metis
  next
    case False
    then have "t \<in> set ts" using Cons.prems by simp
    from Cons.IH [OF this, of "append_task u out"] obtain pre p2 p3 p4 post where
      "fold append_task ts (append_task u out) = append_task u out @ pre @ task_bytes t p2 p3 p4 @ post"
      "length (append_task u out @ pre) mod 64 = 0"
      "length ((append_task u out @ pre) @ text_bin t @ p2 @ rodata_bin t @ p3 @ data_bin t @ p4) mod 64 = 0" by metis
    then show ?thesis unfolding u(1) fold_Cons o_apply append_assoc
      by (intro exI [of _ "q1 @ task_bytes u q2 q3 q4 @ pre"] exI [of _ p2] exI [of _ p3] exI [of _ p4] exI [of _ post]) simp
  qed
qed simp

definition image_parts :: "ImageInputs \<Rightarrow> u8 list \<Rightarrow> Header \<Rightarrow> u8 list \<Rightarrow> u8 list \<Rightarrow> bool" where
  "image_parts inp img h pad1 body \<longleftrightarrow> img = header_to_bytes h @ in_kernel inp @ pad1 @ body
     \<and> length (manifest_hash8 h) = 8 \<and> kernel_offset h = 64 \<and> kernel_size h = of_nat (length (in_kernel inp))
     \<and> body_offset h = of_nat (64 + length (in_kernel inp) + length pad1) \<and> tail_sig_offset h = of_nat (length img)
     \<and> (64 + length (in_kernel inp) + length pad1) mod 64 = 0 \<and> length pad1 < 64 \<and> length img mod 64 = 0
     \<and> list_all (\<lambda>t. placed t img) (in_tasks inp)"

lemma assemble_parts:
  assumes "length (in_manifest_hash inp) = 32" "assemble inp = Inr img"
  shows "\<exists>h pad1 body. image_parts inp img h pad1 body"
proof -
  have al: "align_to (replicate 64 0) 64 = replicate 64 0" by (simp add: align_to_pad)
  let ?k = "in_kernel inp"
  obtain pad where k: "align_to (replicate 64 0 @ ?k) 64 = replicate 64 0 @ ?k @ pad"
    and pad: "length pad < 64" "(64 + length ?k + length pad) mod 64 = 0"
    using align_to_ex [of "replicate 64 0 @ ?k"] by (auto simp: add.assoc)
  let ?out = "replicate 64 0 @ ?k @ pad"
  obtain ys where ys: "fold append_task (in_tasks inp) ?out = ?out @ ys" using fold_append_task_prefix by blast
  obtain pad2 where e: "align_to (?out @ ys) 64 = replicate 64 0 @ ?k @ pad @ ys @ pad2"
    and pad2: "length (?out @ ys @ pad2) mod 64 = 0"
    using align_to_ex [of "?out @ ys"] by auto
  let ?h = "\<lparr>h_abi_version = 1, manifest_hash8 = take 8 (in_manifest_hash inp), kernel_offset = of_nat 64,
    kernel_size = of_nat (length ?k), body_offset = of_nat (length ?out), body_size = of_nat (length (?out @ ys) - length ?out),
    tail_sig_offset = of_nat (length (replicate 64 (0 :: u8) @ ?k @ pad @ ys @ pad2))\<rparr>"
  have hl: "length (header_to_bytes ?h) = 64" using assms(1) by (intro header.length_encode) simp
  have "img = copy_at 0 (header_to_bytes ?h) (replicate 64 0 @ ?k @ pad @ ys @ pad2)"
    using assms(2) unfolding assemble_def Let_def al length_replicate k ys e sum.inject by (rule sym)
  then have img: "img = header_to_bytes ?h @ ?k @ pad @ ys @ pad2" using hl by (simp add: copy_at_front)
  then have len: "length img = length (?out @ ys @ pad2)" using hl by simp
  have "placed t img" if t: "t \<in> set (in_tasks inp)" for t
  proof -
    from fold_append_task_places [OF t, of ?out] obtain pre p2 p3 p4 post where
      pre: "?out @ ys = ?out @ pre @ task_bytes t p2 p3 p4 @ post" "length (?out @ pre) mod 64 = 0"
      "length ((?out @ pre) @ text_bin t @ p2 @ rodata_bin t @ p3 @ data_bin t @ p4) mod 64 = 0"
      unfolding ys by metis
    have "ys = pre @ task_bytes t p2 p3 p4 @ post" using pre(1) by simp
    then show ?thesis unfolding placed_def img using pre(2,3) hl
      by (intro exI [of _ "header_to_bytes ?h @ ?k @ pad @ pre"] exI [of _ p2] exI [of _ p3] exI [of _ p4] exI [of _ "post @ pad2"])
         (simp add: add.assoc)
  qed
  then have "image_parts inp img ?h pad (ys @ pad2)"
    unfolding image_parts_def using assms(1) img len pad pad2 by (intro conjI) (simp_all add: add.assoc list_all_iff)
  then show ?thesis by blast
qed

text \<open>
  Layout of an assembled image: its header, read back from its first 64 bytes, locates the kernel
  exactly and the tail signature at the end; every task's code, and its certificate with the
  certificate's signature, lie in it at offsets that are multiples of 64.
\<close>
theorem assembled_image_layout:
  assumes "length (in_manifest_hash inp) = 32" "assemble inp = Inr img" "length img < 2 ^ 64" "t \<in> set (in_tasks inp)"
  shows "\<exists>h i j. header_from_bytes (take 64 img) = Inr h
    \<and> subslice img (unat (kernel_offset h)) (unat (kernel_offset h) + unat (kernel_size h)) = in_kernel inp
    \<and> unat (tail_sig_offset h) = length img \<and> i mod 64 = 0 \<and> j mod 64 = 0
    \<and> subslice img i (i + length (text_bin t)) = text_bin t
    \<and> subslice img j (j + length (cert_bin t @ cert_sig t)) = cert_bin t @ cert_sig t"
proof -
  obtain h pad body where parts: "image_parts inp img h pad body" using assemble_parts [OF assms(1,2)] by metis
  then have img: "img = header_to_bytes h @ in_kernel inp @ pad @ body" and w: "length (manifest_hash8 h) = 8"
    and off: "kernel_offset h = 64" "kernel_size h = of_nat (length (in_kernel inp))" "tail_sig_offset h = of_nat (length img)"
    by (simp_all add: image_parts_def)
  have pl: "placed t img" using parts assms(4) unfolding image_parts_def list_all_iff by metis
  have "length (in_kernel inp) < 2 ^ 64" using assms(3) img by simp
  then have "unat (kernel_size h) = length (in_kernel inp)" "unat (tail_sig_offset h) = length img"
    using off assms(3) by (simp_all add: unsigned_of_nat take_bit_nat_eq_self)
  moreover have "subslice img 64 (64 + length (in_kernel inp)) = in_kernel inp"
    using header.length_encode [OF w] by (simp add: img subslice_def)
  moreover have "header_from_bytes (take 64 img) = Inr h" unfolding img by (rule header_read_back [OF w])
  moreover obtain pre p2 p3 p4 post where p: "img = pre @ task_bytes t p2 p3 p4 @ post" "length pre mod 64 = 0"
    "length (pre @ text_bin t @ p2 @ rodata_bin t @ p3 @ data_bin t @ p4) mod 64 = 0" using pl unfolding placed_def by metis
  moreover have "subslice img (length pre) (length pre + length (text_bin t)) = text_bin t"
    by (simp add: p(1) subslice_def task_bytes_def)
  moreover have "subslice img (length (pre @ text_bin t @ p2 @ rodata_bin t @ p3 @ data_bin t @ p4))
      (length (pre @ text_bin t @ p2 @ rodata_bin t @ p3 @ data_bin t @ p4) + length (cert_bin t @ cert_sig t)) = cert_bin t @ cert_sig t"
    by (simp add: p(1) subslice_def task_bytes_def)
  ultimately show ?thesis using off(1) by (intro exI conjI) simp_all
qed

lemma verify_image_iff:
  "verify_image ed img pub_pem = Inr () \<longleftrightarrow> (\<exists>h. 128 \<le> length img \<and> header_from_bytes (take 64 img) = Inr h
     \<and> unat (tail_sig_offset h) + 64 < 2 ^ 64 \<and> unat (tail_sig_offset h) + 64 \<le> length img
     \<and> verify_bytes ed (take (unat (tail_sig_offset h)) img)
           (subslice img (unat (tail_sig_offset h)) (unat (tail_sig_offset h) + 64)) pub_pem = Inr ())"
proof (cases "length img < 128")
  case False
  show ?thesis
  proof (cases "header_from_bytes (take 64 img)")
    case (Inr h)
    then have "subslice (take 64 img) 0 5 = IMAGE_MAGIC" by (auto simp: header_from_bytes_def split: if_splits)
    then have m: "subslice img 0 5 = IMAGE_MAGIC" by (simp add: subslice_def)
    show ?thesis
    proof (cases "checked_add (tail_sig_offset h) 64")
      case None
      then have "\<not> unat (tail_sig_offset h) + 64 < 2 ^ 64" by (simp add: checked_add_None_iff)
      with Inr False None show ?thesis by (simp add: verify_image_def)
    next
      case (Some e)
      then have "unat e = unat (tail_sig_offset h) + 64" by (simp add: checked_add_Some_iff)
      moreover have "unat e < 2 ^ 64" using unat_less [of e] by simp
      ultimately show ?thesis using Inr False Some m
        by (cases "verify_bytes ed (take (unat (tail_sig_offset h)) img) (subslice img (unat (tail_sig_offset h)) (unat e)) pub_pem")
           (auto simp: verify_image_def Let_def split: if_splits)
    qed
  qed (simp add: verify_image_def)
qed (simp add: verify_image_def)


text \<open>
  Signing and verifying agree: the image that is assembled and signed with a private key file is
  accepted with the matching public key file, whatever follows the signature.
\<close>
lemma signed_image_accepted:
  assumes "ed25519_pair ed priv_pem pub_pem" "length (in_manifest_hash inp) = 32" "assemble inp = Inr img"
    and "length img + 64 < 2 ^ 64"
  shows "\<exists>sig. sign_image ed img priv_pem = Inr sig \<and> length sig = 64
    \<and> verify_image ed (img @ sig @ extra) pub_pem = Inr ()"
proof -
  obtain h pad body where parts: "image_parts inp img h pad body" using assemble_parts [OF assms(2,3)] by metis
  then have img: "img = header_to_bytes h @ in_kernel inp @ pad @ body" and w: "length (manifest_hash8 h) = 8"
    and off: "tail_sig_offset h = of_nat (length img)" by (simp_all add: image_parts_def)
  obtain sig where sig: "sign_bytes ed img priv_pem = Inr sig" "length sig = 64" "verify_bytes ed img sig pub_pem = Inr ()"
    using sign_then_verify [OF assms(1)] by metis
  have tail: "unat (tail_sig_offset h) = length img"
    using off assms(4) by (simp add: unsigned_of_nat take_bit_nat_eq_self)
  have "64 \<le> length img" using img header.length_encode [OF w] by simp
  moreover have "header_from_bytes (take 64 (img @ sig @ extra)) = Inr h"
    unfolding img append_assoc by (rule header_read_back [OF w])
  ultimately have "verify_image ed (img @ sig @ extra) pub_pem = Inr ()"
    unfolding verify_image_iff using tail assms(4) sig(2,3) by (intro exI [of _ h]) (simp add: subslice_def)
  then show ?thesis using sig(1,2) by (simp add: sign_image_def)
qed

text \<open>A tail offset close to \<open>2 ^ 64\<close> makes the verifier panic instead of reporting an error.\<close>

definition panic_header :: Header where
  "panic_header = \<lparr>h_abi_version = 1, manifest_hash8 = replicate 8 0, kernel_offset = 64, kernel_size = 0,
     body_offset = 64, body_size = 0, tail_sig_offset = 0xFFFFFFFFFFFFFFFF\<rparr>"

lemma verify_image_panics: "verify_image ed (header_to_bytes panic_header @ replicate 64 0) pub_pem = Inl Panicked"
proof -
  have w: "length (manifest_hash8 panic_header) = 8" by (simp add: panic_header_def)
  have "checked_add (tail_sig_offset panic_header) 64 = None" by (simp add: panic_header_def checked_add_def)
  then show ?thesis
    unfolding verify_image_def header_read_back [OF w] by (simp add: header.length_encode [OF w])
qed

end
