(* ===== verification/Cert_Gen.thy ===== *)
theory Cert_Gen
  imports Image Stack_Report
begin

text \<open>
  Task certificates, \<open>tools/sntm-cert-gen\<close>: the 424-byte record (\<open>cert.rs\<close>), the commit
  reader and the signing chain (\<open>chain.rs\<close>) and the command line (\<open>main.rs\<close>). BLAKE3 and the
  \<open>object\<close> library are parameters; the file system is a map from paths to contents.
\<close>

section \<open>The certificate (cert.rs)\<close>

record Range64 =
  rg_base :: u64
  rg_size :: u64

record TaskCertificate =
  task_id :: u8
  pad1 :: "u8 list"
  task_name_hash :: "u8 list"
  source_commit :: "u8 list"
  toolchain_hash :: "u8 list"
  manifest_hash :: "u8 list"
  pmp_profile_hash :: "u8 list"
  allowed_syscalls :: u8
  pad2 :: "u8 list"
  allowed_channels :: "u8 list"
  allowed_mmio :: "Range64 list"
  tc_max_stack_bytes :: u32
  forbidden_opcode_scan :: u8
  pad3 :: u8
  unsafe_count :: u16
  text_hash :: "u8 list"
  rodata_hash :: "u8 list"
  data_hash :: "u8 list"
  kani_proof_ids :: "u32 list"
  abi_version :: u32
  pad4 :: u32

abbreviation (input) CERT_SIZE :: nat where "CERT_SIZE \<equiv> 424"

text \<open>The \<open>repr(C)\<close> image of the structure on a little-endian host.\<close>

definition range_bytes :: "Range64 \<Rightarrow> u8 list" where
  "range_bytes r = le_encode 8 (rg_base r) @ le_encode 8 (rg_size r)"

definition cert_as_bytes :: "TaskCertificate \<Rightarrow> u8 list" where
  "cert_as_bytes c =
     [task_id c] @ pad1 c @ task_name_hash c @ source_commit c @ toolchain_hash c @ manifest_hash c
     @ pmp_profile_hash c @ [allowed_syscalls c] @ pad2 c @ allowed_channels c @ concat (map range_bytes (allowed_mmio c))
     @ le_encode 4 (tc_max_stack_bytes c) @ [forbidden_opcode_scan c] @ [pad3 c] @ le_encode 2 (unsafe_count c)
     @ text_hash c @ rodata_hash c @ data_hash c @ concat (map (le_encode 4) (kani_proof_ids c))
     @ le_encode 4 (abi_version c) @ le_encode 4 (pad4 c)"

definition cert_from_bytes :: "u8 list \<Rightarrow> TaskCertificate option" where
  "cert_from_bytes bytes =
     (if length bytes \<noteq> CERT_SIZE then None
      else Some \<lparr>task_id = bytes ! 0, pad1 = subslice bytes 1 8, task_name_hash = subslice bytes 8 40,
        source_commit = subslice bytes 40 72, toolchain_hash = subslice bytes 72 104,
        manifest_hash = subslice bytes 104 136, pmp_profile_hash = subslice bytes 136 168,
        allowed_syscalls = bytes ! 168, pad2 = subslice bytes 169 176, allowed_channels = subslice bytes 176 184,
        allowed_mmio = map (\<lambda>i. \<lparr>rg_base = le_value (subslice bytes (184 + 16 * i) (192 + 16 * i)),
            rg_size = le_value (subslice bytes (192 + 16 * i) (200 + 16 * i))\<rparr>) [0..<4],
        tc_max_stack_bytes = le_value (subslice bytes 248 252), forbidden_opcode_scan = bytes ! 252, pad3 = bytes ! 253,
        unsafe_count = le_value (subslice bytes 254 256), text_hash = subslice bytes 256 288,
        rodata_hash = subslice bytes 288 320, data_hash = subslice bytes 320 352,
        kani_proof_ids = map (\<lambda>i. le_value (subslice bytes (352 + 4 * i) (356 + 4 * i))) [0..<16],
        abi_version = le_value (subslice bytes 416 420), pad4 = le_value (subslice bytes 420 424)\<rparr>)"

text \<open>The array lengths of the structure.\<close>

definition cert_wf :: "TaskCertificate \<Rightarrow> bool" where
  "cert_wf c \<longleftrightarrow> length (pad1 c) = 7 \<and> length (pad2 c) = 7 \<and> length (allowed_channels c) = 8
     \<and> length (allowed_mmio c) = 4 \<and> length (kani_proof_ids c) = 16
     \<and> list_all (\<lambda>h. length h = 32) [task_name_hash c, source_commit c, toolchain_hash c, manifest_hash c,
         pmp_profile_hash c, text_hash c, rodata_hash c, data_hash c]"

section \<open>The round trip\<close>

lemma length_concat_const: "(\<And>x. length (f x) = k) \<Longrightarrow> length (concat (map f xs)) = k * length xs"
  by (induction xs) auto

lemma chunk_of_concat:
  assumes "\<And>x. length (f x) = k" "i < length xs"
  shows "take k (drop (k * i) (concat (map f xs))) = f (xs ! i)"
  using assms(2)
proof (induction xs arbitrary: i)
  case (Cons x xs)
  then show ?case by (cases i) (simp_all add: assms(1))
qed simp

text \<open>An array field: element \<open>i\<close> of an array of \<open>k\<close>-byte elements at offset \<open>n\<close>.\<close>

lemma array_element:
  assumes "\<And>x. length (f x) = k" "length A = n" "i < length xs" "x + y \<le> k"
  shows "subslice (A @ concat (map f xs) @ B) (n + x + k * i) (n + x + y + k * i) = take y (drop x (f (xs ! i)))"
proof -
  have "k * i + k \<le> k * length xs" using assms(3) by (metis Suc_leI mult_Suc_right mult_le_mono2 add.commute)
  then have fits: "(x + k * i) + y \<le> length (concat (map f xs))"
    using assms(4) length_concat_const [of f k xs, OF assms(1)] by simp
  have "n + x + y + k * i - (n + x + k * i) = y" "n + x + k * i = length A + (x + k * i)" using assms(2) by simp_all
  then have "subslice (A @ concat (map f xs) @ B) (n + x + k * i) (n + x + y + k * i) = take y (drop (x + k * i) (concat (map f xs) @ B))"
    unfolding subslice_def by simp
  also have "\<dots> = take y (drop (x + k * i) (concat (map f xs)))" using fits by simp
  also have "\<dots> = take y (drop x (take k (drop (k * i) (concat (map f xs)))))"
    using assms(4) by (simp add: drop_take min_def)
  finally show ?thesis by (simp add: chunk_of_concat [OF assms(1,3)])
qed

lemma length_cert_arrays:
  "length (concat (map range_bytes rs)) = 16 * length rs" "length (concat (map (le_encode 4) ks)) = 4 * length ks"
  by (simp_all add: length_concat_const [of range_bytes 16] range_bytes_def length_concat_const [of "le_encode 4" 4])

lemma cert_wfD:
  assumes "cert_wf c"
  shows "length (pad1 c) = 7" "length (pad2 c) = 7" "length (allowed_channels c) = 8"
    "length (task_name_hash c) = 32" "length (source_commit c) = 32" "length (toolchain_hash c) = 32"
    "length (manifest_hash c) = 32" "length (pmp_profile_hash c) = 32" "length (text_hash c) = 32"
    "length (rodata_hash c) = 32" "length (data_hash c) = 32" "length (allowed_mmio c) = 4" "length (kani_proof_ids c) = 16"
  using assms by (simp_all add: cert_wf_def)

lemma length_cert: "cert_wf c \<Longrightarrow> length (cert_as_bytes c) = 424"
  by (simp add: cert_as_bytes_def length_cert_arrays cert_wfD)

lemma cert_mmio_element:
  assumes "cert_wf c" "i < 4"
  shows "subslice (cert_as_bytes c) (184 + 16 * i) (192 + 16 * i) = le_encode 8 (rg_base (allowed_mmio c ! i))"
    "subslice (cert_as_bytes c) (192 + 16 * i) (200 + 16 * i) = le_encode 8 (rg_size (allowed_mmio c ! i))"
proof -
  let ?A = "[task_id c] @ pad1 c @ task_name_hash c @ source_commit c @ toolchain_hash c @ manifest_hash c
     @ pmp_profile_hash c @ [allowed_syscalls c] @ pad2 c @ allowed_channels c"
  obtain B where bytes: "cert_as_bytes c = ?A @ concat (map range_bytes (allowed_mmio c)) @ B"
    by (simp add: cert_as_bytes_def)
  have A: "length ?A = 184" using cert_wfD [OF assms(1)] by simp
  have r: "length (range_bytes x) = 16" for x by (simp add: range_bytes_def)
  have i: "i < length (allowed_mmio c)" using assms cert_wfD(12) by simp
  show "subslice (cert_as_bytes c) (184 + 16 * i) (192 + 16 * i) = le_encode 8 (rg_base (allowed_mmio c ! i))"
    using array_element [where f = range_bytes, OF r A i, where x = 0 and y = 8 and B = B] unfolding bytes by (simp add: range_bytes_def [of "allowed_mmio c ! i"])
  show "subslice (cert_as_bytes c) (192 + 16 * i) (200 + 16 * i) = le_encode 8 (rg_size (allowed_mmio c ! i))"
    using array_element [where f = range_bytes, OF r A i, where x = 8 and y = 8 and B = B] unfolding bytes by (simp add: range_bytes_def [of "allowed_mmio c ! i"])
qed

lemma cert_kani_element:
  assumes "cert_wf c" "i < 16"
  shows "subslice (cert_as_bytes c) (352 + 4 * i) (356 + 4 * i) = le_encode 4 (kani_proof_ids c ! i)"
proof -
  let ?A = "[task_id c] @ pad1 c @ task_name_hash c @ source_commit c @ toolchain_hash c @ manifest_hash c
     @ pmp_profile_hash c @ [allowed_syscalls c] @ pad2 c @ allowed_channels c @ concat (map range_bytes (allowed_mmio c))
     @ le_encode 4 (tc_max_stack_bytes c) @ [forbidden_opcode_scan c] @ [pad3 c] @ le_encode 2 (unsafe_count c)
     @ text_hash c @ rodata_hash c @ data_hash c"
  obtain B where bytes: "cert_as_bytes c = ?A @ concat (map (le_encode 4) (kani_proof_ids c)) @ B"
    by (simp add: cert_as_bytes_def)
  have A: "length ?A = 352" using cert_wfD [OF assms(1)] by (simp add: length_cert_arrays)
  have i: "i < length (kani_proof_ids c)" using assms cert_wfD(13) by simp
  show ?thesis using array_element [where f = "le_encode 4", OF length_le_encode A i, where x = 0 and y = 4 and B = B] unfolding bytes by simp
qed

lemma cert_decode_encode:
  assumes "cert_wf c"
  shows "cert_from_bytes (cert_as_bytes c) = Some c"
proof -
  let ?b = "cert_as_bytes c"
  have mmio: "map (\<lambda>i. \<lparr>rg_base = le_value (subslice ?b (184 + 16 * i) (192 + 16 * i)),
      rg_size = le_value (subslice ?b (192 + 16 * i) (200 + 16 * i))\<rparr>) [0..<4] = allowed_mmio c"
    by (rule nth_equalityI) (simp_all add: cert_wfD [OF assms] cert_mmio_element [OF assms] le_value_full)
  have kani: "map (\<lambda>i. le_value (subslice ?b (352 + 4 * i) (356 + 4 * i))) [0..<16] = kani_proof_ids c"
    by (rule nth_equalityI) (simp_all add: cert_wfD [OF assms] cert_kani_element [OF assms] le_value_full)
  show ?thesis
    unfolding cert_from_bytes_def mmio kani length_cert [OF assms]
    unfolding cert_as_bytes_def
    by (simp add: subslice_def cert_wfD [OF assms] length_cert_arrays le_value_full nth_append)
qed

interpretation cert: codec cert_wf cert_as_bytes cert_from_bytes 424
  by unfold_locales (simp_all add: length_cert cert_decode_encode)

text \<open>
  Round trip of the certificate: every certificate with the structure's array lengths is 424 bytes
  long, its bytes decode to it, and two certificates that begin the same data are equal.
\<close>
theorem certificate_roundtrip:
  assumes "cert_wf c"
  shows "length (cert_as_bytes c) = 424 \<and> cert_from_bytes (cert_as_bytes c) = Some c
    \<and> (\<forall>d r s. cert_wf d \<and> cert_as_bytes c @ r = cert_as_bytes d @ s \<longrightarrow> c = d \<and> r = s)"
  using assms cert.length_encode cert.decode_encode cert.encode_prefix_free by metis

definition zero_cert :: TaskCertificate where
  "zero_cert = \<lparr>task_id = 2, pad1 = replicate 7 0, task_name_hash = replicate 32 0, source_commit = replicate 32 0,
     toolchain_hash = replicate 32 0, manifest_hash = replicate 32 0, pmp_profile_hash = replicate 32 0, allowed_syscalls = 0x3F,
     pad2 = replicate 7 0, allowed_channels = replicate 8 0xFF, allowed_mmio = replicate 4 \<lparr>rg_base = 0, rg_size = 0\<rparr>,
     tc_max_stack_bytes = 0x1234, forbidden_opcode_scan = 1, pad3 = 0, unsafe_count = 0, text_hash = replicate 32 1,
     rodata_hash = replicate 32 2, data_hash = replicate 32 3, kani_proof_ids = replicate 16 9, abi_version = 1, pad4 = 0\<rparr>"

theorem certificate_roundtrip_witness: "cert_from_bytes (cert_as_bytes zero_cert) = Some zero_cert"
  using certificate_roundtrip [of zero_cert] by (simp add: cert_wf_def zero_cert_def)

section \<open>Commit and hashes (chain.rs)\<close>

definition hex_nibble :: "char \<Rightarrow> u8 option" where
  "hex_nibble ch =
     (let n = (of_char ch :: nat) in
      if 48 \<le> n \<and> n \<le> 57 then Some (of_nat (n - 48))
      else if 97 \<le> n \<and> n \<le> 102 then Some (of_nat (n - 97 + 10))
      else if 65 \<le> n \<and> n \<le> 70 then Some (of_nat (n - 65 + 10))
      else None)"

fun hex_decode_loop :: "string \<Rightarrow> u8 list option" where
  "hex_decode_loop (a # b # s) =
     (case hex_nibble a of None \<Rightarrow> None
      | Some hi \<Rightarrow> (case hex_nibble b of None \<Rightarrow> None
          | Some lo \<Rightarrow> map_option ((#) (push_bit 4 hi OR lo)) (hex_decode_loop s)))"
| "hex_decode_loop _ = Some []"

definition hex_decode :: "string \<Rightarrow> u8 list option" where
  "hex_decode s = (if length s mod 2 \<noteq> 0 then None else hex_decode_loop s)"

text \<open>
  The host: contents of files, decoding of UTF-8 text, which paths can be written, BLAKE3, and the
  \<open>object\<close> library's view of an ELF file (sections by name with the result of reading their data).
\<close>

record host =
  fs_read :: "string \<Rightarrow> u8 list option"
  utf8 :: "u8 list \<Rightarrow> string option"
  writable :: "string \<Rightarrow> bool"
  blake3 :: "u8 list \<Rightarrow> u8 list"
  object_sections :: "u8 list \<Rightarrow> (string \<Rightarrow> (u8 list option) option) option"

definition read_to_string :: "host \<Rightarrow> string \<Rightarrow> string option" where
  "read_to_string hst p = Option.bind (fs_read hst p) (utf8 hst)"

definition blake3_file :: "host \<Rightarrow> string \<Rightarrow> u8 list option" where
  "blake3_file hst p = map_option (blake3 hst) (fs_read hst p)"

definition git_head_bytes :: "host \<Rightarrow> string \<Rightarrow> u8 list option" where
  "git_head_bytes hst repo_root =
     (let git = path_join repo_root ''.git'' in
      Option.bind (map_option trim (read_to_string hst (path_join git ''HEAD''))) (\<lambda>head.
      Option.bind (case strip_prefix ''ref: '' head of
          Some rest \<Rightarrow> map_option trim (read_to_string hst (path_join git rest))
        | None \<Rightarrow> Some head) (\<lambda>hash_hex.
      map_option (\<lambda>raw. let n = min (length raw) 32 in copy_at 0 (take n raw) (replicate 32 0)) (hex_decode hash_hex))))"

definition build_cert ::
  "host \<Rightarrow> u8 \<Rightarrow> string \<Rightarrow> u8 list \<Rightarrow> u8 list \<Rightarrow> u8 list \<Rightarrow> u8 list \<Rightarrow> u8 \<Rightarrow> u8 list \<Rightarrow> Range64 list \<Rightarrow> u32 \<Rightarrow> u8 \<Rightarrow> u16
     \<Rightarrow> u8 list \<Rightarrow> u8 list \<Rightarrow> u8 list \<Rightarrow> u32 list \<Rightarrow> TaskCertificate" where
  "build_cert hst tid name commit toolchain manifest pmp syscalls channels mmio max_stack scan unsf txt ro dat kani =
     \<lparr>task_id = tid, pad1 = replicate 7 0, task_name_hash = blake3 hst (map of_char name), source_commit = commit,
      toolchain_hash = toolchain, manifest_hash = manifest, pmp_profile_hash = pmp, allowed_syscalls = syscalls,
      pad2 = replicate 7 0, allowed_channels = channels, allowed_mmio = mmio, tc_max_stack_bytes = max_stack,
      forbidden_opcode_scan = scan, pad3 = 0, unsafe_count = unsf, text_hash = txt, rodata_hash = ro, data_hash = dat,
      kani_proof_ids = kani, abi_version = 1, pad4 = 0\<rparr>"

section \<open>sntm-cert-gen (main.rs)\<close>

record cert_args =
  ca_manifest :: "string option"
  ca_task_name :: "string option"
  ca_task_id :: "u8 option"
  ca_text_bin :: "string option"
  ca_rodata_bin :: "string option"
  ca_data_bin :: "string option"
  ca_signing_key :: "string option"
  ca_out_cert :: "string option"
  ca_out_sig :: "string option"
  ca_repo_root :: "string option"
  ca_call_stack_report :: "string option"

definition no_cert_args :: cert_args where
  "no_cert_args = \<lparr>ca_manifest = None, ca_task_name = None, ca_task_id = None, ca_text_bin = None, ca_rodata_bin = None,
     ca_data_bin = None, ca_signing_key = None, ca_out_cert = None, ca_out_sig = None, ca_repo_root = None,
     ca_call_stack_report = None\<rparr>"

text \<open>The arguments after the program name; \<open>Inl\<close> is an exit code.\<close>

fun cert_arg_loop :: "string list \<Rightarrow> cert_args \<Rightarrow> nat + cert_args" where
  "cert_arg_loop [] a = Inr a"
| "cert_arg_loop (k # rest) a =
     (if k = ''--manifest'' then (case rest of [] \<Rightarrow> Inl 3 | v # r \<Rightarrow> cert_arg_loop r (a\<lparr>ca_manifest := Some v\<rparr>))
      else if k = ''--task-name'' then (case rest of [] \<Rightarrow> Inl 3 | v # r \<Rightarrow> cert_arg_loop r (a\<lparr>ca_task_name := Some v\<rparr>))
      else if k = ''--task-id'' then
        (case rest of [] \<Rightarrow> Inl 3
         | v # r \<Rightarrow> (case from_str_radix 10 256 v of None \<Rightarrow> Inl 3
             | Some n \<Rightarrow> cert_arg_loop r (a\<lparr>ca_task_id := Some (of_nat n)\<rparr>)))
      else if k = ''--text-bin'' then (case rest of [] \<Rightarrow> Inl 3 | v # r \<Rightarrow> cert_arg_loop r (a\<lparr>ca_text_bin := Some v\<rparr>))
      else if k = ''--rodata-bin'' then (case rest of [] \<Rightarrow> Inl 3 | v # r \<Rightarrow> cert_arg_loop r (a\<lparr>ca_rodata_bin := Some v\<rparr>))
      else if k = ''--data-bin'' then (case rest of [] \<Rightarrow> Inl 3 | v # r \<Rightarrow> cert_arg_loop r (a\<lparr>ca_data_bin := Some v\<rparr>))
      else if k = ''--signing-key'' then (case rest of [] \<Rightarrow> Inl 3 | v # r \<Rightarrow> cert_arg_loop r (a\<lparr>ca_signing_key := Some v\<rparr>))
      else if k = ''--out-cert'' then (case rest of [] \<Rightarrow> Inl 3 | v # r \<Rightarrow> cert_arg_loop r (a\<lparr>ca_out_cert := Some v\<rparr>))
      else if k = ''--out-sig'' then (case rest of [] \<Rightarrow> Inl 3 | v # r \<Rightarrow> cert_arg_loop r (a\<lparr>ca_out_sig := Some v\<rparr>))
      else if k = ''--repo-root'' then (case rest of [] \<Rightarrow> Inl 3 | v # r \<Rightarrow> cert_arg_loop r (a\<lparr>ca_repo_root := Some v\<rparr>))
      else if k = ''--call-stack-report'' then
        (case rest of [] \<Rightarrow> Inl 3 | v # r \<Rightarrow> cert_arg_loop r (a\<lparr>ca_call_stack_report := Some v\<rparr>))
      else if k = ''-h'' \<or> k = ''--help'' then Inl 0
      else Inl 3)"

definition cert_parse_args :: "string list \<Rightarrow> nat + cert_args" where
  "cert_parse_args argv =
     and_then (cert_arg_loop argv no_cert_args) (\<lambda>a.
       if ca_manifest a = None \<or> ca_task_name a = None \<or> ca_task_id a = None \<or> ca_signing_key a = None
          \<or> ca_out_cert a = None \<or> ca_out_sig a = None then Inl 3 else Inr a)"

text \<open>The hash of an optional input file: zero when the option is absent, exit code 1 when unreadable.\<close>

definition section_hash :: "host \<Rightarrow> string option \<Rightarrow> nat + u8 list" where
  "section_hash hst p =
     (case p of None \<Rightarrow> Inr (replicate 32 0)
      | Some f \<Rightarrow> (case blake3_file hst f of Some h \<Rightarrow> Inr h | None \<Rightarrow> Inl 1))"

definition observed_stack :: "host \<Rightarrow> string option \<Rightarrow> u32" where
  "observed_stack hst p =
     (case p of None \<Rightarrow> UNKNOWN_SENTINEL
      | Some f \<Rightarrow> (case read_to_string hst f of Some s \<Rightarrow> parse_max_stack_or_unknown s | None \<Rightarrow> UNKNOWN_SENTINEL))"

type_synonym writes = "(string \<times> u8 list) list"

text \<open>\<open>std::fs::write\<close> for each file in turn, until one cannot be written.\<close>

definition write_files :: "host \<Rightarrow> writes \<Rightarrow> nat \<times> writes" where
  "write_files hst ws =
     (if list_all (\<lambda>w. writable hst (fst w)) ws then 0 else 1, takeWhile (\<lambda>w. writable hst (fst w)) ws)"

definition gen_cert :: "host \<Rightarrow> cert_args \<Rightarrow> nat + TaskCertificate" where
  "gen_cert hst a =
     (let repo_root = (case ca_repo_root a of Some r \<Rightarrow> r | None \<Rightarrow> ''.'') in
      case fs_read hst (the (ca_manifest a)) of None \<Rightarrow> Inl 1
      | Some manifest_bytes \<Rightarrow>
          (case blake3_file hst (path_join repo_root ''rust-toolchain.toml'') of None \<Rightarrow> Inl 1
           | Some toolchain \<Rightarrow>
               let commit = (case git_head_bytes hst repo_root of Some h \<Rightarrow> h | None \<Rightarrow> replicate 32 0) in
               and_then (section_hash hst (ca_text_bin a)) (\<lambda>txt.
               and_then (section_hash hst (ca_rodata_bin a)) (\<lambda>ro.
               and_then (section_hash hst (ca_data_bin a)) (\<lambda>dat.
                 Inr (build_cert hst (the (ca_task_id a)) (the (ca_task_name a)) commit toolchain (blake3 hst manifest_bytes)
                   (replicate 32 0) 0x3F (replicate 8 0xFF) (replicate 4 \<lparr>rg_base = 0, rg_size = 0\<rparr>)
                   (observed_stack hst (ca_call_stack_report a)) 1 0 txt ro dat (replicate 16 0)))))))"

text \<open>A refused key or signature is exit code 2; a panicking process exits with 101.\<close>

definition sign_error_code :: "sign_error \<Rightarrow> nat" where
  "sign_error_code e = (if e = Slice_panic then 101 else 2)"

definition cert_run :: "('sk, 'pk) ed25519_lib \<Rightarrow> host \<Rightarrow> cert_args \<Rightarrow> nat \<times> writes" where
  "cert_run ed hst a =
     (case gen_cert hst a of Inl code \<Rightarrow> (code, [])
      | Inr cert \<Rightarrow>
          (case read_to_string hst (the (ca_signing_key a)) of None \<Rightarrow> (2, [])
           | Some priv_pem \<Rightarrow>
               (case sign_bytes ed (cert_as_bytes cert) priv_pem of Inl e \<Rightarrow> (sign_error_code e, [])
                | Inr sig \<Rightarrow> write_files hst [(the (ca_out_cert a), cert_as_bytes cert), (the (ca_out_sig a), sig)])))"

definition cert_main :: "('sk, 'pk) ed25519_lib \<Rightarrow> host \<Rightarrow> string list \<Rightarrow> nat \<times> writes" where
  "cert_main ed hst argv = (case cert_parse_args argv of Inl code \<Rightarrow> (code, []) | Inr a \<Rightarrow> cert_run ed hst a)"

end
