(* ===== verification/Image_Build.thy ===== *)
theory Image_Build
  imports Cert_Gen
begin

text \<open>
  The build of a boot image as a whole: the section packer \<open>tools/sntm-pack\<close>, the command line of
  \<open>tools/sntm-image\<close>, and what the sequence of packing, certifying and assembling guarantees.
\<close>

section \<open>sntm-pack (pack.rs, main.rs)\<close>

datatype pack_error = Elf_unreadable string | Elf_unparsable | Section_missing string | Section_unreadable string

record PackStats =
  st_text :: nat
  st_rodata :: nat
  st_data :: nat

definition extract_section_required :: "(string \<Rightarrow> (u8 list option) option) \<Rightarrow> string \<Rightarrow> pack_error + u8 list" where
  "extract_section_required obj name =
     (case obj name of None \<Rightarrow> Inl (Section_missing name)
      | Some None \<Rightarrow> Inl (Section_unreadable name)
      | Some (Some d) \<Rightarrow> Inr d)"

definition extract_section_optional :: "(string \<Rightarrow> (u8 list option) option) \<Rightarrow> string \<Rightarrow> u8 list" where
  "extract_section_optional obj name = (case Option.bind (obj name) (\<lambda>d. d) of Some d \<Rightarrow> d | None \<Rightarrow> [])"

text \<open>The sections of an ELF file, the sizes reported, and the files to write.\<close>

definition pack_elf :: "host \<Rightarrow> string \<Rightarrow> string \<Rightarrow> string \<Rightarrow> string \<Rightarrow> pack_error + PackStats \<times> writes" where
  "pack_elf hst elf_path out_text_path out_rodata_path out_data_path =
     (case fs_read hst elf_path of None \<Rightarrow> Inl (Elf_unreadable elf_path)
      | Some bytes \<Rightarrow>
          (case object_sections hst bytes of None \<Rightarrow> Inl Elf_unparsable
           | Some obj \<Rightarrow>
               and_then (extract_section_required obj ''.text'') (\<lambda>txt.
                 let rodata = extract_section_optional obj ''.rodata''; dat = extract_section_optional obj ''.data'' in
                 Inr (\<lparr>st_text = length txt, st_rodata = length rodata, st_data = length dat\<rparr>,
                   [(out_text_path, txt), (out_rodata_path, rodata), (out_data_path, dat)]))))"

record pack_args =
  pa_elf :: "string option"
  pa_text :: "string option"
  pa_rodata :: "string option"
  pa_data :: "string option"

fun pack_arg_loop :: "string list \<Rightarrow> pack_args \<Rightarrow> nat + pack_args" where
  "pack_arg_loop [] a = Inr a"
| "pack_arg_loop (k # rest) a =
     (if k = ''--elf'' then (case rest of [] \<Rightarrow> Inl 2 | v # r \<Rightarrow> pack_arg_loop r (a\<lparr>pa_elf := Some v\<rparr>))
      else if k = ''--out-text'' then (case rest of [] \<Rightarrow> Inl 2 | v # r \<Rightarrow> pack_arg_loop r (a\<lparr>pa_text := Some v\<rparr>))
      else if k = ''--out-rodata'' then (case rest of [] \<Rightarrow> Inl 2 | v # r \<Rightarrow> pack_arg_loop r (a\<lparr>pa_rodata := Some v\<rparr>))
      else if k = ''--out-data'' then (case rest of [] \<Rightarrow> Inl 2 | v # r \<Rightarrow> pack_arg_loop r (a\<lparr>pa_data := Some v\<rparr>))
      else if k = ''-h'' \<or> k = ''--help'' then Inl 0
      else Inl 2)"

definition pack_main :: "host \<Rightarrow> string list \<Rightarrow> nat \<times> writes" where
  "pack_main hst argv =
     (case pack_arg_loop argv \<lparr>pa_elf = None, pa_text = None, pa_rodata = None, pa_data = None\<rparr> of
        Inl code \<Rightarrow> (code, [])
      | Inr a \<Rightarrow>
          (case (pa_elf a, pa_text a, pa_rodata a, pa_data a) of
             (Some e, Some t, Some r, Some d) \<Rightarrow>
               (case pack_elf hst e t r d of Inl _ \<Rightarrow> (1, []) | Inr (_, ws) \<Rightarrow> write_files hst ws)
           | _ \<Rightarrow> (2, [])))"

section \<open>sntm-image (main.rs)\<close>

record image_args =
  ia_manifest :: "string option"
  ia_kernel :: "string option"
  ia_tasks :: "(string \<times> string) list"
  ia_signing_key :: "string option"
  ia_output :: "string option"

fun image_arg_loop :: "string list \<Rightarrow> image_args \<Rightarrow> nat + image_args" where
  "image_arg_loop [] a = Inr a"
| "image_arg_loop (k # rest) a =
     (if k = ''--manifest'' then (case rest of [] \<Rightarrow> Inl 2 | v # r \<Rightarrow> image_arg_loop r (a\<lparr>ia_manifest := Some v\<rparr>))
      else if k = ''--kernel'' then (case rest of [] \<Rightarrow> Inl 2 | v # r \<Rightarrow> image_arg_loop r (a\<lparr>ia_kernel := Some v\<rparr>))
      else if k = ''--task'' then
        (case rest of v # w # r \<Rightarrow> image_arg_loop r (a\<lparr>ia_tasks := ia_tasks a @ [(v, w)]\<rparr>) | _ \<Rightarrow> Inl 2)
      else if k = ''--signing-key'' then (case rest of [] \<Rightarrow> Inl 2 | v # r \<Rightarrow> image_arg_loop r (a\<lparr>ia_signing_key := Some v\<rparr>))
      else if k = ''--output'' then (case rest of [] \<Rightarrow> Inl 2 | v # r \<Rightarrow> image_arg_loop r (a\<lparr>ia_output := Some v\<rparr>))
      else if k = ''-h'' \<or> k = ''--help'' then Inl 0
      else Inl 2)"

text \<open>The five files of one task; the code section must not be empty.\<close>

definition read_payload :: "host \<Rightarrow> string \<times> string \<Rightarrow> nat + TaskPayload" where
  "read_payload hst np =
     (let prefix = snd np;
          rd = (\<lambda>suffix. case fs_read hst (prefix @ suffix) of Some b \<Rightarrow> Inr b | None \<Rightarrow> Inl 1) in
      and_then (rd ''.text.bin'') (\<lambda>txt.
      if txt = [] then Inl 1
      else and_then (rd ''.rodata.bin'') (\<lambda>rodata.
      and_then (rd ''.data.bin'') (\<lambda>dat.
      and_then (rd ''.cert.bin'') (\<lambda>cert.
      and_then (rd ''.cert.sig'') (\<lambda>sig.
        Inr \<lparr>pl_name = fst np, pl_task_id = 0, text_bin = txt, rodata_bin = rodata, data_bin = dat, cert_bin = cert,
          cert_sig = sig\<rparr>))))))"

fun read_payloads :: "host \<Rightarrow> (string \<times> string) list \<Rightarrow> nat + TaskPayload list" where
  "read_payloads hst [] = Inr []"
| "read_payloads hst (np # nps) =
     and_then (read_payload hst np) (\<lambda>p. and_then (read_payloads hst nps) (\<lambda>ps. Inr (p # ps)))"

definition image_error_code :: "nat \<Rightarrow> image_error \<Rightarrow> nat" where
  "image_error_code code e = (if e = Panicked \<or> e = Signing Slice_panic then 101 else code)"

definition image_run :: "('sk, 'pk) ed25519_lib \<Rightarrow> host \<Rightarrow> image_args \<Rightarrow> nat \<times> writes" where
  "image_run ed hst a =
     (case (ia_manifest a, ia_kernel a, ia_signing_key a, ia_output a) of
        (Some manifest, Some kernel_path, Some key, Some out) \<Rightarrow>
          (case fs_read hst manifest of None \<Rightarrow> (1, [])
           | Some manifest_bytes \<Rightarrow>
               (case fs_read hst kernel_path of None \<Rightarrow> (1, [])
                | Some kernel_bytes \<Rightarrow>
                    (case read_payloads hst (ia_tasks a) of Inl c \<Rightarrow> (c, [])
                     | Inr payloads \<Rightarrow>
                         (case assemble \<lparr>in_manifest_hash = blake3 hst manifest_bytes, in_kernel = kernel_bytes,
                              in_tasks = payloads\<rparr> of
                            Inl _ \<Rightarrow> (1, [])
                          | Inr body \<Rightarrow>
                              (case read_to_string hst key of None \<Rightarrow> (2, [])
                               | Some priv_pem \<Rightarrow>
                                   (case sign_image ed body priv_pem of Inl e \<Rightarrow> (image_error_code 2 e, [])
                                    | Inr sig \<Rightarrow> write_files hst [(out, body @ sig)]))))))
      | _ \<Rightarrow> (2, []))"

definition cmd_assemble :: "('sk, 'pk) ed25519_lib \<Rightarrow> host \<Rightarrow> string list \<Rightarrow> nat \<times> writes" where
  "cmd_assemble ed hst argv =
     (case image_arg_loop argv \<lparr>ia_manifest = None, ia_kernel = None, ia_tasks = [], ia_signing_key = None, ia_output = None\<rparr> of
        Inl code \<Rightarrow> (code, []) | Inr a \<Rightarrow> image_run ed hst a)"

fun verify_arg_loop :: "string list \<Rightarrow> string option \<times> string option \<Rightarrow> nat + (string option \<times> string option)" where
  "verify_arg_loop [] a = Inr a"
| "verify_arg_loop (k # rest) a =
     (if k = ''--verify'' then (case rest of [] \<Rightarrow> Inl 2 | v # r \<Rightarrow> verify_arg_loop r (Some v, snd a))
      else if k = ''--pubkey'' then (case rest of [] \<Rightarrow> Inl 2 | v # r \<Rightarrow> verify_arg_loop r (fst a, Some v))
      else verify_arg_loop rest a)"

definition cmd_verify :: "('sk, 'pk) ed25519_lib \<Rightarrow> host \<Rightarrow> string list \<Rightarrow> nat" where
  "cmd_verify ed hst argv =
     (case verify_arg_loop argv (None, None) of Inl code \<Rightarrow> code
      | Inr (Some image_path, Some pubkey_path) \<Rightarrow>
          (case fs_read hst image_path of None \<Rightarrow> 1
           | Some image_bytes \<Rightarrow>
               (case read_to_string hst pubkey_path of None \<Rightarrow> 1
                | Some pub_pem \<Rightarrow>
                    (case verify_image ed image_bytes pub_pem of Inr _ \<Rightarrow> 0 | Inl e \<Rightarrow> image_error_code 1 e)))
      | Inr _ \<Rightarrow> 2)"

definition image_main :: "('sk, 'pk) ed25519_lib \<Rightarrow> host \<Rightarrow> string list \<Rightarrow> nat \<times> writes" where
  "image_main ed hst argv =
     (if ''--verify'' \<in> set argv then (cmd_verify ed hst argv, []) else cmd_assemble ed hst argv)"

section \<open>Packing, certifying, assembling\<close>

text \<open>The host after a tool has written its files.\<close>

definition after_writes :: "host \<Rightarrow> writes \<Rightarrow> host" where
  "after_writes hst ws = hst\<lparr>fs_read := fold (\<lambda>(p, d) f. f(p \<mapsto> d)) ws (fs_read hst)\<rparr>"

lemma after_writes_simps [simp]:
  "blake3 (after_writes h ws) = blake3 h" "utf8 (after_writes h ws) = utf8 h"
  "writable (after_writes h ws) = writable h" "object_sections (after_writes h ws) = object_sections h"
  "fs_read (after_writes h []) = fs_read h"
  "fs_read (after_writes h (ws @ [(p, d)])) q = (if q = p then Some d else fs_read (after_writes h ws) q)"
  by (simp_all add: after_writes_def)

lemma write_files_ok: "write_files h ws = (0, ws') \<Longrightarrow> ws' = ws"
  by (auto simp: write_files_def list_all_iff split: if_splits)

lemma pack_writes:
  assumes "pack_elf h elf pt pr pd = Inr (st, ws)"
  shows "\<exists>bytes obj txt. fs_read h elf = Some bytes \<and> object_sections h bytes = Some obj \<and> extract_section_required obj ''.text'' = Inr txt
    \<and> ws = [(pt, txt), (pr, extract_section_optional obj ''.rodata''), (pd, extract_section_optional obj ''.data'')]"
  using assms by (auto simp: pack_elf_def and_then_Inr_iff Let_def split: option.splits)

lemma build_cert_wf:
  "(\<And>x. length (blake3 h x) = 32) \<Longrightarrow> length commit = 32 \<Longrightarrow> length tc = 32 \<Longrightarrow> length mf = 32 \<Longrightarrow> length t = 32 \<Longrightarrow>
     length r = 32 \<Longrightarrow> length d = 32 \<Longrightarrow>
     cert_wf (build_cert h i n commit tc mf (replicate 32 0) s (replicate 8 x) (replicate 4 m) st sc u t r d (replicate 16 k))"
  by (simp add: build_cert_def cert_wf_def)

lemma length_git_head: "git_head_bytes h root = Some c \<Longrightarrow> length c = 32"
  by (auto simp: git_head_bytes_def Let_def bind_eq_Some_conv copy_at_def)

lemma gen_cert_facts:
  assumes "gen_cert h a = Inr c" "\<And>x. length (blake3 h x) = 32"
    and "ca_text_bin a = Some tp" "ca_rodata_bin a = Some rp" "ca_data_bin a = Some dp"
  shows "cert_wf c" "fs_read h tp = Some txt \<Longrightarrow> text_hash c = blake3 h txt" "fs_read h rp = Some ro \<Longrightarrow> rodata_hash c = blake3 h ro"
    "fs_read h dp = Some dat \<Longrightarrow> data_hash c = blake3 h dat" "tc_max_stack_bytes c = observed_stack h (ca_call_stack_report a)"
proof -
  from assms obtain mf tc commit t r d where c: "c = build_cert h (the (ca_task_id a)) (the (ca_task_name a)) commit tc mf
      (replicate 32 0) 0x3F (replicate 8 0xFF) (replicate 4 \<lparr>rg_base = 0, rg_size = 0\<rparr>)
      (observed_stack h (ca_call_stack_report a)) 1 0 (blake3 h t) (blake3 h r) (blake3 h d) (replicate 16 0)"
    and l: "length commit = 32" "length tc = 32" "length mf = 32"
    and f: "fs_read h tp = Some t" "fs_read h rp = Some r" "fs_read h dp = Some d"
    by (auto simp: gen_cert_def Let_def and_then_Inr_iff section_hash_def blake3_file_def split: option.splits dest: length_git_head)
  show "cert_wf c" unfolding c by (rule build_cert_wf) (simp_all add: l assms(2))
  show "fs_read h tp = Some txt \<Longrightarrow> text_hash c = blake3 h txt" "fs_read h rp = Some ro \<Longrightarrow> rodata_hash c = blake3 h ro"
    "fs_read h dp = Some dat \<Longrightarrow> data_hash c = blake3 h dat" "tc_max_stack_bytes c = observed_stack h (ca_call_stack_report a)"
    using f by (simp_all add: c build_cert_def)
qed

lemma cert_run_ok:
  assumes "cert_run ed h a = (0, ws)" "read_to_string h (the (ca_signing_key a)) = Some priv_pem"
  shows "\<exists>c sig. gen_cert h a = Inr c \<and> sign_bytes ed (cert_as_bytes c) priv_pem = Inr sig
    \<and> ws = [(the (ca_out_cert a), cert_as_bytes c), (the (ca_out_sig a), sig)]"
proof -
  have e: "gen_cert h a = Inl k \<Longrightarrow> k \<noteq> 0" for k
    by (auto simp: gen_cert_def Let_def section_hash_def split: option.splits)
  show ?thesis
    using assms e by (auto simp: cert_run_def sign_error_code_def split: sum.splits if_splits dest: write_files_ok)
qed

lemma read_payload_fields:
  assumes "read_payload h (n, P) = Inr pl"
  shows "pl_name pl = n" "fs_read h (P @ ''.text.bin'') = Some (text_bin pl)" "fs_read h (P @ ''.rodata.bin'') = Some (rodata_bin pl)"
    "fs_read h (P @ ''.data.bin'') = Some (data_bin pl)" "fs_read h (P @ ''.cert.bin'') = Some (cert_bin pl)"
    "fs_read h (P @ ''.cert.sig'') = Some (cert_sig pl)"
  using assms by (auto simp: read_payload_def Let_def and_then_Inr_iff split: option.splits if_splits)

lemma read_payloads_mem:
  "read_payloads h nps = Inr ps \<Longrightarrow> np \<in> set nps \<Longrightarrow> \<exists>pl\<in>set ps. read_payload h np = Inr pl"
  by (induction nps arbitrary: ps) (auto simp: and_then_Inr_iff)

lemma image_run_ok:
  assumes "image_run ed h b = (0, [(out, img)])" "ia_signing_key b = Some key" "read_to_string h key = Some priv_pem"
  shows "\<exists>mf k pls body sig. read_payloads h (ia_tasks b) = Inr pls
    \<and> assemble \<lparr>in_manifest_hash = blake3 h mf, in_kernel = k, in_tasks = pls\<rparr> = Inr body
    \<and> sign_image ed body priv_pem = Inr sig \<and> img = body @ sig"
proof -
  have p: "read_payloads h nps = Inl c \<Longrightarrow> c = 1" for nps c
  proof (induction nps)
    case (Cons np nps)
    then show ?case
      by (cases "read_payload h np"; cases "read_payloads h nps")
         (auto simp: read_payload_def Let_def split: option.splits if_splits)
  qed simp
  from assms show ?thesis
    by (auto simp: image_run_def image_error_code_def split: option.splits sum.splits if_splits dest: p dest!: write_files_ok)
qed

lemma placed_append: "placed t img \<Longrightarrow> placed t (img @ ys)"
  unfolding placed_def by (metis append_assoc)

lemma signed_body_verifies:
  assumes "ed25519_pair ed priv_pem pub_pem" "length (in_manifest_hash inp) = 32" "assemble inp = Inr body"
    and "sign_image ed body priv_pem = Inr sig" "length (body @ sig) < 2 ^ 64"
  shows "verify_image ed (body @ sig) pub_pem = Inr ()"
proof -
  obtain s where s: "sign_bytes ed body priv_pem = Inr s" "length s = 64" using sign_then_verify [OF assms(1)] by metis
  with assms(4) have "sig = s" by (simp add: sign_image_def)
  with s(2) assms(5) have "length body + 64 < 2 ^ 64" by simp
  from signed_image_accepted [OF assms(1-3) this, of "[]"] assms(4) show ?thesis by auto
qed

text \<open>
  C11. The build of an image, end to end: after packing an ELF file, certifying the packed sections and
  assembling the image with the same key, the image verifies with the matching public key; it contains
  the ELF file's sections, and a certificate that decodes to their hashes and to the observed stack, and
  whose own signature verifies.
\<close>
theorem image_build_sound:
  fixes hst :: host and a :: cert_args
  assumes "ed25519_pair ed priv_pem pub_pem" "\<forall>x. length (blake3 hst x) = 32"
    and "pack_elf hst elf (P @ ''.text.bin'') (P @ ''.rodata.bin'') (P @ ''.data.bin'') = Inr (st, ws0)"
    and "h1 = after_writes hst ws0" "cert_run ed h1 a = (0, ws1)"
    and "ca_text_bin a = Some (P @ ''.text.bin'')" "ca_rodata_bin a = Some (P @ ''.rodata.bin'')"
    and "ca_data_bin a = Some (P @ ''.data.bin'')" "ca_out_cert a = Some (P @ ''.cert.bin'')"
    and "ca_out_sig a = Some (P @ ''.cert.sig'')" "read_to_string h1 (the (ca_signing_key a)) = Some priv_pem"
    and "h2 = after_writes h1 ws1" "image_run ed h2 b = (0, [(out, img)])" "(n, P) \<in> set (ia_tasks b)"
    and "ia_signing_key b = Some key" "read_to_string h2 key = Some priv_pem" "length img < 2 ^ 64"
  shows "verify_image ed img pub_pem = Inr () \<and> (\<exists>bytes obj pl c.
    fs_read hst elf = Some bytes \<and> object_sections hst bytes = Some obj \<and> placed pl img
    \<and> extract_section_required obj ''.text'' = Inr (text_bin pl) \<and> rodata_bin pl = extract_section_optional obj ''.rodata''
    \<and> data_bin pl = extract_section_optional obj ''.data'' \<and> cert_from_bytes (cert_bin pl) = Some c
    \<and> text_hash c = blake3 hst (text_bin pl) \<and> rodata_hash c = blake3 hst (rodata_bin pl) \<and> data_hash c = blake3 hst (data_bin pl)
    \<and> tc_max_stack_bytes c = observed_stack h1 (ca_call_stack_report a)
    \<and> verify_bytes ed (cert_bin pl) (cert_sig pl) pub_pem = Inr ())"
proof -
  obtain bytes obj tx where elf: "fs_read hst elf = Some bytes" "object_sections hst bytes = Some obj"
    "extract_section_required obj ''.text'' = Inr tx" and ws0: "ws0 = [(P @ ''.text.bin'', tx),
      (P @ ''.rodata.bin'', extract_section_optional obj ''.rodata''), (P @ ''.data.bin'', extract_section_optional obj ''.data'')]"
    using pack_writes [OF assms(3)] by auto
  have h1: "fs_read h1 (P @ ''.text.bin'') = Some tx" "fs_read h1 (P @ ''.rodata.bin'') = Some (extract_section_optional obj ''.rodata'')"
    "fs_read h1 (P @ ''.data.bin'') = Some (extract_section_optional obj ''.data'')" "blake3 h1 = blake3 hst"
    by (simp_all add: assms(4) after_writes_def ws0)
  obtain c sg where c: "gen_cert h1 a = Inr c" "sign_bytes ed (cert_as_bytes c) priv_pem = Inr sg"
    and ws1: "ws1 = [(P @ ''.cert.bin'', cert_as_bytes c), (P @ ''.cert.sig'', sg)]"
    using cert_run_ok [OF assms(5,11)] assms(9,10) by auto
  have b32: "length (blake3 h1 x) = 32" for x using assms(2) h1(4) by simp
  note cf = gen_cert_facts [OF c(1) b32 assms(6,7,8)]
  have h2: "fs_read h2 (P @ ''.cert.bin'') = Some (cert_as_bytes c)" "fs_read h2 (P @ ''.cert.sig'') = Some sg"
    "fs_read h2 (P @ ''.text.bin'') = Some tx" "fs_read h2 (P @ ''.rodata.bin'') = Some (extract_section_optional obj ''.rodata'')"
    "fs_read h2 (P @ ''.data.bin'') = Some (extract_section_optional obj ''.data'')" "blake3 h2 = blake3 hst"
    using h1 by (simp_all add: assms(12) after_writes_def ws1)
  obtain mf k pls body sig where im: "read_payloads h2 (ia_tasks b) = Inr pls"
    "assemble \<lparr>in_manifest_hash = blake3 h2 mf, in_kernel = k, in_tasks = pls\<rparr> = Inr body"
    "sign_image ed body priv_pem = Inr sig" "img = body @ sig"
    using image_run_ok [OF assms(13,15,16)] by auto
  obtain pl where pl: "pl \<in> set pls" "read_payload h2 (n, P) = Inr pl"
    using read_payloads_mem [OF im(1) assms(14)] by blast
  note f = read_payload_fields [OF pl(2)]
  have hash: "length (blake3 h2 mf) = 32" using assms(2) h2(6) by simp
  have v: "verify_image ed img pub_pem = Inr ()"
    using signed_body_verifies [OF assms(1) _ im(2,3)] hash assms(17) by (simp add: im(4))
  have "placed pl body" using assemble_parts [OF _ im(2)] hash pl(1) by (auto simp: image_parts_def list_all_iff)
  then have "placed pl img" by (simp add: im(4) placed_append)
  moreover have "text_bin pl = tx" "rodata_bin pl = extract_section_optional obj ''.rodata''"
    "data_bin pl = extract_section_optional obj ''.data''" "cert_bin pl = cert_as_bytes c" "cert_sig pl = sg"
    using f h2 by simp_all
  moreover have "verify_bytes ed (cert_as_bytes c) sg pub_pem = Inr ()"
    using sign_then_verify [OF assms(1), of "cert_as_bytes c"] c(2) by auto
  ultimately show ?thesis using v elf cf h1 cert.decode_encode [OF cf(1)]
    by (intro conjI exI [of _ bytes] exI [of _ obj] exI [of _ pl] exI [of _ c]) simp_all
qed

section \<open>Witnesses\<close>

text \<open>A signature scheme with the shape of Ed25519, and key files for it.\<close>

definition demo_ed :: "(u8 list, u8 list) ed25519_lib" where
  "demo_ed = \<lparr>key_of_seed = (\<lambda>s. Some s), ed_sign = (\<lambda>k m. take 64 (k @ m @ replicate 64 0)), public_key = (\<lambda>b. Some b),
     ed_verify = (\<lambda>k m s. s = take 64 (k @ m @ replicate 64 0))\<rparr>"

definition demo_der :: "u8 list" where
  "demo_der = [0x30, 0x2E] @ replicate 32 0x5A"

definition demo_priv :: string where "demo_priv = pem_file ''PRIVATE KEY'' (base64_encode demo_der @ [CHR 0x0A])"
definition demo_pub :: string where "demo_pub = pem_file ''PUBLIC KEY'' (base64_encode demo_der @ [CHR 0x0A])"

lemma demo_der_b64: "CHR ''-'' \<notin> set (base64_encode demo_der @ [CHR 0x0A])"
  "filter (\<lambda>c. \<not> is_whitespace c) (base64_encode demo_der @ [CHR 0x0A]) = base64_encode demo_der"
  by code_simp+

lemma demo_pem: "decode_pem_block demo_priv ''PRIVATE KEY'' = Inr demo_der" "decode_pem_block demo_pub ''PUBLIC KEY'' = Inr demo_der"
  unfolding demo_priv_def demo_pub_def using demo_der_b64 by (simp_all add: decode_pem_file)

lemma demo_keys: "parse_ed25519_priv_pem demo_ed demo_priv = Inr (replicate 32 0x5A)"
  "parse_ed25519_pub_pem demo_ed demo_pub = Inr (replicate 32 0x5A)"
  by (simp_all add: parse_ed25519_priv_pem_def parse_ed25519_pub_pem_def demo_pem demo_ed_def demo_der_def last32_def)

lemma demo_pair: "ed25519_pair demo_ed demo_priv demo_pub"
  unfolding ed25519_pair_def demo_keys by (auto simp: demo_ed_def min_def)

definition demo_inputs :: ImageInputs where
  "demo_inputs = \<lparr>in_manifest_hash = replicate 32 1, in_kernel = [0x13, 0, 0, 0], in_tasks =
     [\<lparr>pl_name = ''t'', pl_task_id = 0, text_bin = [0x73, 0, 0, 0], rodata_bin = [1], data_bin = [], cert_bin = replicate 424 2,
       cert_sig = replicate 64 3\<rparr>]\<rparr>"

lemma demo_assembled: "\<exists>img. assemble demo_inputs = Inr img \<and> length img = 768"
proof -
  have "map_sum (\<lambda>_. ()) length (assemble demo_inputs) = Inr 768" by code_simp
  then show ?thesis by (cases "assemble demo_inputs") auto
qed

theorem assembled_image_layout_witness:
  "\<exists>img h. assemble demo_inputs = Inr img \<and> header_from_bytes (take 64 img) = Inr h
     \<and> subslice img (unat (kernel_offset h)) (unat (kernel_offset h) + unat (kernel_size h)) = [0x13, 0, 0, 0]"
proof -
  obtain img where img: "assemble demo_inputs = Inr img" "length img = 768" using demo_assembled by metis
  have t: "hd (in_tasks demo_inputs) \<in> set (in_tasks demo_inputs)" by (simp add: demo_inputs_def)
  have "length (in_manifest_hash demo_inputs) = 32" "length img < 2 ^ 64" by (simp_all add: demo_inputs_def img)
  from assembled_image_layout [OF this(1) img(1) this(2) t] img(1) show ?thesis by (auto simp: demo_inputs_def)
qed

theorem signed_image_accepted_example:
  "\<exists>img sig. assemble demo_inputs = Inr img \<and> sign_image demo_ed img demo_priv = Inr sig
     \<and> verify_image demo_ed (img @ sig @ [0xFF]) demo_pub = Inr ()"
proof -
  obtain img where img: "assemble demo_inputs = Inr img" "length img = 768" using demo_assembled by metis
  have "length (in_manifest_hash demo_inputs) = 32" "length img + 64 < 2 ^ 64" by (simp_all add: demo_inputs_def img)
  from signed_image_accepted [OF demo_pair this(1) img(1) this(2), of "[0xFF]"] img(1) show ?thesis by auto
qed

definition demo_host :: host where
  "demo_host = \<lparr>fs_read = [''t.elf'' \<mapsto> [1], ''sipahi.toml'' \<mapsto> [2], ''./rust-toolchain.toml'' \<mapsto> [3], ''sipahi'' \<mapsto> [4],
       ''key'' \<mapsto> [5]], utf8 = (\<lambda>b. if b = [5] then Some demo_priv else None), writable = (\<lambda>_. True),
     blake3 = (\<lambda>b. replicate 32 (of_nat (length b))),
     object_sections = (\<lambda>_. Some (\<lambda>n. if n = ''.text'' then Some (Some [0x73, 0, 0, 0]) else None))\<rparr>"

definition demo_cert_args :: cert_args where
  "demo_cert_args = \<lparr>ca_manifest = Some ''sipahi.toml'', ca_task_name = Some ''t'', ca_task_id = Some 2,
     ca_text_bin = Some ''t.text.bin'', ca_rodata_bin = Some ''t.rodata.bin'', ca_data_bin = Some ''t.data.bin'',
     ca_signing_key = Some ''key'', ca_out_cert = Some ''t.cert.bin'', ca_out_sig = Some ''t.cert.sig'', ca_repo_root = None,
     ca_call_stack_report = None\<rparr>"

definition demo_image_args :: image_args where
  "demo_image_args = \<lparr>ia_manifest = Some ''sipahi.toml'', ia_kernel = Some ''sipahi'', ia_tasks = [(''t'', ''t'')],
     ia_signing_key = Some ''key'', ia_output = Some ''image''\<rparr>"

definition demo_host1 :: host where
  "demo_host1 = after_writes demo_host [(''t.text.bin'', [0x73, 0, 0, 0]), (''t.rodata.bin'', []), (''t.data.bin'', [])]"

lemma demo_packed: "pack_elf demo_host ''t.elf'' (''t'' @ ''.text.bin'') (''t'' @ ''.rodata.bin'') (''t'' @ ''.data.bin'') =
  Inr (\<lparr>st_text = 4, st_rodata = 0, st_data = 0\<rparr>, [(''t.text.bin'', [0x73, 0, 0, 0]), (''t.rodata.bin'', []), (''t.data.bin'', [])])"
  by (simp add: pack_elf_def demo_host_def extract_section_required_def extract_section_optional_def)

lemma demo_reads:
  "fs_read demo_host1 ''sipahi.toml'' = Some [2]" "fs_read demo_host1 ''./rust-toolchain.toml'' = Some [3]"
  "fs_read demo_host1 ''t.text.bin'' = Some [0x73, 0, 0, 0]" "fs_read demo_host1 ''t.rodata.bin'' = Some []"
  "fs_read demo_host1 ''t.data.bin'' = Some []" "fs_read demo_host1 ''key'' = Some [5]" "fs_read demo_host1 ''sipahi'' = Some [4]"
  "utf8 demo_host1 [5] = Some demo_priv" "writable demo_host1 = (\<lambda>_. True)"
  by (simp_all add: demo_host1_def after_writes_def demo_host_def)

lemma demo_certified:
  "\<exists>c sig. cert_run demo_ed demo_host1 demo_cert_args = (0, [(''t.cert.bin'', c), (''t.cert.sig'', sig)]) \<and> length c = 424 \<and> length sig = 64"
proof -
  obtain c where c: "gen_cert demo_host1 demo_cert_args = Inr c"
    by (simp add: gen_cert_def demo_cert_args_def demo_reads section_hash_def blake3_file_def path_join_def)
  have "length (blake3 demo_host1 x) = 32" for x by (simp add: demo_host1_def demo_host_def)
  then have "cert_wf c" by (intro gen_cert_facts(1) [OF c]) (simp_all add: demo_cert_args_def)
  obtain sig where sig: "sign_bytes demo_ed (cert_as_bytes c) demo_priv = Inr sig" "length sig = 64"
    using sign_then_verify [OF demo_pair] by metis
  have "cert_run demo_ed demo_host1 demo_cert_args = (0, [(''t.cert.bin'', cert_as_bytes c), (''t.cert.sig'', sig)])"
    using c sig by (simp add: cert_run_def read_to_string_def demo_reads write_files_def) (simp add: demo_cert_args_def demo_reads sig write_files_def)
  with \<open>cert_wf c\<close> sig(2) show ?thesis by (auto simp: cert.length_encode)
qed

lemma length_aligned: "length (align_to xs 64) = length xs + (64 - length xs mod 64) mod 64"
  by (simp add: align_to_pad)

lemma length_assemble:
  assumes "assemble inp = Inr img" "length (in_manifest_hash inp) = 32"
  shows "length img = length (align_to (fold append_task (in_tasks inp) (align_to (replicate 64 0 @ in_kernel inp) 64)) 64)"
proof -
  have "align_to (replicate 64 0) 64 = replicate 64 0" by (simp add: align_to_pad)
  then obtain h where img: "img = copy_at 0 (header_to_bytes h)
      (align_to (fold append_task (in_tasks inp) (align_to (replicate 64 0 @ in_kernel inp) 64)) 64)" and w: "length (manifest_hash8 h) = 8"
    using assms by (auto simp: assemble_def Let_def)
  obtain p1 where p1: "align_to (replicate 64 0 @ in_kernel inp) 64 = (replicate 64 0 @ in_kernel inp) @ p1"
    using align_to_ex [of "replicate 64 0 @ in_kernel inp"] by metis
  obtain ys where ys: "fold append_task (in_tasks inp) ((replicate 64 0 @ in_kernel inp) @ p1) = ((replicate 64 0 @ in_kernel inp) @ p1) @ ys"
    using fold_append_task_prefix by metis
  obtain p2 where p2: "align_to (((replicate 64 0 @ in_kernel inp) @ p1) @ ys) 64 = (((replicate 64 0 @ in_kernel inp) @ p1) @ ys) @ p2"
    using align_to_ex [of "((replicate 64 0 @ in_kernel inp) @ p1) @ ys"] by metis
  show ?thesis unfolding img p1 ys p2 using header.length_encode [OF w] by (simp add: copy_at_def)
qed

lemma demo_image_length:
  assumes "length c = 424" "length g = 64"
  shows "length (align_to (fold append_task [\<lparr>pl_name = n, pl_task_id = 0, text_bin = [0x73, 0, 0, 0], rodata_bin = [], data_bin = [],
      cert_bin = c, cert_sig = g\<rparr>] (align_to (replicate 64 0 @ [4]) 64)) 64) = 704"
  using assms by (simp add: length_aligned append_task_def)

theorem image_build_sound_witness:
  "\<exists>img pl c. verify_image demo_ed img demo_pub = Inr () \<and> placed pl img \<and> text_bin pl = [0x73, 0, 0, 0]
     \<and> cert_from_bytes (cert_bin pl) = Some c \<and> text_hash c = blake3 demo_host [0x73, 0, 0, 0] \<and> tc_max_stack_bytes c = 0xFFFFFFFF"
proof -
  obtain c g where run: "cert_run demo_ed demo_host1 demo_cert_args = (0, [(''t.cert.bin'', c), (''t.cert.sig'', g)])"
    and len: "length c = 424" "length g = 64" using demo_certified by metis
  define h2 where "h2 = after_writes demo_host1 [(''t.cert.bin'', c), (''t.cert.sig'', g)]"
  have rd: "fs_read h2 ''t.cert.bin'' = Some c" "fs_read h2 ''t.cert.sig'' = Some g" "fs_read h2 p = fs_read demo_host1 p"
    if "p \<noteq> ''t.cert.bin''" "p \<noteq> ''t.cert.sig''" for p using that by (simp_all add: h2_def after_writes_def)
  have other: "utf8 h2 = utf8 demo_host1" "writable h2 = (\<lambda>_. True)" "length (blake3 h2 x) = 32" for x
    by (simp_all add: h2_def demo_host1_def demo_host_def)
  let ?pl = "\<lparr>pl_name = ''t'', pl_task_id = 0, text_bin = [0x73, 0, 0, 0], rodata_bin = [], data_bin = [], cert_bin = c, cert_sig = g\<rparr>"
  obtain body where body: "assemble \<lparr>in_manifest_hash = blake3 h2 [2], in_kernel = [4], in_tasks = [?pl]\<rparr> = Inr body"
    by (simp add: assemble_def Let_def)
  obtain s where s: "sign_bytes demo_ed body demo_priv = Inr s" "length s = 64" using sign_then_verify [OF demo_pair] by metis
  have key: "read_to_string h2 ''key'' = Some demo_priv" "read_to_string demo_host1 ''key'' = Some demo_priv"
    by (simp_all add: read_to_string_def rd(3) other demo_reads)
  have "read_payloads h2 [(''t'', ''t'')] = Inr [?pl]"
    using rd(1,2) [of "[]"] by (simp add: read_payload_def rd(3) demo_reads)
  then have img: "image_run demo_ed h2 demo_image_args = (0, [(''image'', body @ s)])"
    by (simp add: image_run_def demo_image_args_def rd(3) demo_reads body key sign_image_def s write_files_def other)
  have "length body = 704" using length_assemble [OF body] demo_image_length [OF len] other(3) by simp
  then have "length (body @ s) < 2 ^ 64" using s(2) by simp
  then obtain bytes obj pl ct where w: "verify_image demo_ed (body @ s) demo_pub = Inr ()"
    "fs_read demo_host ''t.elf'' = Some bytes" "object_sections demo_host bytes = Some obj" "placed pl (body @ s)"
    "extract_section_required obj ''.text'' = Inr (text_bin pl)" "cert_from_bytes (cert_bin pl) = Some ct"
    "text_hash ct = blake3 demo_host (text_bin pl)" "tc_max_stack_bytes ct = observed_stack demo_host1 (ca_call_stack_report demo_cert_args)"
    using image_build_sound [OF demo_pair _ demo_packed demo_host1_def run _ _ _ _ _ _ h2_def img, of "''t''" "''key''"] key
    by (auto simp: demo_cert_args_def demo_image_args_def demo_host_def)
  have "text_bin pl = [0x73, 0, 0, 0]" using w(3,5) by (auto simp: demo_host_def extract_section_required_def)
  moreover have "tc_max_stack_bytes ct = 0xFFFFFFFF" using w(8) by (simp add: demo_cert_args_def observed_stack_def)
  ultimately show ?thesis using w(1,4,6,7) by (intro exI [of _ "body @ s"] exI [of _ pl] exI [of _ ct]) simp
qed

end
