(* ===== verification/Task_Lint.thy ===== *)
theory Task_Lint
  imports Manifest_Spec
begin

text \<open>
  The source lint of the safe native profile, \<open>tools/task-lint\<close>: twelve rules over the syntax tree of
  a task's \<open>main.rs\<close> (\<open>lint.rs\<close>), the task entries (\<open>lib.rs\<close>) and the command line (\<open>main.rs\<close>).
  The tree is what the \<open>syn\<close> library's default traversal visits, as far as the visitors of the tool
  tell nodes apart; reading files and parsing are answers of an environment. Messages are values.
\<close>

section \<open>The syntax tree\<close>

text \<open>Paths are the identifiers of their segments. An attribute is its path and its meta item.\<close>

datatype meta = Meta_List string | Meta_Str string | Meta_Value | Meta_Path "string list"

datatype attribute = Attribute "string list" meta

datatype use_tree = Use_Path string use_tree | Use_Name string | Use_Rename string string | Use_Glob
  | Use_Group "use_tree list"

datatype kind =
    Item_Mod | Item_Impl | Item_ExternCrate string | Item_Use use_tree | Item_Macro "string list"
  | Item_ForeignMod | Item_Other
  | Expr_Block | Expr_Unsafe | Expr_Macro "string list" | Expr_Path "string list"
  | Expr_Cast bool bool | Expr_Call "string list option" | Expr_Other
  | Stmt_Macro "string list"
  | Type_Path "string list" | Type_TraitObject | Type_BareFn
  | Other_Node

text \<open>
  A function item carries its \<open>unsafe\<close> qualifier and name, the nodes of its signature and those of its
  block; every other node its kind and the nodes below it. \<open>Expr_Cast\<close> says whether the operand is an
  integer literal and whether the target is a raw pointer type; \<open>Expr_Call\<close> has the path called, when
  the callee is a path.
\<close>

datatype node = Item_Fn bool string "attribute list" "node list" "node list"
  | Node kind "attribute list" "node list"

section \<open>Paths\<close>

definition is_asm_macro :: "string list \<Rightarrow> bool" where
  "is_asm_macro segs =
     (case rev segs of
        [l] \<Rightarrow> l = ''asm'' \<or> l = ''global_asm''
      | l # a # _ \<Rightarrow> a = ''arch'' \<and> (l = ''asm'' \<or> l = ''global_asm'')
      | [] \<Rightarrow> False)"

definition path_starts_with :: "string list \<Rightarrow> string list \<Rightarrow> bool" where
  "path_starts_with p prefix =
     (if length p < length prefix then False
      else list_all (\<lambda>(s, q). s = q) (zip (take (length prefix) p) prefix))"

definition ATOMIC :: "string list" where "ATOMIC = [''core'', ''sync'', ''atomic'']"
definition ARCH_ASM :: "string list" where "ARCH_ASM = [''core'', ''arch'', ''asm'']"

text \<open>\<open>collect_use_paths\<close>: the paths handed to the sink, in order.\<close>

fun collect_use_paths :: "use_tree \<Rightarrow> string list \<Rightarrow> string list list"
  and collect_group :: "use_tree list \<Rightarrow> string list \<Rightarrow> string list list" where
  "collect_use_paths (Use_Path i t) stack = collect_use_paths t (stack @ [i])"
| "collect_use_paths (Use_Name i) stack = [stack @ [i]]"
| "collect_use_paths (Use_Rename i j) stack = [stack @ [i]]"
| "collect_use_paths Use_Glob stack = [stack]"
| "collect_use_paths (Use_Group ts) stack = collect_group ts stack"
| "collect_group [] stack = []"
| "collect_group (t # ts) stack = collect_use_paths t stack @ collect_group ts stack"

fun join_path :: "string list \<Rightarrow> string" where
  "join_path [] = []"
| "join_path [s] = s"
| "join_path (s # ss) = s @ ''::'' @ join_path ss"

fun meta_to_string :: "meta \<Rightarrow> string" where
  "meta_to_string (Meta_List tokens) = tokens"
| "meta_to_string (Meta_Str s) = ''= '' @ [CHR 0x22] @ s @ [CHR 0x22]"
| "meta_to_string Meta_Value = []"
| "meta_to_string (Meta_Path p) = join_path p"

section \<open>The forbidden constructs in one pass\<close>

record ForbiddenVisitor =
  demo_waivers :: "string list"
  in_waived_scope :: nat
  unsafe_violations :: nat
  unsafe_waived :: nat
  alloc_violations :: nat
  alloc_waived :: nat
  asm_violations :: nat
  asm_waived :: nat
  atomic_violations :: nat
  atomic_waived :: nat
  mmio_violations :: nat
  mmio_waived :: nat

definition fv_new :: "string list \<Rightarrow> ForbiddenVisitor" where
  "fv_new waivers = \<lparr>demo_waivers = waivers, in_waived_scope = 0, unsafe_violations = 0, unsafe_waived = 0,
     alloc_violations = 0, alloc_waived = 0, asm_violations = 0, asm_waived = 0, atomic_violations = 0,
     atomic_waived = 0, mmio_violations = 0, mmio_waived = 0\<rparr>"

definition contains :: "string \<Rightarrow> string \<Rightarrow> bool" where
  "contains s p \<longleftrightarrow> str_find p s \<noteq> None"

definition waiver_pattern :: "string \<Rightarrow> string" where
  "waiver_pattern w = ''feature = '' @ [CHR 0x22] @ w @ [CHR 0x22]"

definition is_waived_cfg :: "string list \<Rightarrow> attribute list \<Rightarrow> bool" where
  "is_waived_cfg waivers attrs =
     list_ex (\<lambda>a. case a of Attribute p m \<Rightarrow>
       p = [''cfg''] \<and> list_ex (\<lambda>w. contains (meta_to_string m) (waiver_pattern w)) waivers) attrs"

datatype Kind = Unsafe | Alloc | Asm | Atomic | Mmio

definition bump :: "Kind \<Rightarrow> ForbiddenVisitor \<Rightarrow> ForbiddenVisitor" where
  "bump kd v =
     (case (kd, in_waived_scope v > 0) of
        (Unsafe, True) \<Rightarrow> v\<lparr>unsafe_waived := unsafe_waived v + 1\<rparr>
      | (Unsafe, False) \<Rightarrow> v\<lparr>unsafe_violations := unsafe_violations v + 1\<rparr>
      | (Alloc, True) \<Rightarrow> v\<lparr>alloc_waived := alloc_waived v + 1\<rparr>
      | (Alloc, False) \<Rightarrow> v\<lparr>alloc_violations := alloc_violations v + 1\<rparr>
      | (Asm, True) \<Rightarrow> v\<lparr>asm_waived := asm_waived v + 1\<rparr>
      | (Asm, False) \<Rightarrow> v\<lparr>asm_violations := asm_violations v + 1\<rparr>
      | (Atomic, True) \<Rightarrow> v\<lparr>atomic_waived := atomic_waived v + 1\<rparr>
      | (Atomic, False) \<Rightarrow> v\<lparr>atomic_violations := atomic_violations v + 1\<rparr>
      | (Mmio, True) \<Rightarrow> v\<lparr>mmio_waived := mmio_waived v + 1\<rparr>
      | (Mmio, False) \<Rightarrow> v\<lparr>mmio_violations := mmio_violations v + 1\<rparr>)"

text \<open>The attributes that open a scope: those of six kinds of items and two kinds of expressions.\<close>

fun scope_attrs :: "kind \<Rightarrow> attribute list \<Rightarrow> attribute list" where
  "scope_attrs Item_Mod attrs = attrs"
| "scope_attrs Item_Impl attrs = attrs"
| "scope_attrs (Item_ExternCrate _) attrs = attrs"
| "scope_attrs (Item_Use _) attrs = attrs"
| "scope_attrs (Item_Macro _) attrs = attrs"
| "scope_attrs Expr_Block attrs = attrs"
| "scope_attrs Expr_Unsafe attrs = attrs"
| "scope_attrs _ attrs = []"

text \<open>The checks of \<open>visit_item\<close> and of the visit methods of expressions, statements and types.\<close>

fun node_checks :: "kind \<Rightarrow> ForbiddenVisitor \<Rightarrow> ForbiddenVisitor" where
  "node_checks (Item_ExternCrate i) v = (if i = ''alloc'' then bump Alloc v else v)"
| "node_checks (Item_Use t) v =
     (if list_ex (\<lambda>p. path_starts_with p ATOMIC) (collect_use_paths t []) then bump Atomic v else v)"
| "node_checks (Item_Macro p) v = (if is_asm_macro p then bump Asm v else v)"
| "node_checks Expr_Unsafe v = bump Unsafe v"
| "node_checks (Expr_Macro p) v = (if is_asm_macro p then bump Asm v else v)"
| "node_checks (Stmt_Macro p) v = (if is_asm_macro p then bump Asm v else v)"
| "node_checks (Expr_Path p) v =
     (if path_starts_with p ATOMIC \<or> path_starts_with p ARCH_ASM
      then if path_starts_with p ARCH_ASM then bump Asm v else bump Atomic v else v)"
| "node_checks (Type_Path p) v = (if path_starts_with p ATOMIC then bump Atomic v else v)"
| "node_checks (Expr_Cast is_int_literal is_raw_ptr) v = (if is_int_literal \<and> is_raw_ptr then bump Mmio v else v)"
| "node_checks _ v = v"

definition enter_scope :: "bool \<Rightarrow> ForbiddenVisitor \<Rightarrow> ForbiddenVisitor" where
  "enter_scope waived v = (if waived then v\<lparr>in_waived_scope := in_waived_scope v + 1\<rparr> else v)"

definition leave_scope :: "bool \<Rightarrow> ForbiddenVisitor \<Rightarrow> ForbiddenVisitor" where
  "leave_scope waived v = (if waived then v\<lparr>in_waived_scope := in_waived_scope v - 1\<rparr> else v)"

fun fv_visit :: "node \<Rightarrow> ForbiddenVisitor \<Rightarrow> ForbiddenVisitor"
  and fv_visits :: "node list \<Rightarrow> ForbiddenVisitor \<Rightarrow> ForbiddenVisitor" where
  "fv_visit (Item_Fn u name attrs sg block) v =
     (let waived = is_waived_cfg (demo_waivers v) attrs;
          v = enter_scope waived v;
          v = fv_visits block (fv_visits sg v)
      in leave_scope waived v)"
| "fv_visit (Node kd attrs children) v =
     (let waived = is_waived_cfg (demo_waivers v) (scope_attrs kd attrs);
          v = enter_scope waived v;
          v = node_checks kd v;
          v = fv_visits children v
      in leave_scope waived v)"
| "fv_visits [] v = v"
| "fv_visits (n # ns) v = fv_visits ns (fv_visit n v)"

section \<open>The other visitors\<close>

text \<open>Foreign blocks, counted and not entered.\<close>

fun foreign_visit :: "node \<Rightarrow> nat \<Rightarrow> nat"
  and foreign_visits :: "node list \<Rightarrow> nat \<Rightarrow> nat" where
  "foreign_visit (Item_Fn u name attrs sg block) c = foreign_visits block (foreign_visits sg c)"
| "foreign_visit (Node kd attrs children) c =
     (if kd = Item_ForeignMod then c + 1 else foreign_visits children c)"
| "foreign_visits [] c = c"
| "foreign_visits (n # ns) c = foreign_visits ns (foreign_visit n c)"

definition count_foreign_mods :: "node list \<Rightarrow> nat" where
  "count_foreign_mods ast = foreign_visits ast 0"

text \<open>Trait objects and function pointer types, counted and not entered.\<close>

fun dyn_visit :: "node \<Rightarrow> nat \<times> nat \<Rightarrow> nat \<times> nat"
  and dyn_visits :: "node list \<Rightarrow> nat \<times> nat \<Rightarrow> nat \<times> nat" where
  "dyn_visit (Item_Fn u name attrs sg block) c = dyn_visits block (dyn_visits sg c)"
| "dyn_visit (Node kd attrs children) c =
     (if kd = Type_TraitObject then (fst c + 1, snd c)
      else if kd = Type_BareFn then (fst c, snd c + 1)
      else dyn_visits children c)"
| "dyn_visits [] c = c"
| "dyn_visits (n # ns) c = dyn_visits ns (dyn_visit n c)"

definition count_dyn_fnptr :: "node list \<Rightarrow> nat \<times> nat" where
  "count_dyn_fnptr ast = dyn_visits ast (0, 0)"

text \<open>Calls of a function by the last segment of a path.\<close>

definition calls_fn :: "string \<Rightarrow> kind \<Rightarrow> bool" where
  "calls_fn target kd =
     (case kd of Expr_Call (Some p) \<Rightarrow> p \<noteq> [] \<and> last p = target | _ \<Rightarrow> False)"

fun call_visit :: "string \<Rightarrow> node \<Rightarrow> bool \<Rightarrow> bool"
  and call_visits :: "string \<Rightarrow> node list \<Rightarrow> bool \<Rightarrow> bool" where
  "call_visit target (Item_Fn u name attrs sg block) found =
     call_visits target block (call_visits target sg found)"
| "call_visit target (Node kd attrs children) found =
     call_visits target children (if calls_fn target kd then True else found)"
| "call_visits target [] found = found"
| "call_visits target (n # ns) found = call_visits target ns (call_visit target n found)"

fun find_direct_recursion :: "node list \<Rightarrow> string list" where
  "find_direct_recursion [] = []"
| "find_direct_recursion (n # ns) =
     (case n of
        Item_Fn u name attrs sg block \<Rightarrow> if call_visits name block False then [name] else []
      | Node _ _ _ \<Rightarrow> []) @ find_direct_recursion ns"

section \<open>Task entries and the environment\<close>

record LintEntry =
  l_name :: string
  l_dal_level :: string
  l_trust_tier :: string
  l_waiver_reason :: string
  l_demo_feature_waivers :: "string list"

text \<open>
  What the file system and the libraries answer: the text of \<open>src/main.rs\<close> below a task directory, the
  tree of a text, the \<open>Cargo.toml\<close> of a task directory and the one two levels above it.
\<close>

datatype workspace_file = Ws_no_root | Ws_unreadable string | Ws_text string

record lint_env =
  main_rs :: "string \<Rightarrow> string option"
  syn_parse :: "string \<Rightarrow> node list option"
  task_cargo :: "string \<Rightarrow> cargo_file"
  workspace_cargo :: "string \<Rightarrow> workspace_file"
  dir_exists :: "string \<Rightarrow> bool"
  manifest_text :: "string \<Rightarrow> string option"
  toml_entries :: "string \<Rightarrow> LintEntry list option"

section \<open>Rules on files\<close>

datatype panic_error = No_workspace_root | Workspace_unreadable string | Panic_abort_missing

definition check_panic_abort :: "lint_env \<Rightarrow> string \<Rightarrow> panic_error + unit" where
  "check_panic_abort env task_dir =
     (case workspace_cargo env task_dir of
        Ws_no_root \<Rightarrow> Inl No_workspace_root
      | Ws_unreadable e \<Rightarrow> Inl (Workspace_unreadable e)
      | Ws_text content \<Rightarrow>
          if \<not> contains content (''panic = '' @ [CHR 0x22] @ ''abort'' @ [CHR 0x22])
          then Inl Panic_abort_missing else Inr ())"

datatype waiver_problem = Orphan string | Default_on string

datatype drift_error = Cannot_read | Cargo_parse string | Features_no_table
  | Features_absent "string list" | Drift "waiver_problem list"

definition waiver_errs :: "(string \<times> toml_value) list \<Rightarrow> string list \<Rightarrow> waiver_problem list" where
  "waiver_errs features waivers =
     concat (map (\<lambda>w. if map_of features w = None then [Orphan w]
       else if w \<in> set (default_features features) then [Default_on w] else []) waivers)"

definition check_demo_waivers_cargo :: "cargo_file \<Rightarrow> string list \<Rightarrow> drift_error + unit" where
  "check_demo_waivers_cargo cargo waivers =
     (if waivers = [] then Inr ()
      else case cargo of
          Cargo_missing \<Rightarrow> Inl Cannot_read
        | Cargo_unreadable e \<Rightarrow> Inl Cannot_read
        | Cargo_not_toml e \<Rightarrow> Inl (Cargo_parse e)
        | Cargo parsed \<Rightarrow>
            (case toml_get ''features'' parsed of
               None \<Rightarrow> Inl (Features_absent waivers)
             | Some (TTable features) \<Rightarrow>
                 (let errs = waiver_errs features waivers in if errs = [] then Inr () else Inl (Drift errs))
             | Some _ \<Rightarrow> Inl Features_no_table))"

section \<open>The twelve rules\<close>

datatype lint_failure = F_unsafe nat | F_alloc nat | F_asm nat | F_foreign nat | F_recursion "string list"
  | F_dyn nat nat | F_panic panic_error | F_init_array | F_atomic nat | F_mmio nat | F_drift drift_error

datatype waiver_log = W_unsafe_tier string | W_unsafe nat | W_alloc nat | W_asm_tier | W_asm nat | W_atomic nat | W_mmio nat

record LintResult =
  rules_passed :: "string list"
  rules_failed :: "lint_failure list"
  waivers_logged :: "waiver_log list"

definition no_rules :: LintResult where
  "no_rules = \<lparr>rules_passed = [], rules_failed = [], waivers_logged = []\<rparr>"

definition passes :: "string \<Rightarrow> LintResult \<Rightarrow> LintResult" where
  "passes rule r = r\<lparr>rules_passed := rules_passed r @ [rule]\<rparr>"

definition fails :: "lint_failure \<Rightarrow> LintResult \<Rightarrow> LintResult" where
  "fails f r = r\<lparr>rules_failed := rules_failed r @ [f]\<rparr>"

definition logs :: "waiver_log \<Rightarrow> LintResult \<Rightarrow> LintResult" where
  "logs w r = r\<lparr>waivers_logged := waivers_logged r @ [w]\<rparr>"

definition counter_rule ::
  "string \<Rightarrow> nat \<Rightarrow> nat \<Rightarrow> (nat \<Rightarrow> lint_failure) \<Rightarrow> (nat \<Rightarrow> waiver_log) \<Rightarrow> LintResult \<Rightarrow> LintResult" where
  "counter_rule rule violations waived f w r =
     (if violations > 0 then fails (f violations) r
      else passes rule (if waived > 0 then logs (w waived) r else r))"

definition plain_rule :: "string \<Rightarrow> lint_failure option \<Rightarrow> LintResult \<Rightarrow> LintResult" where
  "plain_rule rule failure r = (case failure of Some f \<Rightarrow> fails f r | None \<Rightarrow> passes rule r)"

definition init_array_text :: string where
  "init_array_text = ''link_section = '' @ [CHR 0x22] @ ''.init_array'' @ [CHR 0x22]"

definition foreign_rule :: string where
  "foreign_rule = ''extern '' @ [CHR 0x22] @ ''C'' @ [CHR 0x22] @ '' foreign block''"

definition lint_rules :: "lint_env \<Rightarrow> LintEntry \<Rightarrow> string \<Rightarrow> string \<Rightarrow> node list \<Rightarrow> LintResult" where
  "lint_rules env task task_dir content ast =
     (let tier = l_trust_tier task;
          fv = fv_visits ast (fv_new (l_demo_feature_waivers task));
          r = no_rules;
          r = (if tier = ''trusted_unsafe''
               then passes ''unsafe blocks (waived)'' (logs (W_unsafe_tier (l_waiver_reason task)) r)
               else counter_rule ''unsafe blocks'' (unsafe_violations fv) (unsafe_waived fv) F_unsafe W_unsafe r);
          r = counter_rule ''extern crate alloc'' (alloc_violations fv) (alloc_waived fv) F_alloc W_alloc r;
          r = (if tier = ''trusted_unsafe'' then passes ''core::arch::asm! (waived)'' (logs W_asm_tier r)
               else counter_rule ''core::arch::asm!'' (asm_violations fv) (asm_waived fv) F_asm W_asm r);
          ffi_count = count_foreign_mods ast;
          r = plain_rule foreign_rule (if ffi_count > 0 then Some (F_foreign ffi_count) else None) r;
          recursive = find_direct_recursion ast;
          r = plain_rule ''direct recursion'' (if recursive \<noteq> [] then Some (F_recursion recursive) else None) r;
          (dyn_count, fnptr_count) = count_dyn_fnptr ast;
          r = plain_rule ''dyn Trait / fn ptr''
                (if dyn_count > 0 \<or> fnptr_count > 0 then Some (F_dyn dyn_count fnptr_count) else None) r;
          r = plain_rule ''panic = abort''
                (case check_panic_abort env task_dir of Inl e \<Rightarrow> Some (F_panic e) | Inr _ \<Rightarrow> None) r;
          r = plain_rule ''.init_array'' (if contains content init_array_text then Some F_init_array else None) r;
          r = passes ''F/D float (target gate)'' r;
          r = counter_rule ''core::sync::atomic'' (atomic_violations fv) (atomic_waived fv) F_atomic W_atomic r;
          r = counter_rule ''MMIO direct cast'' (mmio_violations fv) (mmio_waived fv) F_mmio W_mmio r
      in plain_rule ''demo_feature_waivers drift''
           (case check_demo_waivers_cargo (task_cargo env task_dir) (l_demo_feature_waivers task) of
              Inl e \<Rightarrow> Some (F_drift e) | Inr _ \<Rightarrow> None) r)"

datatype lint_error = L_invalid_dal string | L_invalid_tier string | L_dal_forbids DalLevel
  | L_cannot_read string | L_syn_error | L_rules_failed "lint_failure list"

record lint_report =
  rep_name :: string
  rep_tier :: string
  rep_waivers :: "string list"
  rep_passed :: nat
  rep_logged :: "waiver_log list"

text \<open>The lint has its own copy of the level parser.\<close>

definition parse_dal :: "string \<Rightarrow> lint_error + DalLevel" where
  "parse_dal s =
     (if s = ''A'' then Inr DAL_A else if s = ''B'' then Inr DAL_B
      else if s = ''C'' then Inr DAL_C else if s = ''D'' then Inr DAL_D else Inl (L_invalid_dal s))"

definition lint_task :: "lint_env \<Rightarrow> LintEntry \<Rightarrow> string \<Rightarrow> lint_error + lint_report" where
  "lint_task env task task_dir =
     and_then (parse_dal (l_dal_level task)) (\<lambda>dal.
       let tier = l_trust_tier task in
       if tier \<noteq> ''safe'' \<and> tier \<noteq> ''trusted_unsafe'' then Inl (L_invalid_tier tier)
       else if tier = ''trusted_unsafe'' \<and> (dal = DAL_A \<or> dal = DAL_B) then Inl (L_dal_forbids dal)
       else case main_rs env task_dir of
           None \<Rightarrow> Inl (L_cannot_read task_dir)
         | Some content \<Rightarrow>
             (case syn_parse env content of
                None \<Rightarrow> Inl L_syn_error
              | Some ast \<Rightarrow>
                  (let result = lint_rules env task task_dir content ast
                   in if rules_failed result \<noteq> [] then Inl (L_rules_failed (rules_failed result))
                      else Inr \<lparr>rep_name = l_name task, rep_tier = tier, rep_waivers = l_demo_feature_waivers task,
                        rep_passed = length (rules_passed result), rep_logged = waivers_logged result\<rparr>)))"

section \<open>Command line (main.rs)\<close>

record lint_options =
  lo_manifest :: "string option"
  lo_tasks_dir :: "string option"

text \<open>\<open>parse_args\<close>: \<open>Inl\<close> is an exit code.\<close>

fun lint_arg_loop :: "string list \<Rightarrow> lint_options \<Rightarrow> nat + lint_options" where
  "lint_arg_loop [] o' = Inr o'"
| "lint_arg_loop (a # rest) o' =
     (if a = ''--manifest'' then
        (case rest of [] \<Rightarrow> Inl 2 | v # rest' \<Rightarrow> lint_arg_loop rest' (o'\<lparr>lo_manifest := Some v\<rparr>))
      else if a = ''--tasks-dir'' then
        (case rest of [] \<Rightarrow> Inl 2 | v # rest' \<Rightarrow> lint_arg_loop rest' (o'\<lparr>lo_tasks_dir := Some v\<rparr>))
      else if a = ''--help'' \<or> a = ''-h'' then Inl 0
      else Inl 2)"

definition lint_args :: "string list \<Rightarrow> nat + (string \<times> string)" where
  "lint_args args =
     and_then (lint_arg_loop args \<lparr>lo_manifest = None, lo_tasks_dir = None\<rparr>) (\<lambda>o'.
       case (lo_manifest o', lo_tasks_dir o') of
         (Some m, Some td) \<Rightarrow> Inr (m, td) | _ \<Rightarrow> Inl 2)"

text \<open>The entries that have a directory, and the answer for each.\<close>

definition lint_answers :: "lint_env \<Rightarrow> string \<Rightarrow> LintEntry list \<Rightarrow> (lint_error + lint_report) list" where
  "lint_answers env tasks_dir tasks =
     map (\<lambda>t. lint_task env t (path_join tasks_dir (l_name t)))
       (filter (\<lambda>t. dir_exists env (path_join tasks_dir (l_name t))) tasks)"

definition lint_main :: "lint_env \<Rightarrow> string list \<Rightarrow> nat" where
  "lint_main env args =
     (case lint_args args of
        Inl code \<Rightarrow> code
      | Inr (manifest_path, tasks_dir) \<Rightarrow>
          (case manifest_text env manifest_path of
             None \<Rightarrow> 2
           | Some content \<Rightarrow>
               (case toml_entries env content of
                  None \<Rightarrow> 2
                | Some tasks \<Rightarrow>
                    (let fail_count = length (filter (\<lambda>a. case a of Inl _ \<Rightarrow> True | Inr _ \<Rightarrow> False)
                           (lint_answers env tasks_dir tasks))
                     in if fail_count > 0 then 1 else 0))))"

section \<open>What the visitors compute\<close>

text \<open>All kinds below a list of nodes, and those outside every waived scope.\<close>

fun kinds :: "node list \<Rightarrow> kind list" where
  "kinds [] = []"
| "kinds (Item_Fn u name attrs sg block # ns) = kinds sg @ kinds block @ kinds ns"
| "kinds (Node kd attrs children # ns) = kd # kinds children @ kinds ns"

fun open_kinds :: "string list \<Rightarrow> node list \<Rightarrow> kind list" where
  "open_kinds ws [] = []"
| "open_kinds ws (Item_Fn u name attrs sg block # ns) =
     (if is_waived_cfg ws attrs then [] else open_kinds ws sg @ open_kinds ws block) @ open_kinds ws ns"
| "open_kinds ws (Node kd attrs children # ns) =
     (if is_waived_cfg ws (scope_attrs kd attrs) then [] else kd # open_kinds ws children) @ open_kinds ws ns"

text \<open>The constructs the rules forbid.\<close>

fun construct :: "kind \<Rightarrow> Kind option" where
  "construct (Item_ExternCrate i) = (if i = ''alloc'' then Some Alloc else None)"
| "construct (Item_Use t) =
     (if \<exists>p\<in>set (collect_use_paths t []). take 3 p = ATOMIC then Some Atomic else None)"
| "construct (Item_Macro p) = (if is_asm_macro p then Some Asm else None)"
| "construct (Expr_Macro p) = (if is_asm_macro p then Some Asm else None)"
| "construct (Stmt_Macro p) = (if is_asm_macro p then Some Asm else None)"
| "construct Expr_Unsafe = Some Unsafe"
| "construct (Expr_Path p) =
     (if take 3 p = ARCH_ASM then Some Asm else if take 3 p = ATOMIC then Some Atomic else None)"
| "construct (Type_Path p) = (if take 3 p = ATOMIC then Some Atomic else None)"
| "construct (Expr_Cast is_int_literal is_raw_ptr) = (if is_int_literal \<and> is_raw_ptr then Some Mmio else None)"
| "construct _ = None"

abbreviation forbids :: "Kind \<Rightarrow> kind \<Rightarrow> bool" where
  "forbids kd k \<equiv> construct k = Some kd"

primrec violations :: "Kind \<Rightarrow> ForbiddenVisitor \<Rightarrow> nat" where
  "violations Unsafe v = unsafe_violations v"
| "violations Alloc v = alloc_violations v"
| "violations Asm v = asm_violations v"
| "violations Atomic v = atomic_violations v"
| "violations Mmio v = mmio_violations v"

primrec waiveds :: "Kind \<Rightarrow> ForbiddenVisitor \<Rightarrow> nat" where
  "waiveds Unsafe v = unsafe_waived v"
| "waiveds Alloc v = alloc_waived v"
| "waiveds Asm v = asm_waived v"
| "waiveds Atomic v = atomic_waived v"
| "waiveds Mmio v = mmio_waived v"

lemma zip_equal: "length xs = length ys \<Longrightarrow> list_all (\<lambda>(s, q). s = q) (zip xs ys) \<longleftrightarrow> xs = ys"
  by (induction xs ys rule: list_induct2) auto

lemma path_starts_with_iff: "path_starts_with p q \<longleftrightarrow> take (length q) p = q"
  by (auto simp: path_starts_with_def zip_equal)

lemma prefix_tests:
  "path_starts_with p ATOMIC \<longleftrightarrow> take 3 p = ATOMIC" "path_starts_with p ARCH_ASM \<longleftrightarrow> take 3 p = ARCH_ASM"
  by (simp_all add: path_starts_with_iff ATOMIC_def ARCH_ASM_def numeral_3_eq_3)

lemma bump_fields [simp]:
  "demo_waivers (bump kd v) = demo_waivers v" "in_waived_scope (bump kd v) = in_waived_scope v"
  "violations kd' (bump kd v) = violations kd' v + (if kd' = kd \<and> in_waived_scope v = 0 then 1 else 0)"
  "waiveds kd' (bump kd v) = waiveds kd' v + (if kd' = kd \<and> 0 < in_waived_scope v then 1 else 0)"
  by (cases kd; cases kd'; cases "in_waived_scope v"; simp add: bump_def)+

lemma scope_fields [simp]:
  "demo_waivers (enter_scope w v) = demo_waivers v" "demo_waivers (leave_scope w v) = demo_waivers v"
  "violations kd (enter_scope w v) = violations kd v" "violations kd (leave_scope w v) = violations kd v"
  "waiveds kd (enter_scope w v) = waiveds kd v" "waiveds kd (leave_scope w v) = waiveds kd v"
  "in_waived_scope (enter_scope w v) = in_waived_scope v + (if w then 1 else 0)"
  "in_waived_scope (leave_scope w v) = in_waived_scope v - (if w then 1 else 0)"
  by (cases kd; simp add: enter_scope_def leave_scope_def)+

lemma node_checks_eq: "node_checks k v = (case construct k of None \<Rightarrow> v | Some kd \<Rightarrow> bump kd v)"
  by (cases k) (simp_all add: prefix_tests list_ex_iff)

lemma node_checks_fields [simp]:
  "demo_waivers (node_checks k v) = demo_waivers v" "in_waived_scope (node_checks k v) = in_waived_scope v"
  "violations kd (node_checks k v) = violations kd v + (if forbids kd k \<and> in_waived_scope v = 0 then 1 else 0)"
  "waiveds kd (node_checks k v) = waiveds kd v + (if forbids kd k \<and> 0 < in_waived_scope v then 1 else 0)"
  by (auto simp: node_checks_eq split: option.splits)

text \<open>
  The single pass keeps its scope depth, counts as violations exactly the constructs outside every
  waived scope, and misses none: what is not a violation is counted as waived.
\<close>

definition found :: "Kind \<Rightarrow> kind list \<Rightarrow> nat" where
  "found kd ks = length (filter (forbids kd) ks)"

lemma found_simps [simp]:
  "found kd [] = 0" "found kd (k # ks) = (if forbids kd k then 1 else 0) + found kd ks"
  "found kd (ks @ ks') = found kd ks + found kd ks'"
  by (simp_all add: found_def)

lemma fv_visit_counts:
  "in_waived_scope (fv_visit n v) = in_waived_scope v \<and> demo_waivers (fv_visit n v) = demo_waivers v
   \<and> violations kd (fv_visit n v) = violations kd v
       + (if in_waived_scope v = 0 then found kd (open_kinds (demo_waivers v) [n]) else 0)
   \<and> violations kd (fv_visit n v) + waiveds kd (fv_visit n v) = violations kd v + waiveds kd v + found kd (kinds [n])"
  and fv_visits_counts:
  "in_waived_scope (fv_visits ns v) = in_waived_scope v \<and> demo_waivers (fv_visits ns v) = demo_waivers v
   \<and> violations kd (fv_visits ns v) = violations kd v
       + (if in_waived_scope v = 0 then found kd (open_kinds (demo_waivers v) ns) else 0)
   \<and> violations kd (fv_visits ns v) + waiveds kd (fv_visits ns v) = violations kd v + waiveds kd v + found kd (kinds ns)"
proof (induction n v and ns v rule: fv_visit_fv_visits.induct)
  case (1 u name attrs sg block v)
  show ?case using 1(1) [OF refl refl] 1(2) [OF refl refl]
    by (cases "is_waived_cfg (demo_waivers v) attrs") (simp_all add: Let_def)
next
  case (2 kd' attrs children v)
  show ?case using 2(1) [OF refl refl refl, unfolded node_checks_fields scope_fields]
    by (cases "is_waived_cfg (demo_waivers v) (scope_attrs kd' attrs)"; cases "in_waived_scope v = 0"; cases "forbids kd kd'";
        simp add: Let_def)
next
  case (4 n ns v)
  have k: "kinds (n # ns) = kinds [n] @ kinds ns" "open_kinds w (n # ns) = open_kinds w [n] @ open_kinds w ns" for w
    by (cases n; simp)+
  show ?case unfolding k fv_visits.simps found_simps using 4 by simp
qed simp

lemma fv_new_fields [simp]:
  "demo_waivers (fv_new ws) = ws" "in_waived_scope (fv_new ws) = 0" "violations kd (fv_new ws) = 0" "waiveds kd (fv_new ws) = 0"
  by (cases kd; simp add: fv_new_def)+

lemma violations_zero_iff:
  "violations kd (fv_visits ns (fv_new ws)) = 0 \<longleftrightarrow> (\<forall>k\<in>set (open_kinds ws ns). \<not> forbids kd k)"
  using fv_visits_counts [of ns "fv_new ws" kd] by (simp add: found_def filter_empty_conv)

text \<open>Visitors that count a hit and do not look below it: they count none exactly when there is none.\<close>

locale stopping_counter =
  fixes visit :: "node \<Rightarrow> 's \<Rightarrow> 's" and visits :: "node list \<Rightarrow> 's \<Rightarrow> 's" and hit :: "kind \<Rightarrow> bool" and weight :: "'s \<Rightarrow> nat"
  assumes visit_fn: "visit (Item_Fn u name attrs sg block) s = visits block (visits sg s)"
    and visit_hit: "hit kd \<Longrightarrow> weight (visit (Node kd attrs children) s) = weight s + 1"
    and visit_miss: "\<not> hit kd \<Longrightarrow> visit (Node kd attrs children) s = visits children s"
    and visits_Nil: "visits [] s = s"
    and visits_Cons: "visits (n # ns) s = visits ns (visit n s)"
begin

lemma weight_grows: "weight s \<le> weight (visits ns s)"
proof (induction ns arbitrary: s rule: kinds.induct)
  case (2 u name attrs sg block ns)
  show ?case unfolding visits_Cons visit_fn by (rule order_trans [OF 2(1) order_trans [OF 2(2,3)]])
next
  case (3 kd attrs children ns)
  have "weight s \<le> weight (visit (Node kd attrs children) s)"
    using 3(1) by (cases "hit kd") (simp_all add: visit_hit visit_miss)
  then show ?case unfolding visits_Cons by (rule order_trans [OF _ 3(2)])
qed (simp add: visits_Nil)

lemma counts_none_iff: "weight (visits ns s) = weight s \<longleftrightarrow> (\<forall>k\<in>set (kinds ns). \<not> hit k)"
proof (induction ns arbitrary: s rule: kinds.induct)
  case (2 u name attrs sg block ns)
  have "weight (visits ns (visits block (visits sg s))) = weight s \<longleftrightarrow>
      weight (visits sg s) = weight s \<and> weight (visits block (visits sg s)) = weight (visits sg s)
      \<and> weight (visits ns (visits block (visits sg s))) = weight (visits block (visits sg s))"
    using weight_grows [of s sg] weight_grows [of "visits sg s" block] weight_grows [of "visits block (visits sg s)" ns] by linarith
  then show ?case unfolding visits_Cons visit_fn using 2 by auto
next
  case (3 kd attrs children ns)
  show ?case
  proof (cases "hit kd")
    case True
    then show ?thesis
      using weight_grows [of "visit (Node kd attrs children) s" ns] visit_hit [OF True, of attrs children s] by (simp add: visits_Cons)
  next
    case False
    have "weight (visits ns (visits children s)) = weight s \<longleftrightarrow> weight (visits children s) = weight s
        \<and> weight (visits ns (visits children s)) = weight (visits children s)"
      using weight_grows [of s children] weight_grows [of "visits children s" ns] by linarith
    then show ?thesis using False 3 by (auto simp: visits_Cons visit_miss)
  qed
qed (simp add: visits_Nil)

end

interpretation foreign: stopping_counter foreign_visit foreign_visits "\<lambda>k. k = Item_ForeignMod" "\<lambda>c. c"
  by unfold_locales simp_all

interpretation dyn: stopping_counter dyn_visit dyn_visits "\<lambda>k. k = Type_TraitObject \<or> k = Type_BareFn" "\<lambda>c. fst c + snd c"
  by unfold_locales auto

lemma call_visits_iff: "call_visits target ns b \<longleftrightarrow> b \<or> (\<exists>k\<in>set (kinds ns). calls_fn target k)"
proof (induction ns arbitrary: b rule: kinds.induct)
qed auto

lemma find_direct_recursion_Nil_iff:
  "find_direct_recursion ns = [] \<longleftrightarrow>
     (\<forall>u name attrs sg block. Item_Fn u name attrs sg block \<in> set ns \<longrightarrow> (\<forall>k\<in>set (kinds block). \<not> calls_fn name k))"
  (is "_ \<longleftrightarrow> ?free (set ns)")
proof (induction ns)
  case (Cons n ns)
  show ?case
  proof (cases n)
    case (Item_Fn u name attrs sg block)
    have "?free (set (n # ns)) \<longleftrightarrow> (\<forall>k\<in>set (kinds block). \<not> calls_fn name k) \<and> ?free (set ns)"
      using Item_Fn by fastforce
    then show ?thesis using Cons.IH Item_Fn by (simp add: call_visits_iff)
  next
    case (Node kd attrs children)
    then show ?thesis using Cons.IH by simp
  qed
qed simp

section \<open>What an accepted task satisfies\<close>

definition tier_policy :: "LintEntry \<Rightarrow> bool" where
  "tier_policy t \<longleftrightarrow> l_dal_level t \<in> {''A'', ''B'', ''C'', ''D''}
     \<and> (l_trust_tier t = ''safe'' \<or> l_trust_tier t = ''trusted_unsafe'' \<and> l_dal_level t \<in> {''C'', ''D''})"

definition source_clean :: "LintEntry \<Rightarrow> string \<Rightarrow> node list \<Rightarrow> bool" where
  "source_clean t src ast \<longleftrightarrow>
     (\<forall>k\<in>set (open_kinds (l_demo_feature_waivers t) ast).
        construct k \<noteq> Some Alloc \<and> construct k \<noteq> Some Atomic \<and> construct k \<noteq> Some Mmio
        \<and> (l_trust_tier t = ''trusted_unsafe'' \<or> construct k \<noteq> Some Unsafe \<and> construct k \<noteq> Some Asm))
     \<and> (\<forall>k\<in>set (kinds ast). k \<noteq> Item_ForeignMod \<and> k \<noteq> Type_TraitObject \<and> k \<noteq> Type_BareFn)
     \<and> (\<forall>u name attrs sg block. Item_Fn u name attrs sg block \<in> set ast \<longrightarrow> (\<forall>k\<in>set (kinds block). \<not> calls_fn name k))
     \<and> \<not> contains src init_array_text"

definition waivers_declared :: "cargo_file \<Rightarrow> string list \<Rightarrow> bool" where
  "waivers_declared cargo ws \<longleftrightarrow> ws = [] \<or>
     (\<exists>parsed features. cargo = Cargo parsed \<and> toml_get ''features'' parsed = Some (TTable features)
        \<and> (\<forall>w\<in>set ws. w \<in> fst ` set features \<and> w \<notin> set (default_features features)))"

definition panics_abort :: "workspace_file \<Rightarrow> bool" where
  "panics_abort ws \<longleftrightarrow> (\<exists>content. ws = Ws_text content \<and> contains content (''panic = '' @ [CHR 0x22] @ ''abort'' @ [CHR 0x22]))"

lemma rule_fields [simp]:
  "rules_failed (passes n r) = rules_failed r" "rules_failed (logs w r) = rules_failed r"
  "rules_failed (fails fl r) = rules_failed r @ [fl]" "rules_failed no_rules = []"
  "rules_failed (counter_rule n x y cf cw r) = rules_failed r @ (if 0 < x then [cf x] else [])"
  "rules_failed (plain_rule n o' r) = rules_failed r @ (case o' of Some f0 \<Rightarrow> [f0] | None \<Rightarrow> [])"
  by (simp_all add: passes_def logs_def fails_def no_rules_def counter_rule_def plain_rule_def split: option.splits)

definition rules_run :: "LintResult \<Rightarrow> nat" where
  "rules_run r = length (rules_passed r) + length (rules_failed r)"

lemma rules_run_simps [simp]:
  "rules_run (passes n r) = Suc (rules_run r)" "rules_run (logs w r) = rules_run r"
  "rules_run (fails fl r) = Suc (rules_run r)" "rules_run no_rules = 0"
  "rules_run (counter_rule n x y cf cw r) = Suc (rules_run r)" "rules_run (plain_rule n o' r) = Suc (rules_run r)"
  by (simp_all add: rules_run_def passes_def logs_def fails_def no_rules_def counter_rule_def plain_rule_def split: option.splits)

lemma twelve_rules: "rules_run (lint_rules env t dir src ast) = 12"
  by (simp add: lint_rules_def Let_def split: prod.splits)

lemma check_panic_iff: "check_panic_abort env dir = Inr () \<longleftrightarrow> panics_abort (workspace_cargo env dir)"
  by (auto simp: check_panic_abort_def panics_abort_def split: workspace_file.splits)

lemma waiver_errs_Nil_iff:
  "waiver_errs features ws = [] \<longleftrightarrow> (\<forall>w\<in>set ws. w \<in> fst ` set features \<and> w \<notin> set (default_features features))"
  unfolding waiver_errs_def concat_map_Nil by (auto simp: map_of_eq_None_iff split: if_splits)

lemma check_waivers_iff: "check_demo_waivers_cargo cargo ws = Inr () \<longleftrightarrow> waivers_declared cargo ws"
  by (cases cargo; cases "ws = []")
    (auto simp: check_demo_waivers_cargo_def waivers_declared_def waiver_errs_Nil_iff Let_def split: option.splits toml_value.splits)

lemma sum_unit_option: "(case r of Inl e \<Rightarrow> Some (f e) | Inr _ \<Rightarrow> None) = None \<longleftrightarrow> r = Inr ()"
  by (cases r) simp_all

lemma option_list_Nil: "(case o' of Some x \<Rightarrow> [x] | None \<Rightarrow> []) = [] \<longleftrightarrow> o' = None"
  by (cases o') simp_all

lemma dyn_none_iff:
  "count_dyn_fnptr ast = (0, 0) \<longleftrightarrow> (\<forall>k\<in>set (kinds ast). k \<noteq> Type_TraitObject \<and> k \<noteq> Type_BareFn)"
  using dyn.counts_none_iff [of ast "(0, 0)"] by (cases "count_dyn_fnptr ast") (auto simp: count_dyn_fnptr_def)

lemma rules_failed_iff:
  assumes "l_trust_tier t = ''safe'' \<or> l_trust_tier t = ''trusted_unsafe''"
  shows "rules_failed (lint_rules env t dir src ast) = [] \<longleftrightarrow>
     source_clean t src ast \<and> panics_abort (workspace_cargo env dir)
     \<and> waivers_declared (task_cargo env dir) (l_demo_feature_waivers t)"
proof -
  let ?v = "\<lambda>kd. violations kd (fv_visits ast (fv_new (l_demo_feature_waivers t))) = 0"
  obtain d f where df: "count_dyn_fnptr ast = (d, f)" by fastforce
  have "rules_failed (lint_rules env t dir src ast) = [] \<longleftrightarrow>
      (l_trust_tier t = ''trusted_unsafe'' \<or> ?v Unsafe \<and> ?v Asm) \<and> ?v Alloc \<and> ?v Atomic \<and> ?v Mmio
      \<and> count_foreign_mods ast = 0 \<and> find_direct_recursion ast = [] \<and> count_dyn_fnptr ast = (0, 0)
      \<and> check_panic_abort env dir = Inr () \<and> \<not> contains src init_array_text
      \<and> check_demo_waivers_cargo (task_cargo env dir) (l_demo_feature_waivers t) = Inr ()"
    by (auto simp: lint_rules_def Let_def df option_list_Nil sum_unit_option)
  also have "count_foreign_mods ast = 0 \<longleftrightarrow> (\<forall>k\<in>set (kinds ast). k \<noteq> Item_ForeignMod)"
    unfolding count_foreign_mods_def by (rule foreign.counts_none_iff)
  finally show ?thesis
    unfolding violations_zero_iff find_direct_recursion_Nil_iff dyn_none_iff check_panic_iff check_waivers_iff source_clean_def
    by (cases "l_trust_tier t = ''trusted_unsafe''") (simp_all only: ball_conj_distrib simp_thms, argo+)
qed


text \<open>An accepted task has passed all twelve rules.\<close>

lemma twelve_passed: "rules_failed (lint_rules env t dir src ast) = [] \<Longrightarrow> length (rules_passed (lint_rules env t dir src ast)) = 12"
  using twelve_rules [of env t dir src ast] by (simp add: rules_run_def)

lemma lint_report_complete: "lint_task env t dir = Inr rep \<Longrightarrow> rep_passed rep = 12"
  by (auto simp: lint_task_def and_then_Inr_iff Let_def twelve_passed split: if_splits option.splits)

text \<open>The tool exits with 0 only when it accepts every task of the manifest that has a directory.\<close>

lemma lint_main_accepts:
  assumes "lint_args args = Inr (mp, td)" "lint_main env args = 0"
  shows "\<exists>content tasks. manifest_text env mp = Some content \<and> toml_entries env content = Some tasks
    \<and> (\<forall>t\<in>set tasks. dir_exists env (path_join td (l_name t)) \<longrightarrow> lint_task env t (path_join td (l_name t)) \<in> range Inr)"
proof -
  obtain content tasks where c: "manifest_text env mp = Some content" "toml_entries env content = Some tasks"
    and none: "filter (\<lambda>a. case a of Inl _ \<Rightarrow> True | Inr _ \<Rightarrow> False) (lint_answers env td tasks) = []"
    using assms by (auto simp: lint_main_def Let_def split: option.splits if_splits)
  have "lint_task env t (path_join td (l_name t)) \<in> range Inr"
    if "t \<in> set tasks" "dir_exists env (path_join td (l_name t))" for t
  proof -
    have "lint_task env t (path_join td (l_name t)) \<in> set (lint_answers env td tasks)"
      using that by (auto simp: lint_answers_def)
    with none show ?thesis by (cases "lint_task env t (path_join td (l_name t))") (auto simp: filter_empty_conv)
  qed
  with c show ?thesis by blast
qed

text \<open>
  The drift guard agrees with the validator: on a manifest the validator accepts, the policy and the
  waiver rule of the lint pass for every task whose \<open>Cargo.toml\<close> both tools read alike.
\<close>

definition lint_entry :: "TaskEntry \<Rightarrow> LintEntry" where
  "lint_entry t = \<lparr>l_name = t_name t, l_dal_level = t_dal_level t, l_trust_tier = t_trust_tier t,
     l_waiver_reason = t_waiver_reason t, l_demo_feature_waivers = t_demo_feature_waivers t\<rparr>"

lemma validated_task_policy:
  assumes "validate_all m (Some cargo) = Inr ()" "t \<in> set (m_tasks m)"
  shows "tier_policy (lint_entry t)" "check_demo_waivers_cargo (cargo (t_name t)) (l_demo_feature_waivers (lint_entry t)) = Inr ()"
proof -
  have v: "tier_ok t" "waivers_off cargo t" using assms by (auto simp: validate_all_iff manifest_valid_def)
  then show "tier_policy (lint_entry t)" by (auto simp: tier_ok_def tier_policy_def lint_entry_def)
  show "check_demo_waivers_cargo (cargo (t_name t)) (l_demo_feature_waivers (lint_entry t)) = Inr ()"
    using v(2) unfolding check_waivers_iff waivers_declared_def waivers_off_def lint_entry_def
    by (auto simp: dom_map_of_conv_image_fst)
qed

lemma str_find_append: "str_find p (a @ p @ b) \<noteq> None"
proof (induction a)
  case Nil
  then show ?case using starts_with_append [of p b] by (cases "p @ b") auto
next
  case (Cons c a)
  then show ?case by auto
qed

text \<open>
  The items of \<open>tasks/task_hello/src/main.rs\<close>, abridged to nodes the rules look at: the demo block stores through a literal address and is
  guarded by the waived feature; with the waiver the source is clean, without it it is not.
\<close>

definition hello_main_rs :: "node list" where
  "hello_main_rs =
     [Node (Item_Use (Use_Path ''sipahi_api'' (Use_Name ''syscall''))) [] [],
      Item_Fn False ''_start'' [Attribute [''no_mangle''] (Meta_Path [''no_mangle''])] []
        [Node Expr_Unsafe [Attribute [''cfg''] (Meta_List (waiver_pattern ''cross-isolation-demo''))]
           [Node Other_Node [] [Node (Expr_Cast True True) [] []],
            Node (Expr_Call (Some [''core'', ''ptr'', ''write_volatile''])) []
              [Node (Expr_Path [''core'', ''ptr'', ''write_volatile'']) [] [], Node (Expr_Path [''target'']) [] []]],
         Node (Expr_Call (Some [''main_loop''])) [] [Node (Expr_Path [''main_loop'']) [] []]],
      Item_Fn False ''main_loop'' [] []
        [Node Expr_Other [] [Node (Expr_Call (Some [''syscall'', ''yield_cpu''])) []
           [Node (Expr_Path [''syscall'', ''yield_cpu'']) [] []]]],
      Item_Fn False ''panic'' [Attribute [''panic_handler''] (Meta_Path [''panic_handler''])] []
        [Node (Expr_Call (Some [''syscall'', ''exit''])) [] [Node (Expr_Path [''syscall'', ''exit'']) [] []]]]"

definition hello_lint_entry :: LintEntry where
  "hello_lint_entry = \<lparr>l_name = ''task_hello'', l_dal_level = ''D'', l_trust_tier = ''safe'', l_waiver_reason = [],
     l_demo_feature_waivers = [''cross-isolation-demo'']\<rparr>"

lemma hello_clean:
  "source_clean hello_lint_entry [] hello_main_rs" "\<not> source_clean (hello_lint_entry\<lparr>l_demo_feature_waivers := []\<rparr>) [] hello_main_rs"
proof -
  have w: "contains (waiver_pattern w) (waiver_pattern w)" for w
    using str_find_append [of "waiver_pattern w" "[]" "[]"] by (simp add: contains_def)
  show "source_clean hello_lint_entry [] hello_main_rs"
    using w by (auto simp: source_clean_def hello_lint_entry_def hello_main_rs_def is_waived_cfg_def ATOMIC_def ARCH_ASM_def calls_fn_def
        contains_def init_array_text_def)
  show "\<not> source_clean (hello_lint_entry\<lparr>l_demo_feature_waivers := []\<rparr>) [] hello_main_rs"
    by (simp add: source_clean_def hello_lint_entry_def hello_main_rs_def is_waived_cfg_def)
qed

section \<open>What the lint does not see\<close>

text \<open>
  A waiver is matched as a substring of the condition: whatever stands around the feature, the scope is
  waived. So is \<open>cfg(not(feature = ...))\<close>, compiled exactly when the demo feature is off.
\<close>
lemma cfg_substring_waived:
  assumes "w \<in> set ws"
  shows "open_kinds ws [Node Expr_Unsafe [Attribute [''cfg''] (Meta_List (a @ waiver_pattern w @ b))] body] = []"
  using assms str_find_append [of "waiver_pattern w" a b]
  by (auto simp: is_waived_cfg_def contains_def list_ex_iff)

lemma negated_cfg_waived:
  "open_kinds [''demo''] [Node Expr_Unsafe [Attribute [''cfg''] (Meta_List (''not('' @ waiver_pattern ''demo'' @ '')''))] body] = []"
  by (rule cfg_substring_waived) simp

text \<open>The \<open>unsafe\<close> qualifier of a function is not looked at, though its body needs no unsafe block.\<close>
lemma unsafe_fn_ignored: "open_kinds ws (Item_Fn True name attrs sg block # ns) = open_kinds ws (Item_Fn False name attrs sg block # ns)"
  by simp

text \<open>Atomics reached through a glob import have no path with the forbidden prefix.\<close>
lemma glob_atomics_unseen:
  "construct (Item_Use (Use_Path ''core'' (Use_Path ''sync'' Use_Glob))) = None"
  "construct (Expr_Path [''atomic'', ''AtomicU32'', ''new'']) = None"
  by (simp_all add: ATOMIC_def ARCH_ASM_def)

end
