(* ===== verification/Console.thy ===== *)
theory Console
  imports Rust_Text
begin

text \<open>
  The console: the UART driver (\<open>arch/uart.rs\<close>) and the printing of numbers (\<open>common/fmt.rs\<close>). The
  line status register is read from the device: its readings, one after another, are a function; the
  state keeps how many were taken and the bytes written. Printing gives the digits of the number, and
  a character takes a bounded number of readings.
\<close>

section \<open>UART (uart.rs)\<close>

record console =
  lsr :: "nat \<Rightarrow> u8"
  reads :: nat
  sent :: "u8 list"

text \<open>The wait of \<open>putc\<close>: true when the transmitter was ready within the bound.\<close>

function wait_ready :: "nat \<Rightarrow> console \<Rightarrow> bool \<times> console" where
  "wait_ready attempts con =
     (let v = lsr con (reads con); con = con\<lparr>reads := reads con + 1\<rparr>
      in if v AND 0x20 = 0
         then if 1000 \<le> attempts + 1 then (False, con) else wait_ready (attempts + 1) con
         else (True, con))"
  by pat_completeness auto
termination by (relation "measure (\<lambda>(attempts, _). 1000 - attempts)") auto

declare wait_ready.simps [simp del]

definition putc :: "u8 \<Rightarrow> console \<Rightarrow> console" where
  "putc c con =
     (let (ready, con) = wait_ready 0 con
      in if ready then con\<lparr>sent := sent con @ [c]\<rparr> else con)"

definition puts :: "u8 list \<Rightarrow> console \<Rightarrow> console" where
  "puts s con = fold putc s con"

definition println :: "u8 list \<Rightarrow> console \<Rightarrow> console" where
  "println s con = putc 0x0A (puts s con)"

section \<open>Numbers (fmt.rs)\<close>

text \<open>Digits are stored from the lowest on into a buffer of fixed length, and sent from the highest on.\<close>

function dec_loop :: "'a::len word \<Rightarrow> u8 list \<Rightarrow> nat \<Rightarrow> u8 list \<times> nat" where
  "dec_loop val buf i =
     (if 0 < val \<and> i < length buf
      then dec_loop (val div 10) (buf[i := 48 + ucast (val mod 10)]) (i + 1)
      else (buf, i))"
  by pat_completeness auto
termination by (relation "measure (\<lambda>(val, buf, i). length buf - i)") auto

function hex_loop :: "u64 \<Rightarrow> u8 list \<Rightarrow> nat \<Rightarrow> u8 list \<times> nat" where
  "hex_loop val buf i =
     (if 0 < val \<and> i < length buf
      then hex_loop (drop_bit 4 val) (buf[i := map (\<lambda>c. of_nat (of_char c)) ''0123456789abcdef'' ! unat (val AND 0xF)]) (i + 1)
      else (buf, i))"
  by pat_completeness auto
termination by (relation "measure (\<lambda>(val, buf, i). length buf - i)") auto

declare dec_loop.simps [simp del] hex_loop.simps [simp del]

fun emit_digits :: "u8 list \<Rightarrow> nat \<Rightarrow> console \<Rightarrow> console" where
  "emit_digits buf 0 con = con"
| "emit_digits buf (Suc i) con = emit_digits buf i (putc (buf ! i) con)"

definition print_u32 :: "u32 \<Rightarrow> console \<Rightarrow> console" where
  "print_u32 val con =
     (if val = 0 then putc 48 con
      else let (buf, i) = dec_loop val (replicate 10 0) 0 in emit_digits buf i con)"

definition print_u64 :: "u64 \<Rightarrow> console \<Rightarrow> console" where
  "print_u64 val con =
     (if val = 0 then putc 48 con
      else let (buf, i) = dec_loop val (replicate 20 0) 0 in emit_digits buf i con)"

definition print_hex :: "u64 \<Rightarrow> console \<Rightarrow> console" where
  "print_hex val con =
     (if val = 0 then putc 48 con
      else let (buf, i) = hex_loop val (replicate 16 0) 0 in emit_digits buf i con)"

section \<open>A character takes a bounded time\<close>

definition tx_ready :: "console \<Rightarrow> nat \<Rightarrow> bool" where
  "tx_ready con j \<longleftrightarrow> lsr con (reads con + j) AND 0x20 \<noteq> 0"

lemma tx_ready_next: "tx_ready (con\<lparr>reads := reads con + 1\<rparr>) j = tx_ready con (j + 1)"
  by (simp add: tx_ready_def)

lemma wait_ready_step:
  "wait_ready attempts con =
     (if tx_ready con 0 then (True, con\<lparr>reads := reads con + 1\<rparr>)
      else if 1000 \<le> attempts + 1 then (False, con\<lparr>reads := reads con + 1\<rparr>)
      else wait_ready (attempts + 1) (con\<lparr>reads := reads con + 1\<rparr>))"
  by (subst wait_ready.simps) (simp add: tx_ready_def Let_def)

lemma wait_ready_spec:
  "attempts + k = 1000 \<Longrightarrow> 0 < k \<Longrightarrow> \<exists>n. wait_ready attempts con = (\<exists>j<k. tx_ready con j, con\<lparr>reads := reads con + n\<rparr>) \<and> n \<le> k"
proof (induction k arbitrary: attempts con)
  case (Suc k)
  let ?c = "con\<lparr>reads := reads con + 1\<rparr>"
  have split: "(\<exists>j<Suc k. tx_ready con j) \<longleftrightarrow> tx_ready con 0 \<or> (\<exists>j<k. tx_ready ?c j)"
    unfolding tx_ready_next by (metis Suc_eq_plus1 Suc_less_eq less_Suc_eq_0_disj)
  show ?case
  proof (cases "tx_ready con 0 \<or> k = 0")
    case True
    then show ?thesis using Suc.prems split by (subst wait_ready_step) (auto intro: exI [of _ 1])
  next
    case False
    with Suc.IH [of "attempts + 1" ?c] Suc.prems obtain n where
      n: "wait_ready (attempts + 1) ?c = (\<exists>j<k. tx_ready ?c j, ?c\<lparr>reads := reads ?c + n\<rparr>)" "n \<le> k" by auto
    have "wait_ready attempts con = (\<exists>j<Suc k. tx_ready con j, con\<lparr>reads := reads con + (n + 1)\<rparr>)"
      using False Suc.prems n(1) split by (subst wait_ready_step) simp
    with n(2) show ?thesis by (intro exI [of _ "n + 1"]) simp
  qed
qed simp

text \<open>
  A character is written exactly when the transmitter is ready within a thousand readings, and is
  dropped otherwise; either way at most a thousand readings are taken.
\<close>

lemma putc_bounded:
  "reads (putc c con) \<le> reads con + 1000"
  "sent (putc c con) = (if \<exists>j<1000. tx_ready con j then sent con @ [c] else sent con)"
proof -
  obtain n where "wait_ready 0 con = (\<exists>j<1000. tx_ready con j, con\<lparr>reads := reads con + n\<rparr>)" "n \<le> 1000"
    using wait_ready_spec [of 0 1000 con] by auto
  then show "reads (putc c con) \<le> reads con + 1000"
    "sent (putc c con) = (if \<exists>j<1000. tx_ready con j then sent con @ [c] else sent con)"
    by (simp_all add: putc_def)
qed

section \<open>Printing prints the digits\<close>

definition text_bytes :: "string \<Rightarrow> u8 list" where
  "text_bytes s = map (\<lambda>c. of_nat (of_char c)) s"

fun digits_rev :: "nat \<Rightarrow> nat \<Rightarrow> nat list" where
  "digits_rev radix n = (if n = 0 \<or> radix < 2 then [] else n mod radix # digits_rev radix (n div radix))"

declare digits_rev.simps [simp del]

lemma fmt_radix_digits: "2 \<le> radix \<Longrightarrow> 0 < n \<Longrightarrow> fmt_radix radix n = map digit_char (rev (digits_rev radix n))"
proof (induction n rule: less_induct)
  case (less n)
  show ?case
  proof (cases "n < radix")
    case True
    then have "digits_rev radix (n div radix) = []" by (simp add: digits_rev.simps)
    with True less.prems show ?thesis by (subst fmt_radix.simps, subst digits_rev.simps) simp
  next
    case False
    then have "n div radix < n" "0 < n div radix" using less.prems by (auto intro!: div_less_dividend simp: div_greater_zero_iff)
    with less.IH less.prems False show ?thesis by (subst fmt_radix.simps, subst digits_rev.simps) simp
  qed
qed

lemma length_digits_rev: "2 \<le> radix \<Longrightarrow> n < radix ^ k \<Longrightarrow> length (digits_rev radix n) \<le> k"
proof (induction k arbitrary: n)
  case 0
  then show ?case by (simp add: digits_rev.simps)
next
  case (Suc k)
  then have "n div radix < radix ^ k" by (simp add: less_mult_imp_div_less mult.commute)
  with Suc show ?case by (subst digits_rev.simps) auto
qed

lemma digits_rev_less: "2 \<le> radix \<Longrightarrow> d \<in> set (digits_rev radix n) \<Longrightarrow> d < radix"
proof (induction n rule: less_induct)
  case (less n)
  then have n: "n \<noteq> 0" using digits_rev.simps [of radix 0] by (cases n) auto
  then have "n div radix < n" using less.prems(1) by (auto intro!: div_less_dividend)
  moreover have "d = n mod radix \<or> d \<in> set (digits_rev radix (n div radix))"
    using less.prems n digits_rev.simps [of radix n] by auto
  ultimately show ?case using less.IH less.prems(1) by auto
qed

text \<open>The loops leave the digits, lowest first, in the first places of the buffer.\<close>

lemma emit_digits_puts: "i \<le> length buf \<Longrightarrow> emit_digits buf i con = puts (rev (take i buf)) con"
  by (induction i arbitrary: con) (simp_all add: puts_def take_Suc_conv_app_nth)

locale digit_loop =
  fixes loop :: "'a::len word \<Rightarrow> u8 list \<Rightarrow> nat \<Rightarrow> u8 list \<times> nat" and next_val :: "'a word \<Rightarrow> 'a word"
    and glyph :: "nat \<Rightarrow> u8" and radix :: nat
  assumes loop_step: "loop val buf i =
      (if 0 < val \<and> i < length buf then loop (next_val val) (buf[i := glyph (unat val mod radix)]) (i + 1) else (buf, i))"
    and next_div: "unat (next_val val) = unat val div radix"
    and radix_two: "2 \<le> radix"
    and glyph_digit: "d < radix \<Longrightarrow> glyph d = of_nat (of_char (digit_char d))"
begin

lemma loop_digits:
  "i + length (digits_rev radix (unat val)) \<le> length buf \<Longrightarrow>
     \<exists>buf'. loop val buf i = (buf', i + length (digits_rev radix (unat val))) \<and> length buf' = length buf
       \<and> take (i + length (digits_rev radix (unat val))) buf' = take i buf @ map glyph (digits_rev radix (unat val))"
proof (induction "unat val" arbitrary: val buf i rule: less_induct)
  case less
  show ?case
  proof (cases "val = 0")
    case True
    then show ?thesis by (subst loop_step) (simp add: digits_rev.simps)
  next
    case False
    let ?n = "unat val" and ?b = "buf[i := glyph (unat val mod radix)]"
    have n: "0 < ?n" using False by (simp add: unat_gt_0)
    have d: "digits_rev radix ?n = ?n mod radix # digits_rev radix (?n div radix)" using n radix_two by (subst digits_rev.simps) simp
    then have i: "i < length buf" using less.prems by simp
    have "unat (next_val val) < unat val" unfolding next_div using n radix_two by (intro div_less_dividend) auto
    from less.hyps [OF this, of "i + 1" ?b] less.prems d obtain buf' where
      b: "loop (next_val val) ?b (i + 1) = (buf', i + 1 + length (digits_rev radix (?n div radix)))" "length buf' = length buf"
      "take (i + 1 + length (digits_rev radix (?n div radix))) buf' = take (i + 1) ?b @ map glyph (digits_rev radix (?n div radix))"
      by (auto simp: next_div)
    have "loop val buf i = loop (next_val val) ?b (i + 1)" using False i by (subst loop_step) (simp add: word_neq_0_conv)
    moreover have "take (i + 1) ?b = take i buf @ [glyph (?n mod radix)]" using i by (simp add: take_Suc_conv_app_nth)
    ultimately show ?thesis using b d by auto
  qed
qed

lemma emits_number:
  assumes "val \<noteq> 0" "unat val < radix ^ length buf"
  shows "(let (buf, i) = loop val buf 0 in emit_digits buf i con) = puts (text_bytes (fmt_radix radix (unat val))) con"
proof -
  let ?ds = "digits_rev radix (unat val)"
  have n: "0 < unat val" using assms(1) by (simp add: unat_gt_0)
  have "length ?ds \<le> length buf" by (rule length_digits_rev [OF radix_two assms(2)])
  then obtain buf' where b: "loop val buf 0 = (buf', length ?ds)" "length buf' = length buf" "take (length ?ds) buf' = map glyph ?ds"
    using loop_digits [of 0 val buf] by auto
  have "map glyph ?ds = text_bytes (map digit_char ?ds)"
    using digits_rev_less [OF radix_two] by (auto simp: text_bytes_def glyph_digit)
  then have "rev (take (length ?ds) buf') = text_bytes (fmt_radix radix (unat val))"
    using b(3) fmt_radix_digits [OF radix_two n] by (simp add: text_bytes_def rev_map)
  then show ?thesis using b emit_digits_puts [of "length ?ds" buf' con] \<open>length ?ds \<le> length buf\<close> by simp
qed

end

lemma dec_glyph: "d < 10 \<Longrightarrow> (48 + of_nat d :: u8) = of_nat (of_char (digit_char d))"
  by (simp add: digit_char_def)

lemma hex_glyph: "d < 16 \<Longrightarrow> map (\<lambda>c. of_nat (of_char c)) ''0123456789abcdef'' ! d = (of_nat (of_char (digit_char d)) :: u8)"
proof -
  have "\<forall>d\<in>set [0..<16]. map (\<lambda>c. of_nat (of_char c)) ''0123456789abcdef'' ! d = (of_nat (of_char (digit_char d)) :: u8)"
    by code_simp
  then show "d < 16 \<Longrightarrow> ?thesis" by simp
qed

lemma ucast_of_unat: "(ucast (x :: 'a::len word) :: u8) = of_nat (unat x)"
  by (rule word_unat_eq_iff [THEN iffD2]) (simp add: unsigned_ucast_eq unsigned_of_nat)

lemma low_nibble: "unat ((val :: u64) AND 0xF) = unat val mod 16"
proof -
  have "val AND 0xF = take_bit 4 val" by (simp add: take_bit_eq_mask mask_eq_exp_minus_1)
  then show ?thesis by (simp add: unsigned_take_bit_eq take_bit_nat_def)
qed

interpretation dec32: digit_loop "dec_loop :: u32 \<Rightarrow> _" "\<lambda>v. v div 10" "\<lambda>d. 48 + of_nat d" 10
proof unfold_locales
  show "dec_loop val buf i = (if 0 < val \<and> i < length buf then dec_loop (val div 10) (buf[i := 48 + of_nat (unat val mod 10)]) (i + 1) else (buf, i))"
    for val :: u32 and buf i
    by (subst dec_loop.simps) (simp add: unat_mod ucast_of_unat)
qed (simp_all add: unat_div dec_glyph)

interpretation dec64: digit_loop "dec_loop :: u64 \<Rightarrow> _" "\<lambda>v. v div 10" "\<lambda>d. 48 + of_nat d" 10
proof unfold_locales
  show "dec_loop val buf i = (if 0 < val \<and> i < length buf then dec_loop (val div 10) (buf[i := 48 + of_nat (unat val mod 10)]) (i + 1) else (buf, i))"
    for val :: u64 and buf i
    by (subst dec_loop.simps) (simp add: unat_mod ucast_of_unat)
qed (simp_all add: unat_div dec_glyph)

interpretation hex64: digit_loop hex_loop "drop_bit 4" "\<lambda>d. map (\<lambda>c. of_nat (of_char c)) ''0123456789abcdef'' ! d" 16
proof unfold_locales
  show "hex_loop val buf i = (if 0 < val \<and> i < length buf
      then hex_loop (drop_bit 4 val) (buf[i := map (\<lambda>c. of_nat (of_char c)) ''0123456789abcdef'' ! (unat val mod 16)]) (i + 1) else (buf, i))"
    for val buf i
    by (subst hex_loop.simps) (simp only: low_nibble)
qed (simp_all only: hex_glyph, simp_all add: drop_bit_eq_div unat_div)

text \<open>The defensive bounds of the buffers never cut a number short: each function prints exactly its digits.\<close>

lemma print_numbers:
  "print_u32 a con = puts (text_bytes (fmt_dec (unat a))) con"
  "print_u64 b con = puts (text_bytes (fmt_dec (unat b))) con"
  "print_hex h con = puts (text_bytes (fmt_hex (unat h))) con"
proof -
  have zero: "putc 48 con = puts (text_bytes (fmt_radix r 0)) con" if "2 \<le> r" for r
    using that by (simp add: fmt_radix.simps digit_char_def text_bytes_def puts_def)
  have "unat a < 10 ^ 10" by (rule order_less_le_trans [OF unsigned_less]) simp
  then show "print_u32 a con = puts (text_bytes (fmt_dec (unat a))) con"
    using dec32.emits_number [of a "replicate 10 0" con] zero [of 10] by (simp add: print_u32_def)
  have "unat b < 10 ^ 20" by (rule order_less_le_trans [OF unsigned_less]) simp
  then show "print_u64 b con = puts (text_bytes (fmt_dec (unat b))) con"
    using dec64.emits_number [of b "replicate 20 0" con] zero [of 10] by (simp add: print_u64_def)
  have "unat h < 16 ^ 16" by (rule order_less_le_trans [OF unsigned_less]) simp
  then show "print_hex h con = puts (text_bytes (fmt_hex (unat h))) con"
    using hex64.emits_number [of h "replicate 16 0" con] zero [of 16] by (simp add: print_hex_def)
qed

end
