(* ===== verification/Spec2Isabelle.thy ===== *)
theory Spec2Isabelle
  imports Task_Api Stack_Pipeline Image_Build Task_Lint Console
begin

text \<open>
  Sipahi is a microkernel for one RISC-V hart (\<open>src/src\<close>), with host tools that check, generate and
  package what it boots (\<open>src/tools\<close>), a library for its tasks (\<open>src/sipahi_api\<close>) and two native
  tasks (\<open>src/tasks\<close>). This development models all of them as functions on explicit states and proves
  the properties that make them correct. Paths below are relative to \<open>src/\<close>.

  \<^bold>\<open>The program and its parts.\<close> At build time \<open>sntm-validate\<close> checks the manifest
  \<open>sipahi.toml\<close> and generates the PMP profiles, the capability table, the boot channels and the typed
  channel wrappers; \<open>task-lint\<close> checks the sources of the tasks, \<open>riscv-bin-verify\<close> their binaries and
  \<open>sntm-stack\<close> their stack use, whose report \<open>sntm-validate\<close> reads back; \<open>sntm-pack\<close>,
  \<open>sntm-cert-gen\<close> and \<open>sntm-image\<close> produce the signed image. At run time the kernel boots (checks,
  PMP, keys, loading of the native tasks, sealing of the channels) and enters task 0; from then on it
  runs only in traps: the timer tick drives the scheduler, an \<open>ecall\<close> the system calls, a fault the
  failure policy. A task switch loads the PMP entries of the next task, so the memory a task can reach
  is decided by the manifest, the generator, the boot code and the switch together.

  \<^bold>\<open>Theories, in the order of the imports.\<close>

  \<^item> \<open>Prelude\<close>: the machine integers (words), Rust's checked, saturating and wrapping arithmetic, byte
    and list lemmas, the collections \<open>int_ops\<close> and \<open>inv_intros\<close>. \<open>Config\<close>: \<open>common/config.rs\<close>,
    \<open>types.rs\<close>, \<open>error.rs\<close>.
  \<^item> \<open>Ipc\<close>: \<open>ipc/mod.rs\<close>, CRC32 and the single-producer single-consumer ring. The locale
    \<open>bounded_fifo\<close> is the contract of a bounded queue; its interpretation \<open>spsc\<close> shows that the ring,
    with 16-bit indices that wrap, keeps it with capacity 15. CRC verification detects bursts.
  \<^item> \<open>Blackbox\<close>: \<open>ipc/blackbox.rs\<close>; locale \<open>ring_log\<close> (a log that keeps the last n entries),
    interpreted as \<open>recorder\<close>.
  \<^item> \<open>Capability\<close>: \<open>kernel/capability/\<close>; tokens, keyed hash (parameter), cache, broker, local table.
    Locale \<open>capability_cache\<close>, interpreted as \<open>token_cache\<close>: the branch-free lookup is a plain search.
  \<^item> \<open>Policy\<close>: \<open>kernel/policy/mod.rs\<close>; decision table, lockstep evaluation, restart counters.
  \<^item> \<open>Pmp\<close>, \<open>Pmp_Isolation\<close>: \<open>arch/pmp.rs\<close>, \<open>kernel/pmp/\<close>, \<open>kernel/memory/mod.rs\<close>; register
    writes with the WARL behaviour of the hardware, the matching rule for user accesses, and the exact
    set of addresses a loaded profile grants. \<open>Loader\<close>: \<open>kernel/loader/\<close>.
  \<^item> \<open>Kernel_State\<close>, \<open>Scheduler\<close>, \<open>Scheduler_Inv\<close>: the statics as one record, an operation being a
    function to an \<open>outcome\<close> (returned, halted with a reason, entered a fresh task); every function of
    \<open>kernel/scheduler/mod.rs\<close>, \<open>switch_context\<close> of \<open>arch/context.S\<close>; \<open>kernel_inv\<close>, and that
    every operation keeps it (relation \<open>quiet\<close> for operations that do not switch, \<open>keeps\<close> for all).
  \<^item> \<open>Syscall\<close>, \<open>Syscall_Inv\<close>: \<open>kernel/syscall/dispatch.rs\<close>; pointer checks, six handlers, their
    exact effects. \<open>Trap\<close>: \<open>arch/trap.rs\<close>, \<open>trap.S\<close>, \<open>clint.rs\<close>. \<open>Hal\<close>: \<open>hal/\<close>. \<open>Boot\<close>:
    \<open>boot.rs\<close>, \<open>main.rs\<close>; boot fails closed, and completes on healthy hardware.
  \<^item> \<open>System\<close>: user mode and traps as the step relation \<open>sys_step\<close>; locale \<open>guarded_system\<close>
    (invariants and preorders along runs), interpreted as \<open>sipahi\<close>. Memory isolation, fixed channel
    authority and finality of isolation hold in every state reached from boot. \<open>Demo\<close>: a concrete
    platform and kernel on which the hypotheses hold.
  \<^item> \<open>Rust_Text\<close>: Rust's strings, number formatting and parsing, with their round trips.
  \<^item> \<open>Manifest\<close>, \<open>Manifest_Spec\<close>, \<open>Codegen\<close>, \<open>Channel_Gen\<close>, \<open>Stack_Report\<close>,
    \<open>Sntm_Validate\<close>: \<open>tools/sntm-validate\<close>. The validator decides a specification without loops
    (collection \<open>check_iff\<close>, one fact per check); the tables generated from an accepted manifest
    isolate the tasks once the kernel loads them; the committed generated files are what the generator
    gives for the committed manifest, the channel wrappers character by character.
  \<^item> \<open>Task_Lint\<close>: \<open>tools/task-lint\<close>. The lint decides a specification over the syntax tree; locale
    \<open>stopping_counter\<close> is the contract of the visitors that do not look below a hit (interpretations
    \<open>foreign\<close>, \<open>dyn\<close>). Constructs it does not see are lemmas.
  \<^item> \<open>Bin_Verify\<close>: \<open>tools/riscv-bin-verify\<close>; the scan tiles the code and an accepted binary has none
    of the forbidden instruction classes. \<open>Stack_Tool\<close>, \<open>Stack_Pipeline\<close>: \<open>tools/sntm-stack\<close>;
    the cycle search ends and is exact, and the report read back by the validator bounds every chain of
    direct calls.
  \<^item> \<open>Signing\<close>, \<open>Image\<close>, \<open>Cert_Gen\<close>, \<open>Image_Build\<close>: keys, the boot image, certificates, packing.
    Locale \<open>codec\<close> (encoding, decoding, fixed length), interpreted as \<open>header\<close> and \<open>cert\<close>.
  \<^item> \<open>Task_Api\<close>: \<open>sipahi_api/src/lib.rs\<close>, the generated \<open>channels.rs\<close>, the raw wrappers of
    \<open>kernel/syscall/mod.rs\<close> and the loops of the tasks, on top of the kernel's trap entry: a typed
    channel is a queue of messages from wrapper to wrapper.
  \<^item> \<open>Console\<close>: \<open>arch/uart.rs\<close> and \<open>common/fmt.rs\<close>; a character takes at most a thousand readings,
    and numbers are printed digit by digit as \<open>Rust_Text\<close> formats them. Locale \<open>digit_loop\<close>,
    interpreted as \<open>dec32\<close>, \<open>dec64\<close> and \<open>hex64\<close>.

  \<^bold>\<open>Conventions.\<close> Words have the width of the source; where the build checks overflow, an overflow
  is a panic outcome. Errors are values, one constructor per message; texts are modelled only where a
  program reads them back or where they are the product. Loops are structural recursion or have a
  termination proof (the instruction scans recurse on the remaining bytes). The one fuel argument is
  that of the depth-first search of \<open>sntm-stack\<close>; the number of functions is shown to be enough.
  Readings of devices (time, cycle counter, CSRs, OTP), answers of the file system and the functions of
  BLAKE3, Ed25519, TOML, \<open>object\<close>, \<open>syn\<close> and UTF-8 decoding are arguments; hypotheses about them are
  named (\<open>warl_ok\<close>, \<open>linker_ok\<close>, \<open>platform_ok\<close>, collision freedom of the keyed hash, correctness of
  signatures), and examples satisfy them.

  \<^bold>\<open>What the theorems assume of the machine.\<close> Kernel statics are fields of a record and not
  addresses: the fixed PMP entry 5 lets user mode write the kernel's data (lemma
  \<open>kernel_data_user_writable\<close>), and what such a store does to the statics is outside the model. The
  context of a task is what \<open>TaskContext\<close> saves; caller-saved registers of the trap frame, nested traps and the one resume address of \<open>switch_context\<close> are not
  represented. \<open>sfence.vma\<close> and fences have no effect on the state.

  \<^bold>\<open>Not modelled.\<close> The hash and signature libraries are not in the repository.
  \<open>common/diagnostic.rs\<close>, \<open>sync.rs\<close>, the access instructions of \<open>arch/csr.rs\<close> and \<open>boot.S\<close> are
  language and hardware glue; the calls that print are left out of the kernel's operations, and
  messages of halts are kept up to their first dash. \<open>verify.rs\<close>, \<open>tests/\<close> and the tools' test directories state bounded checks of the
  functions modelled here. The Rust text around the generated profile and capability tables, help
  texts and progress prints are left out. Strings of the host tools are sequences of 8-bit characters.
\<close>

end
